(* ===== verification/Go_Prelude.thy ===== *)
theory Go_Prelude
  imports Main "HOL-Library.Word" "HOL-Library.Multiset" "HOL-Library.AList"
begin

text \<open>
  Shared ground of the development: the Go base types the components use (bytes, sized
  integers, instants and durations), the two's-complement \<open>int\<close> arithmetic of a 64-bit
  target, the in-place slice idioms of the sources (replace or delete the first match), the
  contract of \<open>sort.Slice\<close>, and the automation the component theories extend.
\<close>

section \<open>Collections of facts\<close>

named_theorems go_time \<open>definitions of the time model\<close>
named_theorems slice_simps \<open>facts on the slice idioms\<close>
named_theorems inv_intros \<open>invariant preservation, one rule per operation\<close>

section \<open>Base types\<close>

type_synonym byte = "8 word"
type_synonym bytes = "byte list"
type_synonym u32 = "32 word"
type_synonym u64 = "64 word"
type_synonym i64 = "64 word"
type_synonym 'a res = "string + 'a"

text \<open>
  Go's \<open>int\<close> is a 64-bit two's-complement integer on every target of the build. Values of
  type \<open>int\<close> that can leave the range are kept in it by \<open>wrap64\<close>; division and
  remainder truncate towards zero.
\<close>

definition wrap64 :: "int \<Rightarrow> int" where
  "wrap64 n = (n + 2 ^ 63) mod 2 ^ 64 - 2 ^ 63"

definition go_div :: "int \<Rightarrow> int \<Rightarrow> int" where
  "go_div a b = sgn a * sgn b * (\<bar>a\<bar> div \<bar>b\<bar>)"

definition go_mod :: "int \<Rightarrow> int \<Rightarrow> int" where
  "go_mod a b = a - b * go_div a b"

lemma unat_byte_less: "unat (b :: byte) < 256"
  using unsigned_less[of b] by simp

lemma unat_bound: "unat (w :: 'a :: len word) < 2 ^ LENGTH('a)"
  by (rule unsigned_less)

lemma unat_of_nat_small: "n < 2 ^ LENGTH('a) \<Longrightarrow> unat (of_nat n :: 'a :: len word) = n"
  by (simp add: unat_of_nat)

lemma of_nat_word_inj:
  "m < 2 ^ LENGTH('a) \<Longrightarrow> n < 2 ^ LENGTH('a) \<Longrightarrow> (of_nat m :: 'a :: len word) = of_nat n \<longleftrightarrow> m = n"
  by (metis unat_of_nat_small)

lemma unat_succ:
  fixes a b :: "'a :: len word"
  assumes "a < b"
  shows "unat (a + 1) = Suc (unat a)"
proof -
  have "Suc (unat a) < 2 ^ LENGTH('a)" using assms unat_bound[of b] unfolding word_less_nat_alt by linarith
  then show ?thesis by (simp add: unat_word_ariths)
qed

lemma wrap64_id: "- (2 ^ 63) \<le> n \<Longrightarrow> n < 2 ^ 63 \<Longrightarrow> wrap64 n = n"
  by (simp add: wrap64_def)

lemma go_div_nonneg: "0 \<le> a \<Longrightarrow> 0 < b \<Longrightarrow> go_div a b = a div b"
  by (cases "a = 0") (auto simp: go_div_def)

lemma go_mod_nonneg: "0 \<le> a \<Longrightarrow> 0 < b \<Longrightarrow> go_mod a b = a mod b"
  by (simp add: go_mod_def go_div_nonneg minus_mult_div_eq_mod)

section \<open>Time\<close>

text \<open>
  A \<open>time.Time\<close> is an instant, in nanoseconds since the Unix epoch; a
  \<open>time.Duration\<close> is a number of nanoseconds. \<open>Time.Sub\<close> saturates at the
  \<open>int64\<close> range. The zero \<open>time.Time\<close> is the first instant of the year 1.
  The clock is an argument of every operation that reads it.
\<close>

type_synonym time = int
type_synonym duration = int

definition second :: duration where "second = 1000000000"
definition minute :: duration where "minute = 60 * second"
definition hour :: duration where "hour = 60 * minute"

definition zero_time :: time where
  "zero_time = - 62135596800 * second"

definition is_zero_time :: "time \<Rightarrow> bool" where
  "is_zero_time t \<longleftrightarrow> t = zero_time"

definition time_sub :: "time \<Rightarrow> time \<Rightarrow> duration" where
  "time_sub a b = max (- (2 ^ 63)) (min (2 ^ 63 - 1) (a - b))"

definition time_of_millis :: "i64 \<Rightarrow> time" where
  "time_of_millis ms = sint ms * 1000000"

definition unix_millis :: "time \<Rightarrow> i64" where
  "unix_millis t = word_of_int (t div 1000000)"

lemmas [go_time] = second_def minute_def hour_def zero_time_def is_zero_time_def time_sub_def

lemma time_sub_self [simp]: "time_sub t t = 0"
  by (simp add: time_sub_def)

lemma time_sub_gt:
  "0 \<le> d \<Longrightarrow> d < 2 ^ 63 - 1 \<Longrightarrow> time_sub a b > d \<longleftrightarrow> a - b > d"
  by (auto simp: time_sub_def)

lemma time_sub_mono: "a \<le> a' \<Longrightarrow> time_sub a b \<le> time_sub a' b"
  by (auto simp: time_sub_def)

lemma unix_millis_of_millis [simp]: "unix_millis (time_of_millis ms) = ms"
  by (simp add: unix_millis_def time_of_millis_def)

section \<open>Slice idioms\<close>

text \<open>
  \<open>for i, p := range s { if P(p) { s[i] = f(p); return } }\<close> and
  \<open>for i, p := range s { if P(p) { s = append(s[:i], s[i+1:]...); return } }\<close>.
\<close>

fun update_first :: "('a \<Rightarrow> bool) \<Rightarrow> ('a \<Rightarrow> 'a) \<Rightarrow> 'a list \<Rightarrow> 'a list" where
  "update_first P f [] = []"
| "update_first P f (x # xs) = (if P x then f x # xs else x # update_first P f xs)"

fun remove_first :: "('a \<Rightarrow> bool) \<Rightarrow> 'a list \<Rightarrow> 'a list" where
  "remove_first P [] = []"
| "remove_first P (x # xs) = (if P x then xs else x # remove_first P xs)"

lemma length_update_first [simp]: "length (update_first P f xs) = length xs"
  by (induction xs) auto

lemma length_remove_first:
  "length (remove_first P xs) = (if \<exists>x \<in> set xs. P x then length xs - 1 else length xs)"
  by (induction xs) (auto simp: neq_Nil_conv split: if_splits dest: length_pos_if_in_set)

lemma set_remove_first_subset: "set (remove_first P xs) \<subseteq> set xs"
  by (induction xs) auto

lemma remove_first_id: "\<forall>x \<in> set xs. \<not> P x \<Longrightarrow> remove_first P xs = xs"
  by (induction xs) auto

lemma mset_remove_first:
  "find P xs = Some x \<Longrightarrow> mset xs = add_mset x (mset (remove_first P xs))"
  by (induction xs) (auto split: if_splits)

lemma distinct_map_remove_first:
  "distinct (map f xs) \<Longrightarrow> distinct (map f (remove_first P xs))"
  by (induction xs) (use set_remove_first_subset in \<open>auto, fastforce\<close>)

lemma map_update_first: "(\<And>x. f (g x) = f x) \<Longrightarrow> map f (update_first P g xs) = map f xs"
  by (induction xs) auto

lemma set_update_first: "set (update_first P f xs) \<subseteq> set xs \<union> f ` {x \<in> set xs. P x}"
  by (induction xs) auto

lemma find_Some_mem: "find P xs = Some x \<Longrightarrow> x \<in> set xs \<and> P x"
  by (induction xs) (auto split: if_splits)

lemma find_None_mem: "find P xs = None \<longleftrightarrow> (\<forall>x \<in> set xs. \<not> P x)"
  by (induction xs) auto

lemma remove_first_unique:
  assumes "distinct (map f xs)"
  shows "remove_first (\<lambda>x. f x = k) xs = filter (\<lambda>x. f x \<noteq> k) xs"
  using assms
proof (induction xs)
  case (Cons x xs)
  have "f x = k \<Longrightarrow> filter (\<lambda>x. f x \<noteq> k) xs = xs"
    using Cons.prems by (intro filter_True) (force simp: image_iff)
  with Cons show ?case by simp
qed simp

lemmas [slice_simps] =
  length_remove_first mset_remove_first find_None_mem set_remove_first_subset

section \<open>\<open>sort.Slice\<close>\<close>

text \<open>
  \<open>sort.Slice\<close> sorts by a caller-supplied \<open>less\<close> and is not stable, so all the
  caller knows is that the result is a permutation in which no later element is less than an
  earlier one. \<open>sort_slice\<close> computes one such result; \<open>go_sorted\<close> says which
  results the library may return.
\<close>

fun insert_by :: "('a \<Rightarrow> 'a \<Rightarrow> bool) \<Rightarrow> 'a \<Rightarrow> 'a list \<Rightarrow> 'a list" where
  "insert_by lt x [] = [x]"
| "insert_by lt x (y # ys) = (if lt y x then y # insert_by lt x ys else x # y # ys)"

definition sort_slice :: "('a \<Rightarrow> 'a \<Rightarrow> bool) \<Rightarrow> 'a list \<Rightarrow> 'a list" where
  "sort_slice lt xs = foldr (insert_by lt) xs []"

definition go_sorted :: "('a \<Rightarrow> 'a \<Rightarrow> bool) \<Rightarrow> 'a list \<Rightarrow> 'a list \<Rightarrow> bool" where
  "go_sorted lt xs ys \<longleftrightarrow> mset ys = mset xs \<and> sorted_wrt (\<lambda>a b. \<not> lt b a) ys"

lemma sort_slice_simps [simp]:
  "sort_slice lt [] = []"
  "sort_slice lt (x # xs) = insert_by lt x (sort_slice lt xs)"
  by (simp_all add: sort_slice_def)

lemma mset_insert_by [simp]: "mset (insert_by lt x xs) = add_mset x (mset xs)"
  by (induction xs) auto

lemma set_insert_by [simp]: "set (insert_by lt x xs) = insert x (set xs)"
  by (induction xs) auto

lemma mset_sort_slice [simp]: "mset (sort_slice lt xs) = mset xs"
  by (induction xs) auto

lemma set_sort_slice [simp]: "set (sort_slice lt xs) = set xs"
  by (metis mset_sort_slice set_mset_mset)

lemma length_sort_slice [simp]: "length (sort_slice lt xs) = length xs"
  by (metis mset_sort_slice size_mset)

text \<open>What a caller's comparison must satisfy: a strict weak order.\<close>

locale slice_less =
  fixes lt :: "'a \<Rightarrow> 'a \<Rightarrow> bool"
  assumes lt_asym: "lt a b \<Longrightarrow> \<not> lt b a"
    and lt_negtrans: "\<not> lt b a \<Longrightarrow> \<not> lt c b \<Longrightarrow> \<not> lt c a"
begin

lemma sorted_insert_by:
  "sorted_wrt (\<lambda>a b. \<not> lt b a) xs \<Longrightarrow> sorted_wrt (\<lambda>a b. \<not> lt b a) (insert_by lt x xs)"
  by (induction xs) (auto dest: lt_asym lt_negtrans)

lemma go_sorted_sort_slice: "go_sorted lt xs (sort_slice lt xs)"
proof -
  have "sorted_wrt (\<lambda>a b. \<not> lt b a) (sort_slice lt xs)"
    by (induction xs) (auto intro: sorted_insert_by)
  then show ?thesis by (simp add: go_sorted_def)
qed

lemma go_sorted_unique_aux:
  "\<lbrakk> mset ys = mset zs; sorted_wrt (\<lambda>a b. \<not> lt b a) ys; sorted_wrt (\<lambda>a b. \<not> lt b a) zs;
     \<forall>a \<in> set ys. \<forall>b \<in> set ys. a \<noteq> b \<longrightarrow> lt a b \<or> lt b a \<rbrakk> \<Longrightarrow> ys = zs"
proof (induction ys arbitrary: zs)
  case Nil
  then show ?case by simp
next
  case (Cons y ys)
  then obtain z zs' where zs: "zs = z # zs'"
    by (cases zs) auto
  have mem: "z \<in> set (y # ys)" "y \<in> set (z # zs')"
    using Cons.prems(1) zs by (metis list.set_intros(1) set_mset_mset)+
  have "y = z"
  proof (rule ccontr)
    assume ne: "y \<noteq> z"
    then have "\<not> lt z y" "\<not> lt y z"
      using mem Cons.prems(2,3) zs by auto
    with ne mem Cons.prems(4) show False by auto
  qed
  moreover have "ys = zs'"
    using Cons.prems zs \<open>y = z\<close> by (intro Cons.IH) auto
  ultimately show ?case using zs by simp
qed

lemma go_sorted_unique:
  assumes "go_sorted lt xs ys"
    and "\<forall>a \<in> set xs. \<forall>b \<in> set xs. a \<noteq> b \<longrightarrow> lt a b \<or> lt b a"
  shows "ys = sort_slice lt xs"
proof -
  have "set ys = set xs"
    using assms(1) by (metis go_sorted_def set_mset_mset)
  with assms go_sorted_sort_slice[of xs] show ?thesis
    by (intro go_sorted_unique_aux) (auto simp: go_sorted_def)
qed

end

section \<open>Fixed-size copies\<close>

text \<open>\<open>copy(dst[:], src)\<close> into a zeroed \<open>[n]byte\<close>.\<close>

definition copy_fixed :: "nat \<Rightarrow> bytes \<Rightarrow> bytes" where
  "copy_fixed n src = take n src @ replicate (n - length src) 0"

lemma length_copy_fixed [simp]: "length (copy_fixed n src) = n"
  by (simp add: copy_fixed_def)

lemma copy_fixed_exact: "length src = n \<Longrightarrow> copy_fixed n src = src"
  by (simp add: copy_fixed_def)

section \<open>Association by key\<close>

lemma alist_update_append: "k \<notin> fst ` set al \<Longrightarrow> AList.update k v al = al @ [(k, v)]"
  by (induction al) auto

lemma set_alist_update: "set (AList.update k v al) \<subseteq> insert (k, v) (set al)"
  by (induction al) auto

lemma snd_update_alist: "v \<notin> snd ` set al \<Longrightarrow> distinct (map snd al) \<Longrightarrow> distinct (map snd (AList.update k v al))"
proof (induction al)
  case (Cons p al)
  then show ?case using set_alist_update[of k v al] by (cases p) (fastforce simp: image_iff)
qed simp

lemma alist_update_middle:
  "k \<notin> fst ` set xs \<Longrightarrow> AList.update k v (xs @ (k, w) # ys) = xs @ (k, v) # ys"
  by (induction xs) auto

lemma map_upd_Some_iff: "(m(k \<mapsto> v)) x = Some y \<longleftrightarrow> (if x = k then y = v else m x = Some y)"
  by auto

lemma sum_length_bound: "\<forall>b \<in> set bs. length b \<le> k \<Longrightarrow> sum_list (map length bs) \<le> length bs * k"
  by (induction bs) auto

lemma in_concat_nth: "x \<in> set (concat xss) \<longleftrightarrow> (\<exists>i < length xss. x \<in> set (xss ! i))"
  by (auto simp: in_set_conv_nth[of _ xss] Bex_def)

end
