(* ===== verification/Identity.thy ===== *)
theory Identity
  imports Go_Prelude
begin

text \<open>
  The identity layer (\<open>src/internal/identity/address.go\<close>, \<open>keypair.go\<close>):
  Ed25519 key pairs and the Base58Check addresses derived from them. The hash functions, the
  Base58 codec and the signature primitives are parameters, collected in the records
  \<open>hashes\<close> and \<open>ed25519\<close>; \<open>hash_widths\<close>, \<open>base58_inverse\<close> and
  \<open>ed25519_correct\<close> name the documented behaviour the theorems rely on.
\<close>

section \<open>Parameters\<close>

record hashes =
  sha256 :: "bytes \<Rightarrow> bytes"
  ripemd160 :: "bytes \<Rightarrow> bytes"
  base58_encode :: "bytes \<Rightarrow> string"
  base58_decode :: "string \<Rightarrow> bytes option"

definition hash_widths :: "hashes \<Rightarrow> bool" where
  "hash_widths H \<longleftrightarrow>
     (\<forall>x. length (sha256 H x) = 32) \<and> (\<forall>x. length (ripemd160 H x) = 20)"

definition base58_inverse :: "hashes \<Rightarrow> bool" where
  "base58_inverse H \<longleftrightarrow> (\<forall>x. base58_decode H (base58_encode H x) = Some x)"

record ed25519 =
  ed_new_key :: "bytes \<Rightarrow> bytes"
  ed_sign :: "bytes \<Rightarrow> bytes \<Rightarrow> bytes"
  ed_verify :: "bytes \<Rightarrow> bytes \<Rightarrow> bytes \<Rightarrow> bool"

text \<open>
  A Go \<open>ed25519.PrivateKey\<close> is the 32-byte seed followed by the 32-byte public key;
  \<open>Seed\<close> and \<open>Public\<close> read the two halves.
\<close>

definition ed_seed :: "bytes \<Rightarrow> bytes" where
  "ed_seed k = take 32 k"

definition ed_public :: "bytes \<Rightarrow> bytes" where
  "ed_public k = drop 32 k"

definition ed25519_keys :: "ed25519 \<Rightarrow> bool" where
  "ed25519_keys E \<longleftrightarrow>
     (\<forall>s. length s = 32 \<longrightarrow> length (ed_new_key E s) = 64 \<and> ed_seed (ed_new_key E s) = s)"

definition ed25519_correct :: "ed25519 \<Rightarrow> bool" where
  "ed25519_correct E \<longleftrightarrow>
     (\<forall>s m. length s = 32 \<longrightarrow>
        ed_verify E (ed_public (ed_new_key E s)) m (ed_sign E (ed_new_key E s) m))"

section \<open>Key pairs\<close>

text \<open>
  A verify-only key pair, as \<open>FromPublicKey\<close> builds it, has no private key. Its
  \<open>Sign\<close> would panic in Go; the callers only ever \<open>Verify\<close> with it.
\<close>

record keypair =
  pub :: bytes
  priv :: bytes

definition SeedSize :: nat where "SeedSize = 32"
definition PrivateKeySize :: nat where "PrivateKeySize = 64"
definition PublicKeySize :: nat where "PublicKeySize = 32"

definition FromSeed :: "ed25519 \<Rightarrow> bytes \<Rightarrow> keypair res" where
  "FromSeed E seed =
     (if length seed \<noteq> SeedSize then Inl ''invalid seed size''
      else (let k = ed_new_key E seed in Inr \<lparr>pub = ed_public k, priv = k\<rparr>))"

definition Generate :: "ed25519 \<Rightarrow> bytes res \<Rightarrow> keypair res" where
  "Generate E rand_seed =
     (case rand_seed of
        Inl e \<Rightarrow> Inl ''generating keypair''
      | Inr seed \<Rightarrow> (let k = ed_new_key E seed in Inr \<lparr>pub = ed_public k, priv = k\<rparr>))"

definition PublicKey :: "keypair \<Rightarrow> bytes" where
  "PublicKey k = pub k"

definition Seed :: "keypair \<Rightarrow> bytes" where
  "Seed k = ed_seed (priv k)"

definition Sign :: "ed25519 \<Rightarrow> keypair \<Rightarrow> bytes \<Rightarrow> bytes" where
  "Sign E k m = ed_sign E (priv k) m"

definition Verify :: "ed25519 \<Rightarrow> keypair \<Rightarrow> bytes \<Rightarrow> bytes \<Rightarrow> bool" where
  "Verify E k m sig = ed_verify E (pub k) m sig"

definition MarshalPrivate :: "keypair \<Rightarrow> bytes" where
  "MarshalPrivate k = copy_fixed PrivateKeySize (priv k)"

definition UnmarshalPrivate :: "bytes \<Rightarrow> keypair res" where
  "UnmarshalPrivate data =
     (if length data \<noteq> PrivateKeySize then Inl ''invalid private key size''
      else Inr \<lparr>pub = ed_public data, priv = data\<rparr>)"

definition FromPublicKey :: "bytes \<Rightarrow> keypair res" where
  "FromPublicKey data =
     (if length data \<noteq> PublicKeySize then Inl ''invalid public key size''
      else Inr \<lparr>pub = data, priv = []\<rparr>)"

definition wf_keypair :: "keypair \<Rightarrow> bool" where
  "wf_keypair k \<longleftrightarrow> length (priv k) = PrivateKeySize \<and> pub k = ed_public (priv k)"

section \<open>Addresses\<close>

definition VersionByte :: byte where "VersionByte = 0x21"

definition hash160 :: "hashes \<Rightarrow> bytes \<Rightarrow> bytes" where
  "hash160 H pk = ripemd160 H (sha256 H pk)"

definition checksum :: "hashes \<Rightarrow> bytes \<Rightarrow> bytes" where
  "checksum H p = take 4 (sha256 H (sha256 H p))"

definition DeriveAddress :: "hashes \<Rightarrow> bytes \<Rightarrow> string" where
  "DeriveAddress H pubKey =
     (let versioned = VersionByte # hash160 H pubKey
      in base58_encode H (versioned @ checksum H versioned))"

definition Validate :: "hashes \<Rightarrow> string \<Rightarrow> bool" where
  "Validate H addr =
     (case base58_decode H addr of
        None \<Rightarrow> False
      | Some data \<Rightarrow>
          if length data < 25 then False
          else if data ! 0 \<noteq> VersionByte then False
          else (let payload = take (length data - 4) data;
                    cs = drop (length data - 4) data;
                    snd_hash = sha256 H (sha256 H payload)
                in snd_hash ! 0 = cs ! 0 \<and> snd_hash ! 1 = cs ! 1 \<and>
                   snd_hash ! 2 = cs ! 2 \<and> snd_hash ! 3 = cs ! 3))"

definition MatchesPublicKey :: "hashes \<Rightarrow> string \<Rightarrow> bytes \<Rightarrow> bool" where
  "MatchesPublicKey H addr pubKey \<longleftrightarrow> Validate H addr \<and> addr = DeriveAddress H pubKey"

definition Short :: "string \<Rightarrow> string" where
  "Short s = (if length s \<le> 12 then s else take 6 s @ ''...'' @ drop (length s - 4) s)"

section \<open>Lemmas\<close>

lemma length_sha256: "hash_widths H \<Longrightarrow> length (sha256 H x) = 32"
  by (simp add: hash_widths_def)

lemma length_hash160: "hash_widths H \<Longrightarrow> length (hash160 H pk) = 20"
  by (simp add: hash_widths_def hash160_def)

lemma length_checksum: "hash_widths H \<Longrightarrow> length (checksum H p) = 4"
  by (simp add: checksum_def length_sha256)

lemma base58_encode_inj: "base58_inverse H \<Longrightarrow> base58_encode H x = base58_encode H y \<longleftrightarrow> x = y"
  by (metis base58_inverse_def option.inject)

lemma decode_DeriveAddress:
  "base58_inverse H \<Longrightarrow> base58_decode H (DeriveAddress H pk) =
     Some (VersionByte # hash160 H pk @ checksum H (VersionByte # hash160 H pk))"
  by (simp add: DeriveAddress_def base58_inverse_def Let_def)

lemma Validate_DeriveAddress:
  assumes "hash_widths H" and "base58_inverse H"
  shows "Validate H (DeriveAddress H pk)"
proof -
  let ?v = "VersionByte # hash160 H pk"
  have len: "length ?v = 21" "length (checksum H ?v) = 4"
    using assms(1) by (simp_all add: length_hash160 length_checksum)
  have split: "take 21 (?v @ checksum H ?v) = ?v" "drop 21 (?v @ checksum H ?v) = checksum H ?v"
    using len(1) by simp_all
  have nth: "checksum H ?v ! i = sha256 H (sha256 H ?v) ! i" if "i < 4" for i
    using that by (simp add: checksum_def)
  show ?thesis
    using len split nth
    by (simp add: Validate_def decode_DeriveAddress[OF assms(2)] Let_def)
qed

lemma MatchesPublicKey_iff:
  "hash_widths H \<Longrightarrow> base58_inverse H \<Longrightarrow>
     MatchesPublicKey H addr pk \<longleftrightarrow> addr = DeriveAddress H pk"
  by (auto simp: MatchesPublicKey_def Validate_DeriveAddress)

lemma DeriveAddress_eq_iff:
  assumes "hash_widths H" and "base58_inverse H"
  shows "DeriveAddress H p = DeriveAddress H q \<longleftrightarrow> hash160 H p = hash160 H q"
proof
  assume "DeriveAddress H p = DeriveAddress H q"
  with assms show "hash160 H p = hash160 H q"
    by (auto simp: DeriveAddress_def Let_def base58_encode_inj length_hash160 append_eq_append_conv)
qed (simp add: DeriveAddress_def)

lemma FromSeed_wf:
  "ed25519_keys E \<Longrightarrow> FromSeed E s = Inr k \<Longrightarrow> wf_keypair k \<and> Seed k = s"
  by (auto simp: FromSeed_def wf_keypair_def ed25519_keys_def Let_def Seed_def SeedSize_def
      PrivateKeySize_def split: if_splits)

lemma FromSeed_verifies:
  "ed25519_correct E \<Longrightarrow> FromSeed E s = Inr k \<Longrightarrow> Verify E k m (Sign E k m)"
  by (auto simp: FromSeed_def ed25519_correct_def Verify_def Sign_def Let_def SeedSize_def
      split: if_splits)

lemma FromPublicKey_Inr:
  "FromPublicKey d = Inr k \<longleftrightarrow> length d = PublicKeySize \<and> k = \<lparr>pub = d, priv = []\<rparr>"
  by (auto simp: FromPublicKey_def)

lemma Unmarshal_Marshal_Private:
  "wf_keypair k \<Longrightarrow> UnmarshalPrivate (MarshalPrivate k) = Inr k"
  by (simp add: wf_keypair_def UnmarshalPrivate_def MarshalPrivate_def copy_fixed_exact)

lemma Short_length: "length (Short s) \<le> 13"
  by (simp add: Short_def)

section \<open>A concrete instance of the parameters\<close>

text \<open>
  A cheap stand-in with the documented widths and inverses, at which the hypotheses above hold
  and everything computes.
\<close>

definition demo_hashes :: hashes where
  "demo_hashes =
     \<lparr>sha256 = copy_fixed 32, ripemd160 = copy_fixed 20,
      base58_encode = map (\<lambda>b. char_of (unat b)),
      base58_decode = (\<lambda>s. Some (map (\<lambda>c. of_nat (of_char c)) s))\<rparr>"

definition demo_ed25519 :: ed25519 where
  "demo_ed25519 =
     \<lparr>ed_new_key = (\<lambda>s. s @ s), ed_sign = (\<lambda>k m. ed_public k @ m),
      ed_verify = (\<lambda>p m s. s = p @ m)\<rparr>"

lemma demo_hash_widths: "hash_widths demo_hashes"
  by (simp add: hash_widths_def demo_hashes_def)

lemma byte_of_unat_mod: "of_nat (unat b mod 256) = (b :: byte)"
  by (simp add: unat_byte_less)

lemma demo_base58_inverse: "base58_inverse demo_hashes"
  by (simp add: base58_inverse_def demo_hashes_def comp_def byte_of_unat_mod)

lemma demo_ed25519_keys: "ed25519_keys demo_ed25519"
  by (simp add: ed25519_keys_def demo_ed25519_def ed_seed_def)

lemma demo_ed25519_correct: "ed25519_correct demo_ed25519"
  by (simp add: ed25519_correct_def demo_ed25519_def)

lemmas demo_params =
  demo_hash_widths demo_base58_inverse demo_ed25519_keys demo_ed25519_correct

end
