(* ===== verification/Node_Id.thy ===== *)
theory Node_Id
  imports Identity
begin

text \<open>
  Kademlia identifiers (\<open>src/internal/discovery/routing.go\<close>): deriving a
  \<open>NodeID\<close> from a key or an address, the XOR distance, the common-prefix length that
  selects a bucket and the byte-wise comparison of distances. A \<open>NodeID\<close> is a list of
  20 bytes. The lemmas relate the two loops to their mathematical meaning: the comparison is
  the order of the distances read as big-endian numbers, the prefix length is the position of
  the first differing bit, and a longer common prefix means a smaller distance.
\<close>

unbundle bit_operations_syntax

type_synonym node_id = bytes

definition IDLength :: nat where "IDLength = 20"
definition NumBuckets :: nat where "NumBuckets = 160"

definition wf_id :: "node_id \<Rightarrow> bool" where
  "wf_id a \<longleftrightarrow> length a = IDLength"

section \<open>Operations\<close>

definition NodeIDFromPublicKey :: "hashes \<Rightarrow> bytes \<Rightarrow> node_id" where
  "NodeIDFromPublicKey H pubKey = copy_fixed IDLength (ripemd160 H (sha256 H pubKey))"

definition NodeIDFromAddress :: "hashes \<Rightarrow> string \<Rightarrow> node_id res" where
  "NodeIDFromAddress H addr =
     (case base58_decode H addr of
        None \<Rightarrow> Inl ''decoding address''
      | Some data \<Rightarrow>
          if length data < 25 then Inl ''address too short''
          else Inr (copy_fixed IDLength (take 20 (drop 1 data))))"

definition Distance :: "node_id \<Rightarrow> node_id \<Rightarrow> node_id" where
  "Distance a b = map (\<lambda>i. a ! i XOR b ! i) [0..<IDLength]"

text \<open>The inner loop \<open>for bit := 7; bit >= 0; bit--\<close>, over the bits below \<open>n\<close>.\<close>

fun leading_bit :: "byte \<Rightarrow> nat \<Rightarrow> nat option" where
  "leading_bit x 0 = None"
| "leading_bit x (Suc n) = (if x AND push_bit n 1 \<noteq> 0 then Some n else leading_bit x n)"

fun cpl_loop :: "node_id \<Rightarrow> node_id \<Rightarrow> nat list \<Rightarrow> nat" where
  "cpl_loop a b [] = NumBuckets"
| "cpl_loop a b (i # is) =
     (let x = a ! i XOR b ! i
      in if x = 0 then cpl_loop a b is
         else (case leading_bit x 8 of
                 Some k \<Rightarrow> i * 8 + (7 - k)
               | None \<Rightarrow> cpl_loop a b is))"

definition CommonPrefixLen :: "node_id \<Rightarrow> node_id \<Rightarrow> nat" where
  "CommonPrefixLen a b = cpl_loop a b [0..<IDLength]"

fun cmp_loop :: "node_id \<Rightarrow> node_id \<Rightarrow> nat list \<Rightarrow> int" where
  "cmp_loop a b [] = 0"
| "cmp_loop a b (i # is) =
     (if a ! i < b ! i then -1 else if a ! i > b ! i then 1 else cmp_loop a b is)"

definition compareDist :: "node_id \<Rightarrow> node_id \<Rightarrow> int" where
  "compareDist a b = cmp_loop a b [0..<IDLength]"

section \<open>Reference meanings\<close>

text \<open>The number a byte string stands for, most significant byte first.\<close>

fun be_value :: "bytes \<Rightarrow> nat" where
  "be_value [] = 0"
| "be_value (x # xs) = unat x * 256 ^ length xs + be_value xs"

text \<open>The bits of a byte string, most significant first.\<close>

definition byte_bits :: "byte \<Rightarrow> bool list" where
  "byte_bits x = map (bit x) (rev [0..<8])"

definition id_bits :: "bytes \<Rightarrow> bool list" where
  "id_bits a = concat (map byte_bits a)"

fun common_prefix :: "'a list \<Rightarrow> 'a list \<Rightarrow> nat" where
  "common_prefix (x # xs) (y # ys) = (if x = y then Suc (common_prefix xs ys) else 0)"
| "common_prefix xs ys = 0"

section \<open>Lists of bytes\<close>

lemma be_value_less: "be_value xs < 256 ^ length xs"
proof (induction xs)
  case (Cons x xs)
  have x: "unat x + 1 \<le> 256" using unat_byte_less[of x] by simp
  have "be_value (x # xs) < (unat x + 1) * 256 ^ length xs"
    using Cons by (simp add: algebra_simps)
  also have "\<dots> \<le> 256 * 256 ^ length xs"
    using x by (intro mult_right_mono) auto
  finally show ?case by simp
qed simp

lemma be_value_Cons_less:
  assumes "length xs = length ys" and "unat x < unat y"
  shows "be_value (x # xs) < be_value (y # ys)"
proof -
  have "be_value (x # xs) < (unat x + 1) * 256 ^ length xs"
    using be_value_less[of xs] by (simp add: algebra_simps)
  also have "\<dots> \<le> unat y * 256 ^ length xs"
    using assms(2) by (intro mult_right_mono) auto
  finally show ?thesis using assms(1) by simp
qed

lemma be_value_inj: "length xs = length ys \<Longrightarrow> be_value xs = be_value ys \<longleftrightarrow> xs = ys"
proof (induction xs ys rule: list_induct2)
  case (Cons x xs y ys)
  then show ?case
    using be_value_Cons_less[of xs ys x y] be_value_Cons_less[of ys xs y x]
    by (cases "unat x" "unat y" rule: linorder_cases) (auto simp: word_unat_eq_iff)
qed simp

lemma upt_Suc_shift: "[0..<Suc n] = 0 # map Suc [0..<n]"
  by (simp only: upt_conv_Cons zero_less_Suc map_Suc_upt)

lemma cmp_loop_shift: "cmp_loop (x # a) (y # b) (map Suc is) = cmp_loop a b is"
  by (induction "is") auto

lemma sgn_diff_neg: "m < n \<Longrightarrow> sgn (int m - int n) = -1"
  by simp

lemma sgn_diff_pos: "n < m \<Longrightarrow> sgn (int m - int n) = 1"
  by simp

lemma cmp_loop_value:
  "length a = length b \<Longrightarrow>
     cmp_loop a b [0..<length a] = sgn (int (be_value a) - int (be_value b))"
proof (induction a b rule: list_induct2)
  case (Cons x xs y ys)
  have step: "cmp_loop (x # xs) (y # ys) [0..<length (x # xs)] =
      (if x < y then -1 else if x > y then 1 else cmp_loop xs ys [0..<length xs])"
    by (simp only: list.size(4) add_0_right add_Suc_right upt_Suc_shift cmp_loop.simps
        cmp_loop_shift nth_Cons_0)
  show ?case
  proof (cases "unat x" "unat y" rule: linorder_cases)
    case less
    with be_value_Cons_less[OF Cons.hyps less] show ?thesis
      by (simp only: step word_less_nat_alt sgn_diff_neg) simp
  next
    case equal
    then have "x = y" by (simp add: word_unat_eq_iff)
    then show ?thesis unfolding step using Cons.IH Cons.hyps by simp
  next
    case greater
    with be_value_Cons_less[OF Cons.hyps[symmetric] greater] show ?thesis
      by (simp only: step word_less_nat_alt sgn_diff_pos) simp
  qed
qed simp

section \<open>Distance\<close>

lemma length_Distance [simp]: "length (Distance a b) = IDLength"
  by (simp add: Distance_def)

lemma wf_Distance [simp]: "wf_id (Distance a b)"
  by (simp add: wf_id_def)

lemma nth_Distance: "i < IDLength \<Longrightarrow> Distance a b ! i = a ! i XOR b ! i"
  by (simp add: Distance_def)

lemma Distance_sym: "Distance a b = Distance b a"
  by (simp add: Distance_def xor.commute)

lemma Distance_self: "Distance a a = replicate IDLength 0"
  by (simp add: Distance_def map_replicate_trivial[symmetric] del: map_replicate_trivial)

lemma xor_xor_cancel: "(x XOR t) XOR t = (x :: byte)"
  by (simp add: xor.assoc)

lemma xor_right_cancel: "x XOR t = y XOR t \<Longrightarrow> x = (y :: byte)"
  by (metis xor_xor_cancel)

lemma Distance_inj:
  assumes "wf_id a" "wf_id b" "Distance a t = Distance b t"
  shows "a = b"
proof (rule nth_equalityI)
  show "length a = length b" using assms by (simp add: wf_id_def)
next
  fix i assume "i < length a"
  then have "a ! i XOR t ! i = b ! i XOR t ! i"
    using assms nth_Distance[of i] by (metis wf_id_def)
  then show "a ! i = b ! i"
    by (rule xor_right_cancel)
qed

lemma Distance_triangle: "Distance (Distance a b) (Distance b c) = Distance a c"
proof (rule nth_equalityI)
  fix i assume "i < length (Distance (Distance a b) (Distance b c))"
  then have i: "i < IDLength" by simp
  have "(a ! i XOR b ! i) XOR (b ! i XOR c ! i) = a ! i XOR c ! i"
    by (rule bit_eqI) (auto simp: bit_xor_iff)
  then show "Distance (Distance a b) (Distance b c) ! i = Distance a c ! i"
    using i by (simp add: nth_Distance)
qed simp

lemma compareDist_value:
  "wf_id a \<Longrightarrow> wf_id b \<Longrightarrow> compareDist a b = sgn (int (be_value a) - int (be_value b))"
  using cmp_loop_value[of a b] by (simp add: compareDist_def wf_id_def)

lemma compareDist_less_iff:
  "wf_id a \<Longrightarrow> wf_id b \<Longrightarrow> compareDist a b < 0 \<longleftrightarrow> be_value a < be_value b"
  by (simp add: compareDist_value)

lemma compareDist_zero_iff: "wf_id a \<Longrightarrow> wf_id b \<Longrightarrow> compareDist a b = 0 \<longleftrightarrow> a = b"
  by (auto simp: compareDist_value sgn_if wf_id_def be_value_inj split: if_splits)

section \<open>Common prefixes\<close>

lemma common_prefix_append:
  "length xs = length ys \<Longrightarrow>
     common_prefix (xs @ xs') (ys @ ys') =
       (if xs = ys then length xs + common_prefix xs' ys' else common_prefix xs ys)"
  by (induction xs ys rule: list_induct2) auto

lemma common_prefix_self: "common_prefix xs xs = length xs"
  by (induction xs) auto

lemma common_prefix_sym: "common_prefix xs ys = common_prefix ys xs"
  by (induction xs ys rule: common_prefix.induct) auto

lemma common_prefix_less:
  "length xs = length ys \<Longrightarrow> xs \<noteq> ys \<Longrightarrow> common_prefix xs ys < length xs"
  by (induction xs ys rule: list_induct2) auto

lemma leading_bit_less: "leading_bit x n = Some k \<Longrightarrow> k < n"
  by (induction n) (auto split: if_splits)

lemma and_push_bit_iff: "x AND push_bit n 1 \<noteq> 0 \<longleftrightarrow> bit x n" for x :: byte
  by (simp add: bit_iff_and_push_bit_not_eq_0)

lemma common_prefix_bits:
  "common_prefix (map (bit x) (rev [0..<n])) (map (bit y) (rev [0..<n])) =
     (case leading_bit (x XOR y) n of Some k \<Rightarrow> n - 1 - k | None \<Rightarrow> n)"
proof (induction n)
  case (Suc n)
  show ?case
  proof (cases "bit x n = bit y n")
    case True
    then have "\<not> (x XOR y) AND push_bit n 1 \<noteq> 0"
      unfolding and_push_bit_iff by (simp add: bit_xor_iff)
    with True Suc show ?thesis
      by (auto split: option.splits dest: leading_bit_less)
  next
    case False
    then have "(x XOR y) AND push_bit n 1 \<noteq> 0"
      unfolding and_push_bit_iff by (simp add: bit_xor_iff)
    with False show ?thesis by simp
  qed
qed simp

lemma length_byte_bits [simp]: "length (byte_bits x) = 8"
  by (simp add: byte_bits_def)

lemma byte_bits_inj: "byte_bits x = byte_bits y \<longleftrightarrow> x = y"
proof
  assume "byte_bits x = byte_bits y"
  then have "bit x n = bit y n" if "n < 8" for n
    using that by (auto simp: byte_bits_def)
  then show "x = y" by (intro bit_word_eqI) simp
qed simp

lemma length_id_bits [simp]: "length (id_bits a) = 8 * length a"
  by (induction a) (simp_all add: id_bits_def)

lemma id_bits_Cons [simp]: "id_bits (x # a) = byte_bits x @ id_bits a"
  by (simp add: id_bits_def)

lemma id_bits_Nil [simp]: "id_bits [] = []"
  by (simp add: id_bits_def)

lemma id_bits_inj: "length a = length b \<Longrightarrow> id_bits a = id_bits b \<longleftrightarrow> a = b"
  by (induction a b rule: list_induct2) (auto simp: byte_bits_inj)

lemma cpl_byte:
  assumes "x \<noteq> y"
  shows "\<exists>k. leading_bit (x XOR y) 8 = Some k \<and> common_prefix (byte_bits x) (byte_bits y) = 7 - k"
proof -
  have "common_prefix (byte_bits x) (byte_bits y) < 8"
    using assms common_prefix_less[of "byte_bits x" "byte_bits y"] by (simp add: byte_bits_inj)
  then show ?thesis
    using common_prefix_bits[of x 8 y] unfolding byte_bits_def
    by (auto split: option.splits)
qed

lemma xor_eq_0_iff: "x XOR y = 0 \<longleftrightarrow> x = y" for x y :: byte
  by (metis xor_self_eq xor_right_cancel)

lemma cpl_loop_prefix:
  assumes "length a = length b" and "length p = d" and "length q = d" and "d + length a = IDLength"
  shows "cpl_loop (p @ a) (q @ b) [d..<d + length a] =
     8 * d + common_prefix (id_bits a) (id_bits b)"
  using assms
proof (induction a b arbitrary: p q d rule: list_induct2)
  case Nil
  then show ?case by (simp add: IDLength_def NumBuckets_def)
next
  case (Cons x a y b)
  have upt: "[d..<d + length (x # a)] = d # [Suc d..<Suc d + length a]"
    by (simp add: upt_conv_Cons del: upt_Suc)
  have nth: "(p @ x # a) ! d = x" "(q @ y # b) ! d = y"
    using Cons.prems by (simp_all add: nth_append)
  show ?case
  proof (cases "x = y")
    case True
    have "cpl_loop ((p @ [x]) @ a) ((q @ [y]) @ b) [Suc d..<Suc d + length a] =
        8 * Suc d + common_prefix (id_bits a) (id_bits b)"
      using Cons.prems by (intro Cons.IH) auto
    with True show ?thesis
      unfolding upt cpl_loop.simps nth
      by (simp add: common_prefix_append common_prefix_self del: upt_Suc)
  next
    case False
    from cpl_byte[OF False] obtain k where
      "leading_bit (x XOR y) 8 = Some k" "common_prefix (byte_bits x) (byte_bits y) = 7 - k"
      by blast
    with False show ?thesis
      unfolding upt cpl_loop.simps nth
      by (simp add: xor_eq_0_iff common_prefix_append byte_bits_inj del: upt_Suc)
  qed
qed

lemma CommonPrefixLen_bits:
  "wf_id a \<Longrightarrow> wf_id b \<Longrightarrow> CommonPrefixLen a b = common_prefix (id_bits a) (id_bits b)"
  using cpl_loop_prefix[of a b "[]" 0 "[]"] by (simp add: CommonPrefixLen_def wf_id_def)

lemma CommonPrefixLen_less_iff:
  assumes "wf_id a" "wf_id b"
  shows "CommonPrefixLen a b < NumBuckets \<longleftrightarrow> a \<noteq> b"
proof -
  have len: "length (id_bits a) = NumBuckets" "length (id_bits b) = NumBuckets"
    using assms by (simp_all add: wf_id_def IDLength_def NumBuckets_def)
  show ?thesis
  proof (cases "a = b")
    case True
    then show ?thesis using assms len by (simp add: CommonPrefixLen_bits common_prefix_self)
  next
    case False
    then have "id_bits a \<noteq> id_bits b" using assms by (simp add: wf_id_def id_bits_inj)
    then show ?thesis
      using assms len False common_prefix_less[of "id_bits a" "id_bits b"]
      by (simp add: CommonPrefixLen_bits)
  qed
qed

lemma CommonPrefixLen_sym: "wf_id a \<Longrightarrow> wf_id b \<Longrightarrow> CommonPrefixLen a b = CommonPrefixLen b a"
  by (simp add: CommonPrefixLen_bits common_prefix_sym)

section \<open>A longer prefix is a smaller distance\<close>

fun bits_value :: "bool list \<Rightarrow> nat" where
  "bits_value [] = 0"
| "bits_value (b # bs) = of_bool b * 2 ^ length bs + bits_value bs"

lemma bits_value_append:
  "bits_value (xs @ ys) = bits_value xs * 2 ^ length ys + bits_value ys"
  by (induction xs) (auto simp: power_add algebra_simps)

lemma bits_value_nat: "bits_value (map (bit m) (rev [0..<n])) = take_bit n (m :: nat)"
  by (induction n) (auto simp: take_bit_Suc_from_most)

lemma unat_bits: "unat x = bits_value (byte_bits x)"
proof -
  have "byte_bits x = map (bit (unat x)) (rev [0..<8])"
    by (auto simp: byte_bits_def bit_simps)
  then show ?thesis
    using unat_byte_less[of x] by (simp add: bits_value_nat take_bit_nat_eq_self)
qed

lemma be_value_bits: "be_value a = bits_value (id_bits a)"
  by (induction a) (simp_all add: bits_value_append unat_bits power_mult)

lemma bits_value_upper: "bits_value bs < 2 ^ (length bs - length (takeWhile Not bs))"
proof (induction bs)
  case (Cons b bs)
  have "bits_value bs < 2 ^ length bs"
    by (rule less_le_trans[OF Cons.IH]) (simp add: power_increasing)
  with Cons show ?case by auto
qed simp

lemma bits_value_lower:
  "True \<in> set bs \<Longrightarrow> 2 ^ (length bs - length (takeWhile Not bs) - 1) \<le> bits_value bs"
  by (induction bs) auto

lemma common_prefix_takeWhile:
  "length xs = length ys \<Longrightarrow> common_prefix xs ys = length (takeWhile Not (map2 (\<noteq>) xs ys))"
  by (induction xs ys rule: list_induct2) auto

lemma id_bits_xor:
  "length a = length b \<Longrightarrow> id_bits (map2 (XOR) a b) = map2 (\<noteq>) (id_bits a) (id_bits b)"
proof (induction a b rule: list_induct2)
  case (Cons x a y b)
  have "byte_bits (x XOR y) = map2 (\<noteq>) (byte_bits x) (byte_bits y)"
    by (auto simp: byte_bits_def bit_xor_iff map2_map_map)
  with Cons show ?case by simp
qed simp

lemma Distance_map2: "wf_id a \<Longrightarrow> wf_id b \<Longrightarrow> Distance a b = map2 (XOR) a b"
  by (rule nth_equalityI) (auto simp: Distance_def wf_id_def)

lemma CommonPrefixLen_zeros:
  assumes "wf_id a" "wf_id t"
  shows "CommonPrefixLen a t = length (takeWhile Not (id_bits (Distance a t)))"
  using assms
  by (simp add: CommonPrefixLen_bits Distance_map2 id_bits_xor common_prefix_takeWhile wf_id_def)

lemma longer_prefix_closer:
  assumes "wf_id a" "wf_id b" "wf_id t" and "CommonPrefixLen b t < CommonPrefixLen a t"
  shows "compareDist (Distance a t) (Distance b t) < 0"
proof -
  let ?A = "id_bits (Distance a t)" and ?B = "id_bits (Distance b t)"
  have len: "length ?A = 160" "length ?B = 160" by (simp_all add: IDLength_def)
  have lt: "length (takeWhile Not ?B) < length (takeWhile Not ?A)"
    using assms by (simp add: CommonPrefixLen_zeros)
  then have tb: "True \<in> set ?B"
    using len length_takeWhile_le[of Not ?A] takeWhile_eq_all_conv[of Not ?B]
    by (metis (full_types) not_less)
  have "bits_value ?A < 2 ^ (160 - length (takeWhile Not ?A))"
    using bits_value_upper[of ?A] by (simp only: len)
  also have "\<dots> \<le> 2 ^ (160 - length (takeWhile Not ?B) - 1)"
    using lt by (intro power_increasing) auto
  also have "\<dots> \<le> bits_value ?B"
    using bits_value_lower[OF tb] by (simp only: len)
  finally show ?thesis
    by (simp add: compareDist_less_iff be_value_bits)
qed

section \<open>Derivation\<close>

lemma wf_NodeIDFromPublicKey: "wf_id (NodeIDFromPublicKey H pk)"
  by (simp add: wf_id_def NodeIDFromPublicKey_def)

lemma wf_NodeIDFromAddress: "NodeIDFromAddress H addr = Inr i \<Longrightarrow> wf_id i"
  by (auto simp: NodeIDFromAddress_def wf_id_def split: option.splits if_splits)

lemma NodeIDFromAddress_DeriveAddress:
  assumes "hash_widths H" and "base58_inverse H"
  shows "NodeIDFromAddress H (DeriveAddress H pk) = Inr (NodeIDFromPublicKey H pk)"
  using assms length_hash160[of H pk] length_checksum[of H]
  by (simp add: NodeIDFromAddress_def decode_DeriveAddress NodeIDFromPublicKey_def
      hash160_def[symmetric])

end
