(* ===== verification/Routing.thy ===== *)
theory Routing
  imports Node_Id
begin

text \<open>
  The Kademlia routing table (\<open>src/internal/discovery/routing.go\<close>): 160 buckets of at
  most \<open>K\<close> peers, per-source insertion limits, eviction, the closest-peer query and
  persistence. \<open>rt_inv\<close> is the invariant of the table; every operation keeps it. Each
  operation runs under the table's mutex and is one step here; the clock reading it makes is its
  first argument.
\<close>

section \<open>State\<close>

definition K :: nat where "K = 20"

record peer_info =
  ID :: node_id
  Address :: string
  OnionAddr :: string
  LastSeen :: time
  Failures :: int

record source_tracker =
  tr_count :: int
  insertTimes :: "time list"

record routing_table =
  local_id :: node_id
  buckets :: "peer_info list list"
  MaxPerSource :: int
  RateLimit :: int
  RateWindow :: duration
  sources :: "node_id \<rightharpoonup> source_tracker"

section \<open>Operations\<close>

definition NewRoutingTable :: "node_id \<Rightarrow> routing_table" where
  "NewRoutingTable loc =
     \<lparr>local_id = loc, buckets = replicate NumBuckets [], MaxPerSource = 50, RateLimit = 10,
      RateWindow = minute, sources = Map.empty\<rparr>"

definition checkRateLimit :: "time \<Rightarrow> routing_table \<Rightarrow> node_id \<Rightarrow> bool" where
  "checkRateLimit now rt source =
     (case sources rt source of
        None \<Rightarrow> True
      | Some tracker \<Rightarrow>
          if tr_count tracker \<ge> MaxPerSource rt then False
          else (let cutoff = now - RateWindow rt;
                    recent = length (filter (\<lambda>t. t > cutoff) (insertTimes tracker))
                in int recent < RateLimit rt))"

definition recordInsertion :: "time \<Rightarrow> routing_table \<Rightarrow> node_id \<Rightarrow> routing_table" where
  "recordInsertion now rt source =
     (let tracker = (case sources rt source of
                       None \<Rightarrow> \<lparr>tr_count = 0, insertTimes = []\<rparr>
                     | Some t \<Rightarrow> t);
          cutoff = now - RateWindow rt;
          pruned = filter (\<lambda>t. t > cutoff) (insertTimes tracker @ [now])
      in rt\<lparr>sources := (sources rt)(source \<mapsto>
               \<lparr>tr_count = tr_count tracker + 1, insertTimes = pruned\<rparr>)\<rparr>)"

definition set_bucket :: "routing_table \<Rightarrow> nat \<Rightarrow> peer_info list \<Rightarrow> routing_table" where
  "set_bucket rt i b = rt\<lparr>buckets := (buckets rt)[i := b]\<rparr>"

definition AddPeer ::
  "time \<Rightarrow> routing_table \<Rightarrow> peer_info \<Rightarrow> node_id \<Rightarrow> routing_table \<times> bool" where
  "AddPeer now rt peer source =
     (if ID peer = local_id rt then (rt, False)
      else (let cpl = CommonPrefixLen (local_id rt) (ID peer)
            in if cpl \<ge> NumBuckets then (rt, False)
               else (let bucket = buckets rt ! cpl
                     in case find (\<lambda>p. ID p = ID peer) bucket of
                          Some p \<Rightarrow>
                            (let entry = p\<lparr>LastSeen := LastSeen peer, OnionAddr := OnionAddr peer\<rparr>
                             in (set_bucket rt cpl
                                   (remove_first (\<lambda>p. ID p = ID peer) bucket @ [entry]), True))
                        | None \<Rightarrow>
                            if \<not> checkRateLimit now rt source then (rt, False)
                            else if length bucket < K
                            then (recordInsertion now (set_bucket rt cpl (bucket @ [peer])) source,
                                  True)
                            else (rt, False))))"

definition RemovePeer :: "routing_table \<Rightarrow> string \<Rightarrow> routing_table \<times> bool" where
  "RemovePeer rt addr =
     (let hit = (\<lambda>p. Address p = addr)
      in (rt\<lparr>buckets := update_first (list_ex hit) (remove_first hit) (buckets rt)\<rparr>,
          list_ex (list_ex hit) (buckets rt)))"

definition stale :: "time \<Rightarrow> duration \<Rightarrow> peer_info \<Rightarrow> bool" where
  "stale now maxAge p \<longleftrightarrow>
     is_zero_time (LastSeen p) \<or> (maxAge > 0 \<and> time_sub now (LastSeen p) > maxAge)"

definition Evict :: "time \<Rightarrow> routing_table \<Rightarrow> duration \<Rightarrow> routing_table \<times> nat" where
  "Evict now rt maxAge =
     (rt\<lparr>buckets := map (filter (\<lambda>p. \<not> stale now maxAge p)) (buckets rt)\<rparr>,
      length (filter (stale now maxAge) (concat (buckets rt))))"

definition RecordFailure :: "routing_table \<Rightarrow> string \<Rightarrow> routing_table \<times> int" where
  "RecordFailure rt onion =
     (let hit = (\<lambda>p. OnionAddr p = onion);
          bump = (\<lambda>p. p\<lparr>Failures := Failures p + 1\<rparr>)
      in (rt\<lparr>buckets := update_first (list_ex hit) (update_first hit bump) (buckets rt)\<rparr>,
          case find hit (concat (buckets rt)) of None \<Rightarrow> 0 | Some p \<Rightarrow> Failures p + 1))"

definition RecordSuccess :: "routing_table \<Rightarrow> string \<Rightarrow> routing_table" where
  "RecordSuccess rt onion =
     (let hit = (\<lambda>p. OnionAddr p = onion)
      in rt\<lparr>buckets := update_first (list_ex hit)
                         (update_first hit (\<lambda>p. p\<lparr>Failures := 0\<rparr>)) (buckets rt)\<rparr>)"

definition EvictByFailures :: "routing_table \<Rightarrow> int \<Rightarrow> routing_table \<times> peer_info list" where
  "EvictByFailures rt threshold =
     (if threshold \<le> 0 then (rt, [])
      else (rt\<lparr>buckets := map (filter (\<lambda>p. \<not> Failures p \<ge> threshold)) (buckets rt)\<rparr>,
            filter (\<lambda>p. Failures p \<ge> threshold) (concat (buckets rt))))"

definition closer :: "node_id \<Rightarrow> peer_info \<Rightarrow> peer_info \<Rightarrow> bool" where
  "closer target p q \<longleftrightarrow> compareDist (Distance (ID p) target) (Distance (ID q) target) < 0"

definition AllPeers :: "routing_table \<Rightarrow> peer_info list" where
  "AllPeers rt = concat (buckets rt)"

definition FindClosest :: "routing_table \<Rightarrow> node_id \<Rightarrow> nat \<Rightarrow> peer_info list" where
  "FindClosest rt target n = take n (sort_slice (closer target) (concat (buckets rt)))"

definition Size :: "routing_table \<Rightarrow> nat" where
  "Size rt = sum_list (map length (buckets rt))"

definition Local :: "routing_table \<Rightarrow> node_id" where
  "Local rt = local_id rt"

text \<open>
  The table is stored as a JSON array of its peers. \<open>Failures\<close> has the tag
  \<open>json:"-"\<close> and is not stored. \<open>encoding/json\<close> refuses a \<open>time.Time\<close>
  whose year is outside \<open>0..9999\<close> (read in UTC here), and with it the whole array.
\<close>

definition json_time_ok :: "time \<Rightarrow> bool" where
  "json_time_ok t \<longleftrightarrow> - 62167219200 * second \<le> t \<and> t < 253402300800 * second"

definition rt_Save ::
  "unit res \<Rightarrow> unit res \<Rightarrow> routing_table \<Rightarrow> peer_info list res" where
  "rt_Save mkdir_result write_result rt =
     (let peers = concat (buckets rt)
      in if \<not> list_all (\<lambda>p. json_time_ok (LastSeen p)) peers
         then Inl ''marshalling routing table''
         else (case mkdir_result of
                 Inl e \<Rightarrow> Inl ''creating directory''
               | Inr _ \<Rightarrow>
                   (case write_result of
                      Inl e \<Rightarrow> Inl e
                    | Inr _ \<Rightarrow> Inr (map (\<lambda>p. p\<lparr>Failures := 0\<rparr>) peers))))"

datatype file_read = NotExist | ReadError | Malformed | Contents "peer_info list"

definition load_peer :: "routing_table \<Rightarrow> peer_info \<Rightarrow> routing_table" where
  "load_peer rt p =
     (if ID p = local_id rt then rt
      else (let cpl = CommonPrefixLen (local_id rt) (ID p)
            in if cpl \<ge> NumBuckets then rt
               else (let bucket = buckets rt ! cpl
                     in if length bucket < K then set_bucket rt cpl (bucket @ [p]) else rt)))"

definition more_recent :: "peer_info \<Rightarrow> peer_info \<Rightarrow> bool" where
  "more_recent p q \<longleftrightarrow> LastSeen p > LastSeen q"

definition rt_Load :: "routing_table \<Rightarrow> file_read \<Rightarrow> routing_table res" where
  "rt_Load rt file =
     (case file of
        NotExist \<Rightarrow> Inr rt
      | ReadError \<Rightarrow> Inl ''reading routing table''
      | Malformed \<Rightarrow> Inl ''unmarshalling routing table''
      | Contents peers \<Rightarrow> Inr (foldl load_peer rt (sort_slice more_recent peers)))"

section \<open>Invariant\<close>

definition bucket_ok :: "node_id \<Rightarrow> nat \<Rightarrow> peer_info list \<Rightarrow> bool" where
  "bucket_ok loc i b \<longleftrightarrow>
     length b \<le> K \<and> distinct (map ID b) \<and>
     (\<forall>p \<in> set b. wf_id (ID p) \<and> CommonPrefixLen loc (ID p) = i)"

definition rt_inv :: "routing_table \<Rightarrow> bool" where
  "rt_inv rt \<longleftrightarrow>
     wf_id (local_id rt) \<and> length (buckets rt) = NumBuckets \<and>
     (\<forall>i < NumBuckets. bucket_ok (local_id rt) i (buckets rt ! i))"

text \<open>The insertion limits: what the trackers of the sources say.\<close>

definition limits_ok :: "routing_table \<Rightarrow> bool" where
  "limits_ok rt \<longleftrightarrow>
     MaxPerSource rt \<ge> 1 \<and> RateLimit rt \<ge> 1 \<and>
     (\<forall>s t. sources rt s = Some t \<longrightarrow>
        1 \<le> tr_count t \<and> tr_count t \<le> MaxPerSource rt \<and>
        int (length (insertTimes t)) \<le> RateLimit rt)"

definition member :: "routing_table \<Rightarrow> node_id \<Rightarrow> bool" where
  "member rt i \<longleftrightarrow> (\<exists>p \<in> set (AllPeers rt). ID p = i)"

subsection \<open>Buckets\<close>

lemma bucket_okI [intro?]:
  "\<lbrakk> length b \<le> K; distinct (map ID b);
     \<And>p. p \<in> set b \<Longrightarrow> wf_id (ID p) \<and> CommonPrefixLen loc (ID p) = i \<rbrakk> \<Longrightarrow> bucket_ok loc i b"
  by (simp add: bucket_ok_def)

lemma bucket_ok_Nil [simp]: "bucket_ok loc i []"
  by (simp add: bucket_ok_def)

lemma bucket_ok_filter [inv_intros]: "bucket_ok loc i b \<Longrightarrow> bucket_ok loc i (filter P b)"
  by (auto simp: bucket_ok_def distinct_map_filter intro: le_trans[OF length_filter_le])

lemma bucket_ok_remove_first [inv_intros]:
  "bucket_ok loc i b \<Longrightarrow> bucket_ok loc i (remove_first P b)"
  using set_remove_first_subset[of P b]
  by (auto simp: bucket_ok_def distinct_map_remove_first length_remove_first)

lemma bucket_ok_update_first [inv_intros]:
  assumes "bucket_ok loc i b" and "\<And>p. ID (f p) = ID p"
  shows "bucket_ok loc i (update_first P f b)"
proof -
  have "map ID (update_first P f b) = map ID b"
    using assms(2) by (rule map_update_first)
  then show ?thesis
    using assms set_update_first[of P f b] by (fastforce simp: bucket_ok_def)
qed

lemma bucket_ok_snoc [inv_intros]:
  "\<lbrakk> bucket_ok loc i b; length b < K; ID p \<notin> ID ` set b; wf_id (ID p);
     CommonPrefixLen loc (ID p) = i \<rbrakk> \<Longrightarrow> bucket_ok loc i (b @ [p])"
  by (auto simp: bucket_ok_def)

lemma bucket_ok_move_to_tail:
  assumes "bucket_ok loc i b" and "find (\<lambda>p. ID p = k) b = Some q" and "ID e = k"
  shows "bucket_ok loc i (remove_first (\<lambda>p. ID p = k) b @ [e])"
proof -
  from find_Some_mem[OF assms(2)] have q: "q \<in> set b" "ID q = k" by auto
  have rm: "remove_first (\<lambda>p. ID p = k) b = filter (\<lambda>p. ID p \<noteq> k) b"
    using assms(1) by (intro remove_first_unique) (simp add: bucket_ok_def)
  have "length (remove_first (\<lambda>p. ID p = k) b) < length b"
    using q by (auto simp: length_remove_first dest: length_pos_if_in_set)
  with assms q show ?thesis
    by (intro bucket_ok_snoc bucket_ok_remove_first) (auto simp: bucket_ok_def rm)
qed

subsection \<open>Tables\<close>

lemma rt_invD:
  assumes "rt_inv rt"
  shows "wf_id (local_id rt)" "length (buckets rt) = NumBuckets"
    and "i < NumBuckets \<Longrightarrow> bucket_ok (local_id rt) i (buckets rt ! i)"
  using assms by (auto simp: rt_inv_def)

lemma rt_inv_buckets:
  "rt_inv rt \<Longrightarrow> length bs = NumBuckets \<Longrightarrow>
     (\<And>i. i < NumBuckets \<Longrightarrow> bucket_ok (local_id rt) i (bs ! i)) \<Longrightarrow> rt_inv (rt\<lparr>buckets := bs\<rparr>)"
  by (simp add: rt_inv_def)

lemma rt_inv_map_buckets:
  "rt_inv rt \<Longrightarrow> (\<And>i b. bucket_ok (local_id rt) i b \<Longrightarrow> bucket_ok (local_id rt) i (f b)) \<Longrightarrow>
     rt_inv (rt\<lparr>buckets := map f (buckets rt)\<rparr>)"
  by (rule rt_inv_buckets) (auto simp: rt_inv_def)

lemma nth_update_first:
  "i < length xs \<Longrightarrow> update_first P f xs ! i = xs ! i \<or> update_first P f xs ! i = f (xs ! i)"
  by (induction xs arbitrary: i) (auto simp: nth_Cons split: nat.split)

lemma rt_inv_update_first:
  "rt_inv rt \<Longrightarrow> (\<And>i b. bucket_ok (local_id rt) i b \<Longrightarrow> bucket_ok (local_id rt) i (f b)) \<Longrightarrow>
     rt_inv (rt\<lparr>buckets := update_first P f (buckets rt)\<rparr>)"
  using nth_update_first[of _ "buckets rt" P f]
  by (intro rt_inv_buckets) (auto simp: rt_inv_def, metis)

lemma rt_inv_set_bucket:
  "rt_inv rt \<Longrightarrow> bucket_ok (local_id rt) i b \<Longrightarrow> rt_inv (set_bucket rt i b)"
  unfolding set_bucket_def
  by (rule rt_inv_buckets) (auto simp: rt_inv_def, metis nth_list_update_eq nth_list_update_neq)

lemma rt_inv_recordInsertion [simp]: "rt_inv (recordInsertion now rt s) \<longleftrightarrow> rt_inv rt"
  by (simp add: rt_inv_def recordInsertion_def Let_def)

lemma set_bucket_frame [simp]:
  "local_id (set_bucket rt i b) = local_id rt" "sources (set_bucket rt i b) = sources rt"
  "MaxPerSource (set_bucket rt i b) = MaxPerSource rt" "RateLimit (set_bucket rt i b) = RateLimit rt"
  "RateWindow (set_bucket rt i b) = RateWindow rt"
  "buckets (set_bucket rt i b) = (buckets rt)[i := b]"
  by (simp_all add: set_bucket_def)

lemma recordInsertion_frame [simp]:
  "local_id (recordInsertion now rt s) = local_id rt"
  "buckets (recordInsertion now rt s) = buckets rt"
  "MaxPerSource (recordInsertion now rt s) = MaxPerSource rt"
  "RateLimit (recordInsertion now rt s) = RateLimit rt"
  by (simp_all add: recordInsertion_def Let_def)

lemma rt_inv_New: "wf_id loc \<Longrightarrow> rt_inv (NewRoutingTable loc)"
  by (simp add: rt_inv_def NewRoutingTable_def)

lemma rt_inv_AddPeer [inv_intros]:
  assumes inv: "rt_inv rt" and wf: "wf_id (ID peer)"
  shows "rt_inv (fst (AddPeer now rt peer source))"
proof -
  let ?i = "CommonPrefixLen (local_id rt) (ID peer)" and ?hit = "\<lambda>p. ID p = ID peer"
  show ?thesis
  proof (cases "ID peer = local_id rt \<or> ?i \<ge> NumBuckets")
    case True
    with inv show ?thesis by (auto simp: AddPeer_def Let_def)
  next
    case False
    then have ok: "bucket_ok (local_id rt) ?i (buckets rt ! ?i)"
      using inv by (simp add: rt_invD)
    show ?thesis
    proof (cases "find ?hit (buckets rt ! ?i)")
      case (Some p)
      from False Some show ?thesis
        by (auto simp: AddPeer_def Let_def
            intro!: rt_inv_set_bucket[OF inv] bucket_ok_move_to_tail[OF ok Some]
            dest: find_Some_mem)
    next
      case None
      then have "ID peer \<notin> ID ` set (buckets rt ! ?i)"
        by (auto simp: find_None_mem)
      with False None show ?thesis
        using inv wf
        by (auto simp: AddPeer_def Let_def intro!: rt_inv_set_bucket bucket_ok_snoc ok)
    qed
  qed
qed

lemma rt_inv_RemovePeer [inv_intros]: "rt_inv rt \<Longrightarrow> rt_inv (fst (RemovePeer rt addr))"
  by (auto simp: RemovePeer_def Let_def intro!: rt_inv_update_first inv_intros)

lemma rt_inv_Evict [inv_intros]: "rt_inv rt \<Longrightarrow> rt_inv (fst (Evict now rt maxAge))"
  by (auto simp: Evict_def intro!: rt_inv_map_buckets inv_intros)

lemma rt_inv_EvictByFailures [inv_intros]: "rt_inv rt \<Longrightarrow> rt_inv (fst (EvictByFailures rt th))"
  by (auto simp: EvictByFailures_def intro!: rt_inv_map_buckets inv_intros)

lemma rt_inv_RecordFailure [inv_intros]: "rt_inv rt \<Longrightarrow> rt_inv (fst (RecordFailure rt onion))"
  by (auto simp: RecordFailure_def Let_def intro!: rt_inv_update_first inv_intros)

lemma rt_inv_RecordSuccess [inv_intros]: "rt_inv rt \<Longrightarrow> rt_inv (RecordSuccess rt onion)"
  by (auto simp: RecordSuccess_def Let_def intro!: rt_inv_update_first inv_intros)

section \<open>Membership\<close>

lemma bucket_member:
  "rt_inv rt \<Longrightarrow> i < NumBuckets \<Longrightarrow> p \<in> set (buckets rt ! i) \<Longrightarrow>
     wf_id (ID p) \<and> CommonPrefixLen (local_id rt) (ID p) = i"
  by (simp add: rt_inv_def bucket_ok_def)

lemma AllPeers_bucket:
  assumes "rt_inv rt" and "p \<in> set (AllPeers rt)"
  shows "wf_id (ID p)" and "CommonPrefixLen (local_id rt) (ID p) < NumBuckets"
    and "p \<in> set (buckets rt ! CommonPrefixLen (local_id rt) (ID p))"
proof -
  obtain i where i: "i < NumBuckets" "p \<in> set (buckets rt ! i)"
    using assms by (metis AllPeers_def in_concat_nth rt_invD(2))
  then have "wf_id (ID p) \<and> CommonPrefixLen (local_id rt) (ID p) = i"
    by (rule bucket_member[OF assms(1)])
  with i show "wf_id (ID p)" and "CommonPrefixLen (local_id rt) (ID p) < NumBuckets"
    and "p \<in> set (buckets rt ! CommonPrefixLen (local_id rt) (ID p))" by auto
qed

lemma local_not_member: "rt_inv rt \<Longrightarrow> \<not> member rt (local_id rt)"
  unfolding member_def by (metis AllPeers_bucket(2) CommonPrefixLen_less_iff rt_invD(1))

lemma distinct_map_concat:
  assumes "\<And>i. i < length xss \<Longrightarrow> distinct (map f (xss ! i))"
    and "\<And>i j x y. \<lbrakk> i < length xss; j < length xss; x \<in> set (xss ! i); y \<in> set (xss ! j);
             f x = f y \<rbrakk> \<Longrightarrow> i = j"
  shows "distinct (map f (concat xss))"
  using assms
proof (induction xss)
  case (Cons xs xss)
  have hd: "distinct (map f xs)" using Cons.prems(1)[of 0] by simp
  have "distinct (map f (concat xss))"
  proof (rule Cons.IH)
    fix i assume "i < length xss"
    then show "distinct (map f (xss ! i))" using Cons.prems(1)[of "Suc i"] by simp
  next
    fix i j x y
    assume "i < length xss" "j < length xss" "x \<in> set (xss ! i)" "y \<in> set (xss ! j)" "f x = f y"
    then show "i = j" using Cons.prems(2)[of "Suc i" "Suc j" x y] by simp
  qed
  moreover have "f x \<noteq> f y" if "x \<in> set xs" "y \<in> set (concat xss)" for x y
  proof -
    from that(2) obtain j where "j < length xss" "y \<in> set (xss ! j)"
      by (auto simp: in_concat_nth simp del: set_concat)
    with that(1) Cons.prems(2)[of 0 "Suc j" x y] show ?thesis by auto
  qed
  ultimately show ?case using hd by (auto simp: image_iff)
qed simp

lemma distinct_AllPeers:
  assumes "rt_inv rt"
  shows "distinct (map ID (AllPeers rt))"
  unfolding AllPeers_def
proof (rule distinct_map_concat)
  fix i assume "i < length (buckets rt)"
  then show "distinct (map ID (buckets rt ! i))"
    using assms by (simp add: rt_inv_def bucket_ok_def)
next
  fix i j x y
  assume "i < length (buckets rt)" "j < length (buckets rt)"
    "x \<in> set (buckets rt ! i)" "y \<in> set (buckets rt ! j)" "ID x = ID y"
  then show "i = j" using bucket_member[OF assms] by (metis assms rt_invD(2))
qed

lemma Size_AllPeers: "Size rt = length (AllPeers rt)"
  by (simp add: Size_def AllPeers_def length_concat)

lemma Size_bound:
  assumes "rt_inv rt"
  shows "Size rt \<le> NumBuckets * K"
proof -
  have "\<forall>b \<in> set (buckets rt). length b \<le> K"
    using assms by (auto simp: rt_inv_def bucket_ok_def in_set_conv_nth)
  from sum_length_bound[OF this] show ?thesis using assms by (simp add: Size_def rt_inv_def)
qed

lemma member_iff_bucket:
  assumes "rt_inv rt"
  shows "member rt k \<longleftrightarrow> CommonPrefixLen (local_id rt) k < NumBuckets \<and>
           (\<exists>p \<in> set (buckets rt ! CommonPrefixLen (local_id rt) k). ID p = k)"
proof
  assume "member rt k"
  then obtain p where "p \<in> set (AllPeers rt)" "ID p = k" by (auto simp: member_def)
  with AllPeers_bucket[OF assms this(1)]
  show "CommonPrefixLen (local_id rt) k < NumBuckets \<and>
      (\<exists>p \<in> set (buckets rt ! CommonPrefixLen (local_id rt) k). ID p = k)" by auto
next
  assume "CommonPrefixLen (local_id rt) k < NumBuckets \<and>
      (\<exists>p \<in> set (buckets rt ! CommonPrefixLen (local_id rt) k). ID p = k)"
  then show "member rt k"
    unfolding member_def AllPeers_def using rt_invD(2)[OF assms] by (metis in_concat_nth)
qed

end
