(* ===== verification/Routing_Props.thy ===== *)
theory Routing_Props
  imports Routing
begin

text \<open>
  What the routing table promises its clients. \<open>view\<close> abstracts the buckets to a finite
  map from node identifiers to peers; \<open>AddPeer\<close> refines an update of that map. The
  closest-peer query is characterised independently of the sorting algorithm, the insertion
  limits are bounded over whole runs, and persistence round-trips. The locale
  \<open>peer_table\<close> is the interface the DHT layer is verified against.
\<close>

section \<open>The table as a map\<close>

definition view :: "routing_table \<Rightarrow> node_id \<Rightarrow> peer_info option" where
  "view rt k = find (\<lambda>p. ID p = k) (AllPeers rt)"

lemma find_eq_Some_iff:
  "distinct (map f xs) \<Longrightarrow> find (\<lambda>x. f x = k) xs = Some x \<longleftrightarrow> x \<in> set xs \<and> f x = k"
  by (induction xs) (auto simp: image_iff)

lemma find_snoc:
  "find P (xs @ [x]) =
     (case find P xs of Some y \<Rightarrow> Some y | None \<Rightarrow> if P x then Some x else None)"
  by (induction xs) auto

lemma find_filter_neq:
  "find (\<lambda>x. f x = k) (filter (\<lambda>x. f x \<noteq> k0) xs) =
     (if k = k0 then None else find (\<lambda>x. f x = k) xs)"
  by (induction xs) auto

lemma view_Some_iff: "rt_inv rt \<Longrightarrow> view rt k = Some p \<longleftrightarrow> p \<in> set (AllPeers rt) \<and> ID p = k"
  unfolding view_def by (rule find_eq_Some_iff) (rule distinct_AllPeers)

lemma view_None_iff: "view rt k = None \<longleftrightarrow> \<not> member rt k"
  by (auto simp: view_def member_def find_None_mem)

lemma view_bucket:
  assumes "rt_inv rt"
  shows "view rt k =
     (if CommonPrefixLen (local_id rt) k < NumBuckets
      then find (\<lambda>p. ID p = k) (buckets rt ! CommonPrefixLen (local_id rt) k) else None)"
proof (cases "member rt k")
  case True
  let ?i = "CommonPrefixLen (local_id rt) k"
  from True member_iff_bucket[OF assms] obtain p where
    i: "?i < NumBuckets" and p: "p \<in> set (buckets rt ! ?i)" "ID p = k" by auto
  have "view rt k = Some p"
    using assms i p rt_invD(2)[OF assms]
    by (simp add: view_Some_iff AllPeers_def in_concat_nth del: set_concat) blast
  moreover have "find (\<lambda>p. ID p = k) (buckets rt ! ?i) = Some p"
    using rt_invD(3)[OF assms i] p by (simp add: find_eq_Some_iff bucket_ok_def)
  ultimately show ?thesis using i by simp
next
  case False
  then have "view rt k = None" by (simp add: view_None_iff)
  with False show ?thesis
    using member_iff_bucket[OF assms, of k] by (auto simp: eq_commute[of None] find_None_mem)
qed

lemma view_set_bucket:
  assumes "rt_inv rt" and "rt_inv (set_bucket rt i b)" and "i < NumBuckets"
  shows "view (set_bucket rt i b) k =
     (if CommonPrefixLen (local_id rt) k = i then find (\<lambda>p. ID p = k) b else view rt k)"
  using assms rt_invD(2)[OF assms(1)] by (auto simp: view_bucket)

lemma view_recordInsertion [simp]: "view (recordInsertion now rt s) = view rt"
  by (simp add: view_def AllPeers_def fun_eq_iff)

text \<open>The effect of \<open>AddPeer\<close> on the map, and when it accepts.\<close>

definition merge_peer :: "peer_info option \<Rightarrow> peer_info \<Rightarrow> peer_info" where
  "merge_peer old peer =
     (case old of
        Some p \<Rightarrow> p\<lparr>LastSeen := LastSeen peer, OnionAddr := OnionAddr peer\<rparr>
      | None \<Rightarrow> peer)"

lemma AddPeer_known:
  assumes inv: "rt_inv rt" and ne: "ID peer \<noteq> local_id rt"
    and i: "CommonPrefixLen (local_id rt) (ID peer) < NumBuckets"
    and hit: "find (\<lambda>p. ID p = ID peer) (buckets rt ! CommonPrefixLen (local_id rt) (ID peer)) = Some q"
    and wf: "wf_id (ID peer)"
  shows "snd (AddPeer now rt peer source)"
    and "view (fst (AddPeer now rt peer source)) k =
           (if k = ID peer then Some (merge_peer (Some q) peer) else view rt k)"
proof -
  let ?i = "CommonPrefixLen (local_id rt) (ID peer)" and ?b = "buckets rt ! CommonPrefixLen (local_id rt) (ID peer)"
  let ?b' = "remove_first (\<lambda>p. ID p = ID peer) ?b @ [merge_peer (Some q) peer]"
  have add: "AddPeer now rt peer source = (set_bucket rt ?i ?b', True)"
    using ne i hit by (simp add: AddPeer_def merge_peer_def Let_def)
  then show "snd (AddPeer now rt peer source)" by simp
  have inv': "rt_inv (set_bucket rt ?i ?b')"
    using rt_inv_AddPeer[OF inv wf, of now source] add by simp
  have q: "ID q = ID peer" using find_Some_mem[OF hit] by simp
  have rm: "remove_first (\<lambda>p. ID p = ID peer) ?b = filter (\<lambda>p. ID p \<noteq> ID peer) ?b"
    using rt_invD(3)[OF inv i] by (intro remove_first_unique) (simp add: bucket_ok_def)
  have "find (\<lambda>p. ID p = k) ?b' =
      (if k = ID peer then Some (merge_peer (Some q) peer) else find (\<lambda>p. ID p = k) ?b)"
    using q by (simp add: rm find_snoc find_filter_neq merge_peer_def split: option.split)
  then show "view (fst (AddPeer now rt peer source)) k =
      (if k = ID peer then Some (merge_peer (Some q) peer) else view rt k)"
    using i by (auto simp: add view_set_bucket[OF inv inv' i] view_bucket[OF inv])
qed

lemma AddPeer_new:
  assumes inv: "rt_inv rt" and ne: "ID peer \<noteq> local_id rt"
    and i: "CommonPrefixLen (local_id rt) (ID peer) < NumBuckets"
    and miss: "find (\<lambda>p. ID p = ID peer) (buckets rt ! CommonPrefixLen (local_id rt) (ID peer)) = None"
    and wf: "wf_id (ID peer)"
  shows "snd (AddPeer now rt peer source) \<longleftrightarrow> checkRateLimit now rt source \<and>
           length (buckets rt ! CommonPrefixLen (local_id rt) (ID peer)) < K"
    and "snd (AddPeer now rt peer source) \<Longrightarrow>
           fst (AddPeer now rt peer source) =
             recordInsertion now (set_bucket rt (CommonPrefixLen (local_id rt) (ID peer))
               (buckets rt ! CommonPrefixLen (local_id rt) (ID peer) @ [peer])) source"
    and "snd (AddPeer now rt peer source) \<Longrightarrow>
           view (fst (AddPeer now rt peer source)) k = (if k = ID peer then Some peer else view rt k)"
proof -
  let ?i = "CommonPrefixLen (local_id rt) (ID peer)" and ?b = "buckets rt ! CommonPrefixLen (local_id rt) (ID peer)"
  show ok: "snd (AddPeer now rt peer source) \<longleftrightarrow> checkRateLimit now rt source \<and> length ?b < K"
    using ne i miss by (auto simp: AddPeer_def Let_def)
  assume acc: "snd (AddPeer now rt peer source)"
  with ok ne i miss show add: "fst (AddPeer now rt peer source) =
      recordInsertion now (set_bucket rt ?i (?b @ [peer])) source"
    by (simp add: AddPeer_def Let_def)
  have inv': "rt_inv (set_bucket rt ?i (?b @ [peer]))"
    using rt_inv_AddPeer[OF inv wf, of now source] by (simp add: add)
  have "find (\<lambda>p. ID p = k) (?b @ [peer]) =
      (if k = ID peer then Some peer else find (\<lambda>p. ID p = k) ?b)"
    using miss by (auto simp: find_snoc split: option.split)
  then show "view (fst (AddPeer now rt peer source)) k = (if k = ID peer then Some peer else view rt k)"
    using i by (auto simp: add view_set_bucket[OF inv inv' i] view_bucket[OF inv])
qed

lemma AddPeer_rejected: "\<not> snd (AddPeer now rt peer source) \<Longrightarrow> fst (AddPeer now rt peer source) = rt"
  by (auto simp: AddPeer_def Let_def split: option.splits if_splits)

lemma AddPeer_local: "local_id (fst (AddPeer now rt peer source)) = local_id rt"
  by (auto simp: AddPeer_def Let_def split: option.splits)

section \<open>Runs of table operations\<close>

datatype rt_op =
    OpAdd peer_info node_id
  | OpRemove string
  | OpEvict duration
  | OpFailure string
  | OpSuccess string
  | OpEvictFailures int

fun rt_apply :: "time \<Rightarrow> rt_op \<Rightarrow> routing_table \<Rightarrow> routing_table" where
  "rt_apply now (OpAdd p s) rt = fst (AddPeer now rt p s)"
| "rt_apply now (OpRemove a) rt = fst (RemovePeer rt a)"
| "rt_apply now (OpEvict d) rt = fst (Evict now rt d)"
| "rt_apply now (OpFailure o') rt = fst (RecordFailure rt o')"
| "rt_apply now (OpSuccess o') rt = RecordSuccess rt o'"
| "rt_apply now (OpEvictFailures n) rt = fst (EvictByFailures rt n)"

fun op_wf :: "rt_op \<Rightarrow> bool" where
  "op_wf (OpAdd p s) = wf_id (ID p)"
| "op_wf _ = True"

inductive rt_reach :: "node_id \<Rightarrow> routing_table \<Rightarrow> bool" for loc where
  rt_start: "rt_reach loc (NewRoutingTable loc)"
| rt_op: "rt_reach loc rt \<Longrightarrow> op_wf c \<Longrightarrow> rt_reach loc (rt_apply now c rt)"

lemma rt_inv_apply [inv_intros]: "rt_inv rt \<Longrightarrow> op_wf c \<Longrightarrow> rt_inv (rt_apply now c rt)"
  by (cases c) (auto intro: inv_intros)

lemma local_apply [simp]: "local_id (rt_apply now c rt) = local_id rt"
  by (cases c)
    (simp_all add: AddPeer_local RemovePeer_def Evict_def RecordFailure_def RecordSuccess_def
      EvictByFailures_def Let_def)

lemma rt_reach_inv: "rt_reach loc rt \<Longrightarrow> wf_id loc \<Longrightarrow> rt_inv rt \<and> local_id rt = loc"
proof (induction rule: rt_reach.induct)
  case rt_start
  then show ?case by (simp add: rt_inv_New) (simp add: NewRoutingTable_def)
next
  case (rt_op rt c now)
  then show ?case by (simp add: rt_inv_apply)
qed

section \<open>Insertion limits\<close>

lemma sources_apply_other:
  "\<forall>p s. c \<noteq> OpAdd p s \<Longrightarrow> sources (rt_apply now c rt) = sources rt"
  by (cases c)
    (simp_all add: RemovePeer_def Evict_def RecordFailure_def RecordSuccess_def
      EvictByFailures_def Let_def)

lemma params_apply [simp]:
  "MaxPerSource (rt_apply now c rt) = MaxPerSource rt"
  "RateLimit (rt_apply now c rt) = RateLimit rt"
  "RateWindow (rt_apply now c rt) = RateWindow rt"
  by (cases c; simp add: RemovePeer_def Evict_def RecordFailure_def RecordSuccess_def
      EvictByFailures_def AddPeer_def recordInsertion_def Let_def split: option.splits)+

text \<open>
  An operation inserts for source \<open>s\<close> when it is an \<open>AddPeer\<close> with that source
  which is accepted and whose peer is not in the table yet.
\<close>

fun inserts_for :: "node_id \<Rightarrow> time \<Rightarrow> rt_op \<Rightarrow> routing_table \<Rightarrow> bool" where
  "inserts_for s now (OpAdd p src) rt \<longleftrightarrow>
     src = s \<and> \<not> member rt (ID p) \<and> snd (AddPeer now rt p src)"
| "inserts_for s now _ rt \<longleftrightarrow> False"

fun run_ops :: "node_id \<Rightarrow> (time \<times> rt_op) list \<Rightarrow> routing_table \<Rightarrow> time list \<Rightarrow> routing_table \<times> time list" where
  "run_ops s [] rt hist = (rt, hist)"
| "run_ops s ((now, c) # cs) rt hist =
     run_ops s cs (rt_apply now c rt) (if inserts_for s now c rt then hist @ [now] else hist)"

definition window :: "duration \<Rightarrow> time \<Rightarrow> time list \<Rightarrow> nat" where
  "window W T hist = length (filter (\<lambda>t. T - W < t \<and> t \<le> T) hist)"

text \<open>How the tracker of \<open>s\<close> summarises the history of its insertions.\<close>

definition tracks :: "node_id \<Rightarrow> routing_table \<Rightarrow> time list \<Rightarrow> bool" where
  "tracks s rt hist \<longleftrightarrow>
     (case sources rt s of
        None \<Rightarrow> hist = []
      | Some t \<Rightarrow> hist \<noteq> [] \<and> tr_count t = int (length hist) \<and>
                  insertTimes t = filter (\<lambda>u. u > last hist - RateWindow rt) hist)"

definition limited :: "routing_table \<Rightarrow> time list \<Rightarrow> bool" where
  "limited rt hist \<longleftrightarrow>
     int (length hist) \<le> MaxPerSource rt \<and>
     (\<forall>T. int (window (RateWindow rt) T hist) \<le> RateLimit rt)"

definition hist_ok :: "node_id \<Rightarrow> time \<Rightarrow> routing_table \<Rightarrow> time list \<Rightarrow> bool" where
  "hist_ok s clock rt hist \<longleftrightarrow>
     rt_inv rt \<and> 1 \<le> MaxPerSource rt \<and> 1 \<le> RateLimit rt \<and> 0 < RateWindow rt \<and>
     (\<forall>t \<in> set hist. t \<le> clock) \<and> tracks s rt hist \<and> limited rt hist"

lemma AddPeer_sources:
  assumes "rt_inv rt" and "wf_id (ID p)"
  shows "sources (fst (AddPeer now rt p src)) =
     (if \<not> member rt (ID p) \<and> snd (AddPeer now rt p src)
      then sources (recordInsertion now rt src) else sources rt)"
proof -
  let ?i = "CommonPrefixLen (local_id rt) (ID p)"
  have mem: "member rt (ID p) \<longleftrightarrow>
      ?i < NumBuckets \<and> find (\<lambda>q. ID q = ID p) (buckets rt ! ?i) \<noteq> None"
    using member_iff_bucket[OF assms(1), of "ID p"] by (auto simp: find_None_mem)
  show ?thesis
    using mem
    by (auto simp: AddPeer_def Let_def recordInsertion_def split: option.splits if_splits)
qed

lemma window_mono_filter:
  assumes "now \<le> T"
  shows "window W T hist \<le> length (filter (\<lambda>t. t > now - W) hist)"
proof -
  have "filter (\<lambda>t. T - W < t \<and> t \<le> T) hist =
      filter (\<lambda>t. T - W < t \<and> t \<le> T) (filter (\<lambda>t. t > now - W) hist)"
    using assms by (auto intro: filter_cong)
  then show ?thesis unfolding window_def by (metis length_filter_le)
qed

lemma limited_snoc:
  assumes "limited rt hist" and "\<forall>t \<in> set hist. t \<le> now"
    and "int (length hist) < MaxPerSource rt"
    and "int (length (filter (\<lambda>t. t > now - RateWindow rt) hist)) < RateLimit rt"
  shows "limited rt (hist @ [now])"
proof -
  have "int (window (RateWindow rt) T (hist @ [now])) \<le> RateLimit rt" for T
  proof (cases "now \<le> T")
    case True
    from window_mono_filter[OF True, of "RateWindow rt" "hist @ [now]"] assms(4) show ?thesis
      by (auto split: if_splits)
  next
    case False
    then have "window (RateWindow rt) T (hist @ [now]) = window (RateWindow rt) T hist"
      by (simp add: window_def)
    with assms(1) show ?thesis by (simp add: limited_def)
  qed
  with assms(3) show ?thesis by (simp add: limited_def)
qed

lemma filter_recent:
  assumes "last hist \<le> now"
  shows "filter (\<lambda>u. u > now - W) (filter (\<lambda>u. u > last hist - W) hist) =
         filter (\<lambda>u. u > now - (W::int)) hist"
  using assms by (auto intro: filter_cong)

lemma recordInsertion_tracks:
  assumes "tracks s rt hist" and "\<forall>t \<in> set hist. t \<le> now" and "0 < RateWindow rt"
  shows "tracks s (recordInsertion now rt s) (hist @ [now])"
proof (cases "sources rt s")
  case None
  with assms show ?thesis by (simp add: tracks_def recordInsertion_def Let_def)
next
  case (Some t)
  with assms have "hist \<noteq> []" "last hist \<le> now" by (auto simp: tracks_def)
  with Some assms filter_recent[of hist now "RateWindow rt"] show ?thesis
    by (simp add: tracks_def recordInsertion_def Let_def)
qed

lemma checkRateLimit_hist:
  assumes "tracks s rt hist" and "checkRateLimit now rt s" and "\<forall>t \<in> set hist. t \<le> now"
    and "1 \<le> MaxPerSource rt" and "1 \<le> RateLimit rt"
  shows "int (length hist) < MaxPerSource rt"
    and "int (length (filter (\<lambda>t. t > now - RateWindow rt) hist)) < RateLimit rt"
proof -
  have *: "int (length hist) < MaxPerSource rt \<and>
      int (length (filter (\<lambda>t. t > now - RateWindow rt) hist)) < RateLimit rt"
  proof (cases "sources rt s")
    case None
    with assms show ?thesis by (simp add: tracks_def)
  next
    case (Some t)
    with assms have "hist \<noteq> []" "last hist \<le> now" by (auto simp: tracks_def)
    with Some assms filter_recent[of hist now "RateWindow rt"] show ?thesis
      by (auto simp: tracks_def checkRateLimit_def Let_def split: if_splits)
  qed
  then show "int (length hist) < MaxPerSource rt"
    and "int (length (filter (\<lambda>t. t > now - RateWindow rt) hist)) < RateLimit rt" by auto
qed

lemma inserts_for_checked:
  assumes "rt_inv rt" and "inserts_for s now c rt"
  shows "checkRateLimit now rt s"
proof -
  obtain p where c: "c = OpAdd p s" "\<not> member rt (ID p)" "snd (AddPeer now rt p s)"
    using assms(2) by (cases c) auto
  then show ?thesis
    using member_iff_bucket[OF assms(1), of "ID p"]
    by (auto simp: AddPeer_def Let_def split: option.splits if_splits dest: find_Some_mem)
qed

lemma sources_apply:
  assumes "rt_inv rt" and "op_wf c"
  shows "sources (rt_apply now c rt) s =
     (if inserts_for s now c rt then sources (recordInsertion now rt s) s else sources rt s)"
proof (cases "\<exists>p src. c = OpAdd p src")
  case True
  then obtain p src where c: "c = OpAdd p src" by auto
  with assms AddPeer_sources[of rt p now src] show ?thesis
    by (auto simp: recordInsertion_def Let_def)
next
  case False
  then have "\<not> inserts_for s now c rt" by (cases c) auto
  with False show ?thesis by (simp add: sources_apply_other)
qed

lemma hist_ok_apply:
  assumes ok: "hist_ok s clock rt hist" and mono: "clock \<le> now" and wf: "op_wf c"
  shows "hist_ok s now (rt_apply now c rt)
     (if inserts_for s now c rt then hist @ [now] else hist)"
proof -
  have inv: "rt_inv rt" and le: "\<forall>t \<in> set hist. t \<le> now" and tr: "tracks s rt hist"
    and lim: "limited rt hist" and W: "0 < RateWindow rt"
    and par: "1 \<le> MaxPerSource rt" "1 \<le> RateLimit rt"
    using ok mono by (auto simp: hist_ok_def)
  note src = sources_apply[OF inv wf, of now s]
  show ?thesis
  proof (cases "inserts_for s now c rt")
    case True
    note chk = checkRateLimit_hist[OF tr inserts_for_checked[OF inv True] le par]
    have "tracks s (rt_apply now c rt) (hist @ [now])"
      using recordInsertion_tracks[OF tr le W] src True
      by (simp add: tracks_def) (simp add: recordInsertion_def Let_def)
    moreover have "limited (rt_apply now c rt) (hist @ [now])"
      using limited_snoc[OF lim le chk] by (simp add: limited_def)
    ultimately show ?thesis
      using True inv wf le par W by (simp add: hist_ok_def rt_inv_apply)
  next
    case False
    with src tr lim inv wf le par W show ?thesis
      by (simp add: hist_ok_def rt_inv_apply tracks_def limited_def split: option.splits)
  qed
qed

lemma run_ops_hist_ok:
  "\<lbrakk> hist_ok s clock rt hist; sorted (map fst cs); \<forall>x \<in> set cs. clock \<le> fst x \<and> op_wf (snd x) \<rbrakk>
     \<Longrightarrow> \<exists>clock'. hist_ok s clock' (fst (run_ops s cs rt hist)) (snd (run_ops s cs rt hist))"
proof (induction cs arbitrary: clock rt hist)
  case (Cons x cs)
  obtain now c where x: "x = (now, c)" by (cases x)
  have "hist_ok s now (rt_apply now c rt) (if inserts_for s now c rt then hist @ [now] else hist)"
    using Cons.prems x by (intro hist_ok_apply) auto
  from Cons.IH[OF this] Cons.prems x show ?case by auto
qed auto

lemma params_run [simp]:
  "MaxPerSource (fst (run_ops s cs rt hist)) = MaxPerSource rt"
  "RateLimit (fst (run_ops s cs rt hist)) = RateLimit rt"
  "RateWindow (fst (run_ops s cs rt hist)) = RateWindow rt"
  by (induction s cs rt hist rule: run_ops.induct) auto

lemma hist_ok_New: "wf_id loc \<Longrightarrow> hist_ok s clock (NewRoutingTable loc) []"
  by (auto simp: hist_ok_def rt_inv_New tracks_def limited_def window_def)
     (auto simp: NewRoutingTable_def go_time)

section \<open>The closest peers\<close>

lemma closer_iff:
  "closer t p q \<longleftrightarrow> be_value (Distance (ID p) t) < be_value (Distance (ID q) t)"
  by (simp add: closer_def compareDist_less_iff)

interpretation by_distance: slice_less "closer t" for t
  by unfold_locales (auto simp: closer_iff)

interpretation by_recency: slice_less more_recent
  by unfold_locales (auto simp: more_recent_def)

lemma closer_total:
  assumes "rt_inv rt" and "p \<in> set (AllPeers rt)" "q \<in> set (AllPeers rt)" and "p \<noteq> q"
  shows "closer t p q \<or> closer t q p"
proof -
  have ne: "ID p \<noteq> ID q"
    using assms distinct_AllPeers[OF assms(1)] by (auto simp: distinct_map inj_on_def)
  have "wf_id (ID p)" "wf_id (ID q)" using assms AllPeers_bucket(1) by auto
  with ne have "Distance (ID p) t \<noteq> Distance (ID q) t" using Distance_inj by blast
  then have "be_value (Distance (ID p) t) \<noteq> be_value (Distance (ID q) t)"
    by (simp add: be_value_inj)
  then show ?thesis by (auto simp: closer_iff)
qed

lemma FindClosest_sort_independent:
  assumes "rt_inv rt" and "go_sorted (closer t) (AllPeers rt) ys"
  shows "take n ys = FindClosest rt t n"
proof -
  have "ys = sort_slice (closer t) (AllPeers rt)"
    using assms closer_total by (intro by_distance.go_sorted_unique) auto
  then show ?thesis by (simp add: FindClosest_def AllPeers_def)
qed

lemma FindClosest_subset: "set (FindClosest rt t n) \<subseteq> set (AllPeers rt)"
  by (auto simp: FindClosest_def AllPeers_def dest: in_set_takeD)

lemma FindClosest_length: "length (FindClosest rt t n) = min n (Size rt)"
  by (simp add: FindClosest_def Size_AllPeers AllPeers_def)

lemma FindClosest_sorted:
  assumes "rt_inv rt"
  shows "sorted_wrt (closer t) (FindClosest rt t n)"
proof -
  let ?ys = "sort_slice (closer t) (AllPeers rt)"
  have sorted: "sorted_wrt (\<lambda>a b. \<not> closer t b a) ?ys"
    using by_distance.go_sorted_sort_slice by (auto simp: go_sorted_def)
  have "distinct (AllPeers rt)" using distinct_AllPeers[OF assms] by (simp add: distinct_map)
  then have dist: "distinct ?ys"
    using mset_eq_imp_distinct_iff[OF mset_sort_slice[of "closer t" "AllPeers rt"]] by simp
  have "sorted_wrt (closer t) ?ys"
    unfolding sorted_wrt_iff_nth_less
  proof (intro allI impI)
    fix i j assume ij: "i < j" "j < length ?ys"
    then have "?ys ! i \<noteq> ?ys ! j" using dist by (simp add: nth_eq_iff_index_eq)
    moreover have "?ys ! i \<in> set (AllPeers rt)" "?ys ! j \<in> set (AllPeers rt)"
      using ij nth_mem[of i ?ys] nth_mem[of j ?ys] by auto
    moreover have "\<not> closer t (?ys ! j) (?ys ! i)"
      using sorted ij by (simp add: sorted_wrt_iff_nth_less)
    ultimately show "closer t (?ys ! i) (?ys ! j)" using closer_total[OF assms] by blast
  qed
  then show ?thesis by (simp add: FindClosest_def AllPeers_def[symmetric] sorted_wrt_take)
qed

lemma FindClosest_optimal:
  assumes "rt_inv rt" and "p \<in> set (FindClosest rt t n)"
    and "q \<in> set (AllPeers rt)" and "q \<notin> set (FindClosest rt t n)"
  shows "closer t p q"
proof -
  let ?ys = "sort_slice (closer t) (AllPeers rt)"
  have split: "FindClosest rt t (length ?ys) = take n ?ys @ drop n ?ys"
    by (simp add: FindClosest_def AllPeers_def)
  have "q \<in> set (take n ?ys @ drop n ?ys)" using assms(3) by simp
  with assms(4) have "q \<in> set (drop n ?ys)"
    by (simp add: FindClosest_def AllPeers_def del: append_take_drop_id)
  moreover have "p \<in> set (take n ?ys)" using assms(2) by (simp add: FindClosest_def AllPeers_def)
  moreover have "sorted_wrt (closer t) (take n ?ys @ drop n ?ys)"
    using FindClosest_sorted[OF assms(1), of t "length ?ys"] by (simp only: split)
  ultimately show ?thesis by (auto simp: sorted_wrt_append simp del: append_take_drop_id)
qed

section \<open>Effects on the list of peers\<close>

lemma concat_update_first:
  "concat (update_first (list_ex hit) (update_first hit f) bs) = update_first hit f (concat bs)"
proof -
  have app: "update_first hit f (xs @ ys) =
      (if list_ex hit xs then update_first hit f xs @ ys else xs @ update_first hit f ys)" for xs ys
    by (induction xs) auto
  show ?thesis by (induction bs) (auto simp: app)
qed

lemma concat_remove_first:
  "concat (update_first (list_ex hit) (remove_first hit) bs) = remove_first hit (concat bs)"
proof -
  have app: "remove_first hit (xs @ ys) =
      (if list_ex hit xs then remove_first hit xs @ ys else xs @ remove_first hit ys)" for xs ys
    by (induction xs) auto
  show ?thesis by (induction bs) (auto simp: app)
qed

lemma AllPeers_ops:
  "AllPeers (fst (RemovePeer rt a)) = remove_first (\<lambda>p. Address p = a) (AllPeers rt)"
  "AllPeers (fst (Evict now rt d)) = filter (\<lambda>p. \<not> stale now d p) (AllPeers rt)"
  "AllPeers (fst (RecordFailure rt onion)) =
     update_first (\<lambda>p. OnionAddr p = onion) (\<lambda>p. p\<lparr>Failures := Failures p + 1\<rparr>) (AllPeers rt)"
  "AllPeers (RecordSuccess rt onion) =
     update_first (\<lambda>p. OnionAddr p = onion) (\<lambda>p. p\<lparr>Failures := 0\<rparr>) (AllPeers rt)"
  "0 < n \<Longrightarrow> AllPeers (fst (EvictByFailures rt n)) = filter (\<lambda>p. Failures p < n) (AllPeers rt)"
  by (simp_all add: AllPeers_def RemovePeer_def Evict_def RecordFailure_def RecordSuccess_def
      EvictByFailures_def Let_def concat_update_first concat_remove_first filter_concat not_le)

text \<open>Announce outcomes of one peer: the counter is the length of the last run of failures.\<close>

definition record_outcome :: "string \<Rightarrow> routing_table \<Rightarrow> bool \<Rightarrow> routing_table" where
  "record_outcome onion rt ok =
     (if ok then RecordSuccess rt onion else fst (RecordFailure rt onion))"

fun failure_run :: "int \<Rightarrow> bool list \<Rightarrow> int" where
  "failure_run n [] = n"
| "failure_run n (ok # oks) = failure_run (if ok then 0 else n + 1) oks"

definition only_onion :: "string \<Rightarrow> peer_info \<Rightarrow> routing_table \<Rightarrow> bool" where
  "only_onion onion p rt \<longleftrightarrow>
     p \<in> set (AllPeers rt) \<and> (\<forall>q \<in> set (AllPeers rt). OnionAddr q = onion \<longleftrightarrow> q = p)"

lemma update_first_only:
  "distinct xs \<Longrightarrow> x \<in> set xs \<Longrightarrow> \<forall>y \<in> set xs. P y \<longleftrightarrow> y = x \<Longrightarrow>
     set (update_first P f xs) = insert (f x) (set xs - {x})"
  by (induction xs) auto

lemma record_outcome_only:
  fixes ok :: bool
  assumes "rt_inv rt" and "only_onion onion p rt"
  defines "p' \<equiv> p\<lparr>Failures := if ok then 0 else Failures p + 1\<rparr>"
  shows "set (AllPeers (record_outcome onion rt ok)) = insert p' (set (AllPeers rt) - {p})"
    and "only_onion onion p' (record_outcome onion rt ok)"
proof -
  have d: "distinct (AllPeers rt)" using distinct_AllPeers[OF assms(1)] by (simp add: distinct_map)
  show set: "set (AllPeers (record_outcome onion rt ok)) = insert p' (set (AllPeers rt) - {p})"
    using assms(2) update_first_only[OF d, of p "\<lambda>q. OnionAddr q = onion"]
    by (cases ok) (simp_all add: record_outcome_def p'_def AllPeers_ops only_onion_def)
  show "only_onion onion p' (record_outcome onion rt ok)"
  proof -
    have "OnionAddr p' = onion" using assms(2) by (simp add: p'_def only_onion_def)
    moreover have "\<forall>q \<in> set (AllPeers rt) - {p}. OnionAddr q \<noteq> onion"
      using assms(2) by (simp add: only_onion_def)
    ultimately show ?thesis unfolding only_onion_def set by blast
  qed
qed

lemma rt_inv_record_outcome [inv_intros]: "rt_inv rt \<Longrightarrow> rt_inv (record_outcome onion rt ok)"
  by (simp add: record_outcome_def inv_intros)

lemma record_outcomes:
  "rt_inv rt \<Longrightarrow> only_onion onion p rt \<Longrightarrow>
     rt_inv (foldl (record_outcome onion) rt oks) \<and>
     only_onion onion (p\<lparr>Failures := failure_run (Failures p) oks\<rparr>)
       (foldl (record_outcome onion) rt oks)"
proof (induction oks arbitrary: rt p)
  case (Cons ok oks)
  show ?case
    using Cons.IH[OF rt_inv_record_outcome[OF Cons.prems(1), of onion ok]
        record_outcome_only(2)[OF Cons.prems, of ok]]
    by (cases ok) simp_all
qed simp

section \<open>Persistence\<close>

text \<open>What \<open>Load\<close> puts into bucket \<open>i\<close>: the peers of the file that belong there,
  in the order they come, as long as there is room.\<close>

definition for_bucket :: "node_id \<Rightarrow> nat \<Rightarrow> peer_info list \<Rightarrow> peer_info list" where
  "for_bucket loc i ps = filter (\<lambda>p. ID p \<noteq> loc \<and> CommonPrefixLen loc (ID p) = i) ps"

lemma load_peer_frame [simp]:
  "local_id (load_peer rt p) = local_id rt" "sources (load_peer rt p) = sources rt"
  "length (buckets (load_peer rt p)) = length (buckets rt)"
  by (simp_all add: load_peer_def Let_def)

lemma foldl_load_frame [simp]:
  "local_id (foldl load_peer rt ps) = local_id rt"
  "length (buckets (foldl load_peer rt ps)) = length (buckets rt)"
  by (induction ps arbitrary: rt) auto

lemma load_peer_bucket:
  assumes "length (buckets rt) = NumBuckets" and "i < NumBuckets"
  shows "buckets (load_peer rt p) ! i =
     buckets rt ! i @ take (K - length (buckets rt ! i)) (for_bucket (local_id rt) i [p])"
  using assms by (auto simp: load_peer_def Let_def for_bucket_def nth_list_update)

lemma foldl_load_bucket:
  assumes "length (buckets rt) = NumBuckets" and "i < NumBuckets"
  shows "buckets (foldl load_peer rt ps) ! i =
     buckets rt ! i @ take (K - length (buckets rt ! i)) (for_bucket (local_id rt) i ps)"
  using assms
proof (induction ps arbitrary: rt)
  case (Cons p ps)
  let ?b = "buckets rt ! i" and ?x = "for_bucket (local_id rt) i [p]"
  have split: "for_bucket (local_id rt) i (p # ps) = ?x @ for_bucket (local_id rt) i ps"
    by (simp add: for_bucket_def)
  have room: "K - length (?b @ take (K - length ?b) ?x) = K - length ?b - length ?x"
    by simp
  have "buckets (foldl load_peer rt (p # ps)) ! i =
      (?b @ take (K - length ?b) ?x) @
      take (K - length ?b - length ?x) (for_bucket (local_id rt) i ps)"
    using Cons.IH[of "load_peer rt p"] Cons.prems load_peer_bucket[OF Cons.prems, of p]
    unfolding room[symmetric] by simp
  then show ?case by (simp add: split)
qed (simp add: for_bucket_def)

lemma buckets_New: "i < NumBuckets \<Longrightarrow> buckets (NewRoutingTable loc) ! i = []"
  by (simp add: NewRoutingTable_def)

lemma load_into_new:
  assumes "i < NumBuckets"
  shows "buckets (foldl load_peer (NewRoutingTable loc) ps) ! i = take K (for_bucket loc i ps)"
  using foldl_load_bucket[of "NewRoutingTable loc" i ps] assms
  by (simp add: buckets_New) (simp add: NewRoutingTable_def)

lemma rt_inv_load:
  assumes "wf_id loc" and "distinct (map ID ps)" and "\<forall>p \<in> set ps. wf_id (ID p)"
  shows "rt_inv (foldl load_peer (NewRoutingTable loc) ps)"
proof -
  have "bucket_ok loc i (take K (for_bucket loc i ps))" for i
    using assms(2,3)
    by (auto simp: bucket_ok_def for_bucket_def take_map[symmetric] distinct_map_filter
        dest: in_set_takeD intro: distinct_take)
  then show ?thesis
    using assms(1) by (simp add: rt_inv_def load_into_new) (simp add: NewRoutingTable_def)
qed

lemma saved_bucket_fits:
  assumes inv: "rt_inv rt" and i: "i < NumBuckets" and perm: "mset ps = mset (map f (AllPeers rt))"
    and f: "\<And>p. ID (f p) = ID p"
  shows "length (for_bucket (local_id rt) i ps) \<le> K"
proof -
  let ?P = "\<lambda>p. ID p \<noteq> local_id rt \<and> CommonPrefixLen (local_id rt) (ID p) = i"
  have "length (for_bucket (local_id rt) i ps) = length (filter ?P (map f (AllPeers rt)))"
  proof -
    have "mset (filter ?P ps) = mset (filter ?P (map f (AllPeers rt)))"
      by (simp only: mset_filter perm)
    from arg_cong[OF this, of size] show ?thesis by (simp only: size_mset for_bucket_def)
  qed
  also have "\<dots> = card (ID ` set (filter ?P (AllPeers rt)))"
  proof -
    have "distinct (map ID (filter ?P (AllPeers rt)))"
      using distinct_AllPeers[OF inv] by (rule distinct_map_filter)
    from distinct_card[OF this] show ?thesis by (simp add: filter_map comp_def f)
  qed
  also have "\<dots> \<le> card (ID ` set (buckets rt ! i))"
    using AllPeers_bucket(3)[OF inv] by (intro card_mono) auto
  also have "\<dots> \<le> length (buckets rt ! i)"
    by (metis card_length length_map set_map)
  also have "\<dots> \<le> K" using rt_invD(3)[OF inv i] by (simp add: bucket_ok_def)
  finally show ?thesis .
qed

lemma set_load_into_new:
  "set (AllPeers (foldl load_peer (NewRoutingTable loc) ps)) =
     (\<Union>i < NumBuckets. set (take K (for_bucket loc i ps)))"
proof -
  have len: "length (buckets (foldl load_peer (NewRoutingTable loc) ps)) = NumBuckets"
    by (simp add: NewRoutingTable_def)
  have "x \<in> set (AllPeers (foldl load_peer (NewRoutingTable loc) ps)) \<longleftrightarrow>
      (\<exists>i < NumBuckets. x \<in> set (take K (for_bucket loc i ps)))" for x
    unfolding AllPeers_def in_concat_nth len using load_into_new by metis
  then show ?thesis by auto
qed

lemma load_saved:
  assumes inv: "rt_inv rt" and perm: "mset ps = mset (map f (AllPeers rt))"
    and f: "\<And>p. ID (f p) = ID p"
  defines "rt' \<equiv> foldl load_peer (NewRoutingTable (local_id rt)) ps"
  shows "rt_inv rt'" and "set (AllPeers rt') = f ` set (AllPeers rt)"
proof -
  have set_ps: "set ps = f ` set (AllPeers rt)"
    using perm by (metis set_map set_mset_mset)
  have "distinct (map ID (map f (AllPeers rt)))"
    using distinct_AllPeers[OF inv] by (simp add: comp_def f)
  then have "distinct (map ID ps)"
    using perm by (metis mset_eq_imp_distinct_iff mset_map)
  then show "rt_inv rt'"
    unfolding rt'_def using inv set_ps AllPeers_bucket(1)[OF inv]
    by (intro rt_inv_load) (auto simp: rt_invD(1) f)
  have "set (AllPeers rt') = (\<Union>i < NumBuckets. set (for_bucket (local_id rt) i ps))"
    unfolding rt'_def set_load_into_new using saved_bucket_fits[OF inv _ perm f] by simp
  also have "\<dots> = set ps"
    using set_ps AllPeers_bucket(2)[OF inv] local_not_member[OF inv]
    by (auto simp: for_bucket_def f member_def)
  finally show "set (AllPeers rt') = f ` set (AllPeers rt)" using set_ps by simp
qed

lemma view_eqI:
  assumes "rt_inv rt" "rt_inv rt'" and "set (AllPeers rt') = f ` set (AllPeers rt)"
    and "\<And>p. ID (f p) = ID p"
  shows "view rt' k = map_option f (view rt k)"
proof (cases "view rt k")
  case None
  then have "\<not> member rt k" by (simp add: view_None_iff)
  then have "view rt' k = None" using assms(3,4) by (auto simp: view_None_iff member_def)
  with None show ?thesis by simp
next
  case (Some p)
  then have "p \<in> set (AllPeers rt)" "ID p = k" using assms(1) by (auto simp: view_Some_iff)
  then have "view rt' k = Some (f p)" using assms(2-4) by (simp add: view_Some_iff)
  with Some show ?thesis by simp
qed

section \<open>The interface the DHT relies on\<close>

locale peer_table =
  fixes inv :: "'t \<Rightarrow> bool"
    and all :: "'t \<Rightarrow> peer_info list"
    and add :: "time \<Rightarrow> 't \<Rightarrow> peer_info \<Rightarrow> node_id \<Rightarrow> 't \<times> bool"
    and closest :: "'t \<Rightarrow> node_id \<Rightarrow> nat \<Rightarrow> peer_info list"
  assumes add_inv: "inv t \<Longrightarrow> wf_id (ID p) \<Longrightarrow> inv (fst (add now t p s))"
    and add_old: "inv t \<Longrightarrow> wf_id (ID p) \<Longrightarrow>
          ID ` set (all t) \<subseteq> ID ` set (all (fst (add now t p s)))"
    and add_new: "inv t \<Longrightarrow> wf_id (ID p) \<Longrightarrow>
          ID ` set (all (fst (add now t p s))) \<subseteq> insert (ID p) (ID ` set (all t))"
    and closest_mem: "set (closest t x n) \<subseteq> set (all t)"
    and closest_len: "length (closest t x n) \<le> n"
begin

definition add_all :: "time \<Rightarrow> (peer_info \<Rightarrow> node_id) \<Rightarrow> 't \<Rightarrow> peer_info list \<Rightarrow> 't" where
  "add_all now src t ps = foldl (\<lambda>t p. fst (add now t p (src p))) t ps"

lemma add_all_inv: "inv t \<Longrightarrow> \<forall>p \<in> set ps. wf_id (ID p) \<Longrightarrow> inv (add_all now src t ps)"
  unfolding add_all_def by (induction ps arbitrary: t) (auto intro: add_inv)

lemma add_all_members:
  "inv t \<Longrightarrow> \<forall>p \<in> set ps. wf_id (ID p) \<Longrightarrow>
     ID ` set (all t) \<subseteq> ID ` set (all (add_all now src t ps)) \<and>
     ID ` set (all (add_all now src t ps)) \<subseteq> ID ` set (all t) \<union> ID ` set ps"
  unfolding add_all_def
proof (induction ps arbitrary: t)
  case (Cons p ps)
  then have inv': "inv (fst (add now t p (src p)))" by (simp add: add_inv)
  let ?u = "foldl (\<lambda>t p. fst (add now t p (src p))) (fst (add now t p (src p))) ps"
  have wf: "\<forall>p \<in> set ps. wf_id (ID p)" "wf_id (ID p)" using Cons.prems by auto
  note ih = Cons.IH[OF inv' wf(1)]
  have join: "U \<subseteq> T \<union> P \<Longrightarrow> T \<subseteq> insert x S \<Longrightarrow> U \<subseteq> S \<union> insert x P" for U T P S and x :: node_id
    by blast
  have "ID ` set (all t) \<subseteq> ID ` set (all ?u)"
    using add_old[OF Cons.prems(1) wf(2)] conjunct1[OF ih] by (rule subset_trans)
  moreover have "ID ` set (all ?u) \<subseteq> ID ` set (all t) \<union> insert (ID p) (ID ` set ps)"
    by (rule join[OF conjunct2[OF ih] add_new[OF Cons.prems(1) wf(2)]])
  ultimately show ?case by simp
qed simp

end

lemma AddPeer_members:
  assumes inv: "rt_inv rt" and wf: "wf_id (ID p)"
  shows "ID ` set (AllPeers rt) \<subseteq> ID ` set (AllPeers (fst (AddPeer now rt p s)))"
    and "ID ` set (AllPeers (fst (AddPeer now rt p s))) \<subseteq> insert (ID p) (ID ` set (AllPeers rt))"
proof -
  let ?rt' = "fst (AddPeer now rt p s)" and ?i = "CommonPrefixLen (local_id rt) (ID p)"
  have dom: "k \<in> ID ` set (AllPeers t) \<longleftrightarrow> view t k \<noteq> None" for t k
    by (auto simp: view_None_iff member_def)
  have "view ?rt' k = view rt k \<or> (k = ID p \<and> view ?rt' k \<noteq> None)" for k
  proof (cases "ID p = local_id rt \<or> \<not> ?i < NumBuckets")
    case True
    then have "\<not> snd (AddPeer now rt p s)" by (auto simp: AddPeer_def Let_def)
    then show ?thesis by (simp add: AddPeer_rejected)
  next
    case False
    show ?thesis
    proof (cases "find (\<lambda>q. ID q = ID p) (buckets rt ! ?i)")
      case None
      with False inv wf show ?thesis
        by (cases "snd (AddPeer now rt p s)") (auto simp: AddPeer_rejected AddPeer_new(3))
    next
      case (Some q)
      with False inv wf show ?thesis by (auto simp: AddPeer_known(2))
    qed
  qed
  then show "ID ` set (AllPeers rt) \<subseteq> ID ` set (AllPeers ?rt')"
    and "ID ` set (AllPeers ?rt') \<subseteq> insert (ID p) (ID ` set (AllPeers rt))"
    unfolding subset_iff insert_iff dom by metis+
qed

interpretation rtab: peer_table rt_inv AllPeers AddPeer FindClosest
  by unfold_locales
    (auto simp: rt_inv_AddPeer FindClosest_length dest: subsetD[OF FindClosest_subset]
      subsetD[OF AddPeer_members(1)] subsetD[OF AddPeer_members(2)])

section \<open>Properties\<close>

definition demo_local :: node_id where "demo_local = replicate 20 0"

definition demo_peer :: "byte \<Rightarrow> peer_info" where
  "demo_peer b = \<lparr>ID = replicate 20 b, Address = ''Epeer'', OnionAddr = ''peer.onion'',
                  LastSeen = 0, Failures = 0\<rparr>"

lemma wf_demo [simp]: "wf_id demo_local" "wf_id (replicate 20 b)"
  by (simp_all add: wf_id_def demo_local_def IDLength_def)

lemma ID_demo_peer [simp]: "ID (demo_peer b) = replicate 20 b"
  by (simp add: demo_peer_def)

lemma local_New [simp]: "local_id (NewRoutingTable loc) = loc"
  by (simp add: NewRoutingTable_def)

lemma demo_peer_not_local [simp]: "replicate 20 1 \<noteq> demo_local"
  by (simp add: demo_local_def)

lemma rt_inv_demo [simp]: "rt_inv (NewRoutingTable demo_local)"
  by (simp add: rt_inv_New)

text \<open>C1: \<open>AddPeer\<close> refines an update of the peer map. It accepts exactly a peer other
  than the local node that is already known, or that passes the source's rate limit and finds
  room in its bucket; accepting stores the peer (a known peer keeps its address and failure
  count and takes the new onion address and time), rejecting changes nothing, and the invariant
  of the table is kept.\<close>

theorem AddPeer_refines:
  assumes inv: "rt_inv rt" and wf: "wf_id (ID peer)"
  shows "rt_inv (fst (AddPeer now rt peer source)) \<and>
     (snd (AddPeer now rt peer source) \<longleftrightarrow>
        ID peer \<noteq> local_id rt \<and>
        (view rt (ID peer) \<noteq> None \<or>
         (checkRateLimit now rt source \<and>
          length (buckets rt ! CommonPrefixLen (local_id rt) (ID peer)) < K))) \<and>
     view (fst (AddPeer now rt peer source)) =
       (if snd (AddPeer now rt peer source)
        then (view rt)(ID peer \<mapsto> merge_peer (view rt (ID peer)) peer) else view rt)"
proof -
  let ?i = "CommonPrefixLen (local_id rt) (ID peer)" and ?r = "AddPeer now rt peer source"
  note inv' = rt_inv_AddPeer[OF inv wf, of now source]
  have "(snd ?r \<longleftrightarrow> ID peer \<noteq> local_id rt \<and> (view rt (ID peer) \<noteq> None \<or>
      (checkRateLimit now rt source \<and> length (buckets rt ! ?i) < K))) \<and>
    view (fst ?r) = (if snd ?r then (view rt)(ID peer \<mapsto> merge_peer (view rt (ID peer)) peer) else view rt)"
  proof (cases "ID peer = local_id rt")
    case True
    then show ?thesis by (simp add: AddPeer_def)
  next
    case False
    then have i: "?i < NumBuckets"
      using CommonPrefixLen_less_iff[OF rt_invD(1)[OF inv] wf] by simp
    show ?thesis
    proof (cases "find (\<lambda>p. ID p = ID peer) (buckets rt ! ?i)")
      case None
      have "view rt (ID peer) = None" using i None by (simp add: view_bucket[OF inv])
      with AddPeer_new[OF inv False i None wf, of now source] AddPeer_rejected False show ?thesis
        by (auto simp: merge_peer_def fun_eq_iff)
    next
      case (Some q)
      have "view rt (ID peer) = Some q" using i Some by (simp add: view_bucket[OF inv])
      with AddPeer_known[OF inv False i Some wf, of now source] False show ?thesis
        by (auto simp: fun_eq_iff)
    qed
  qed
  with inv' show ?thesis by blast
qed

theorem AddPeer_refines_witness:
  "rt_inv (fst (AddPeer 0 (NewRoutingTable demo_local) (demo_peer 1) (replicate 20 1))) \<and>
   snd (AddPeer 0 (NewRoutingTable demo_local) (demo_peer 1) (replicate 20 1))"
proof -
  have bucket: "buckets (NewRoutingTable demo_local) ! CommonPrefixLen demo_local (replicate 20 1) = []"
    by (rule buckets_New) (simp add: CommonPrefixLen_less_iff demo_peer_not_local[symmetric])
  have "checkRateLimit 0 (NewRoutingTable demo_local) (replicate 20 1)"
    by (simp add: checkRateLimit_def NewRoutingTable_def)
  with bucket AddPeer_refines[of "NewRoutingTable demo_local" "demo_peer 1" 0 "replicate 20 1"]
  show ?thesis by (simp add: K_def)
qed



text \<open>C3: \<open>FindClosest\<close> returns the \<open>n\<close> closest peers by XOR distance, in
  order, whatever permutation an unstable \<open>sort.Slice\<close> produces: every admissible sorting
  result gives the same answer, the answer is strictly ordered by distance, it holds
  \<open>min n Size\<close> peers, and every peer left out is farther from the target than every peer
  returned.\<close>

theorem FindClosest_correct:
  assumes "rt_inv rt" and "go_sorted (closer t) (AllPeers rt) ys"
  shows "take n ys = FindClosest rt t n \<and>
     sorted_wrt (\<lambda>p q. be_value (Distance (ID p) t) < be_value (Distance (ID q) t))
       (FindClosest rt t n) \<and>
     length (FindClosest rt t n) = min n (Size rt) \<and>
     (\<forall>p \<in> set (FindClosest rt t n). p \<in> set (AllPeers rt) \<and>
        (\<forall>q \<in> set (AllPeers rt) - set (FindClosest rt t n).
           be_value (Distance (ID p) t) < be_value (Distance (ID q) t)))"
proof -
  have "sorted_wrt (\<lambda>p q. be_value (Distance (ID p) t) < be_value (Distance (ID q) t))
      (FindClosest rt t n)"
    using FindClosest_sorted[OF assms(1)] by (simp add: closer_iff[abs_def])
  then show ?thesis
    using FindClosest_sort_independent[OF assms] FindClosest_subset[of rt t n]
      FindClosest_optimal[OF assms(1), of _ t n]
    by (auto simp: FindClosest_length closer_iff)
qed

theorem FindClosest_correct_witness:
  "go_sorted (closer demo_local) (AllPeers (NewRoutingTable demo_local)) [] \<and>
   FindClosest (NewRoutingTable demo_local) demo_local 20 = []"
proof -
  have g: "go_sorted (closer demo_local) (AllPeers (NewRoutingTable demo_local)) []"
    by (simp add: go_sorted_def AllPeers_def NewRoutingTable_def)
  from FindClosest_correct[OF rt_inv_demo g, of 20] g show ?thesis by simp
qed

text \<open>the insertion limits hold over whole runs. Along any run of table operations with
  a clock that does not go back, one source gets at most \<open>MaxPerSource\<close> new peers into the
  table in total and at most \<open>RateLimit\<close> in any window of length \<open>RateWindow\<close>
  (50 and 10 per minute for a new table).\<close>

theorem source_insertion_limits:
  assumes "wf_id loc" and "sorted (map fst cs)" and "\<forall>x \<in> set cs. op_wf (snd x)"
    and "\<forall>x \<in> set cs. t0 \<le> fst x"
  shows "length (snd (run_ops s cs (NewRoutingTable loc) [])) \<le> 50 \<and>
     window minute T (snd (run_ops s cs (NewRoutingTable loc) [])) \<le> 10"
proof -
  from run_ops_hist_ok[OF hist_ok_New[OF assms(1), of s t0] assms(2)] assms(3,4)
  have "limited (fst (run_ops s cs (NewRoutingTable loc) [])) (snd (run_ops s cs (NewRoutingTable loc) []))"
    by (auto simp: hist_ok_def)
  then show ?thesis
    by (auto simp: limited_def) (auto simp: NewRoutingTable_def)
qed

theorem source_insertion_limits_witness:
  "length (snd (run_ops demo_local [(0, OpAdd (demo_peer 1) demo_local), (5, OpEvict hour)]
     (NewRoutingTable demo_local) [])) \<le> 50"
  using source_insertion_limits[of demo_local
      "[(0, OpAdd (demo_peer 1) demo_local), (5, OpEvict hour)]" 0 demo_local 0]
  by simp

text \<open>C4: persistence round-trips. When \<open>Save\<close> succeeds, loading the stored peers into
  a new table of the same node, in any order \<open>sort.Slice\<close> may put them in, gives a table
  with the invariant and the same peer map, failure counters reset.\<close>

theorem Save_Load_roundtrip:
  assumes "rt_inv rt" and "rt_Save mk wr rt = Inr ps" and "go_sorted more_recent ps xs"
  shows "rt_inv (foldl load_peer (NewRoutingTable (local_id rt)) xs) \<and>
     view (foldl load_peer (NewRoutingTable (local_id rt)) xs) =
       map_option (\<lambda>p. p\<lparr>Failures := 0\<rparr>) \<circ> view rt \<and>
     (\<exists>rt'. rt_Load (NewRoutingTable (local_id rt)) (Contents ps) = Inr rt' \<and>
        view rt' = map_option (\<lambda>p. p\<lparr>Failures := 0\<rparr>) \<circ> view rt)"
proof -
  let ?f = "\<lambda>p. p\<lparr>Failures := 0\<rparr>"
  have ps: "ps = map ?f (AllPeers rt)"
    using assms(2) by (auto simp: rt_Save_def Let_def AllPeers_def split: if_splits sum.splits)
  have all: "rt_inv (foldl load_peer (NewRoutingTable (local_id rt)) ys) \<and>
      view (foldl load_peer (NewRoutingTable (local_id rt)) ys) = map_option ?f \<circ> view rt"
    if "go_sorted more_recent ps ys" for ys
  proof -
    have "mset ys = mset (map ?f (AllPeers rt))" using that ps by (simp add: go_sorted_def)
    note l = load_saved[OF assms(1) this]
    show ?thesis using l view_eqI[OF assms(1) l] by (auto simp: fun_eq_iff)
  qed
  from all[OF assms(3)] all[OF by_recency.go_sorted_sort_slice] show ?thesis
    by (simp add: rt_Load_def)
qed

theorem Save_Load_roundtrip_witness:
  "rt_Save (Inr ()) (Inr ()) (NewRoutingTable demo_local) = Inr [] \<and>
   view (foldl load_peer (NewRoutingTable demo_local) []) =
     map_option (\<lambda>p. p\<lparr>Failures := 0\<rparr>) \<circ> view (NewRoutingTable demo_local)"
proof -
  have loc: "local_id (NewRoutingTable demo_local) = demo_local"
    by (simp add: NewRoutingTable_def)
  have s: "rt_Save (Inr ()) (Inr ()) (NewRoutingTable demo_local) = Inr []"
    by (simp add: rt_Save_def NewRoutingTable_def)
  have g: "go_sorted more_recent [] []" by (simp add: go_sorted_def)
  from Save_Load_roundtrip[OF rt_inv_demo s g] s show ?thesis by (simp add: loc)
qed

text \<open>consecutive announce failures evict. After any sequence of announce outcomes for a
  peer with an onion address of its own, the peer survives \<open>EvictByFailures\<close> exactly when
  the run of failures at the end of the sequence is shorter than the threshold; a success resets
  the count.\<close>

theorem consecutive_failures_evict:
  assumes "rt_inv rt" and "only_onion onion p rt" and "0 < n"
  shows "member (fst (EvictByFailures (foldl (record_outcome onion) rt oks) n)) (ID p) \<longleftrightarrow>
     failure_run (Failures p) oks < n"
proof -
  let ?rt = "foldl (record_outcome onion) rt oks" and ?p = "p\<lparr>Failures := failure_run (Failures p) oks\<rparr>"
  from record_outcomes[OF assms(1,2), of oks] have inv: "rt_inv ?rt" and o: "only_onion onion ?p ?rt"
    by auto
  have mem: "?p \<in> set (AllPeers ?rt)" "ID ?p = ID p" using o by (simp_all add: only_onion_def)
  have uniq: "q = ?p" if "q \<in> set (AllPeers ?rt)" "ID q = ID p" for q
    using inj_onD[of ID "set (AllPeers ?rt)" q ?p] that mem distinct_AllPeers[OF inv]
    by (simp only: distinct_map)
  have "member (fst (EvictByFailures ?rt n)) (ID p) \<longleftrightarrow> Failures ?p < n"
    unfolding member_def AllPeers_ops(5)[OF assms(3)] set_filter using mem uniq by blast
  then show ?thesis by simp
qed

definition demo_table :: routing_table where
  "demo_table = (NewRoutingTable demo_local)\<lparr>buckets := (replicate NumBuckets [])[7 := [demo_peer 1]]\<rparr>"

lemma concat_replicate_update: "i < n \<Longrightarrow> concat ((replicate n [])[i := xs]) = xs"
  by (induction n arbitrary: i) (auto split: nat.split)

lemma AllPeers_demo: "AllPeers demo_table = [demo_peer 1]"
  by (simp add: AllPeers_def demo_table_def NumBuckets_def concat_replicate_update)

lemma CommonPrefixLen_demo: "CommonPrefixLen demo_local (replicate 20 1) = 7"
proof -
  have upt: "[0..<IDLength] = 0 # [1..<20]" by (simp add: upt_conv_Cons IDLength_def)
  have "leading_bit 1 8 = Some 0" by code_simp
  then show ?thesis
    unfolding CommonPrefixLen_def upt by (simp add: demo_local_def)
qed

lemma rt_inv_demo_table: "rt_inv demo_table"
proof -
  have "bucket_ok demo_local 7 [demo_peer 1]"
    by (simp add: bucket_ok_def K_def CommonPrefixLen_demo)
  then show ?thesis
    unfolding demo_table_def
    by (intro rt_inv_buckets[OF rt_inv_demo]) (auto simp: nth_list_update NumBuckets_def)
qed

theorem consecutive_failures_evict_witness:
  "\<not> member (fst (EvictByFailures (foldl (record_outcome ''peer.onion'') demo_table [True, False, False, False]) 3))
     (replicate 20 1)"
proof -
  have "only_onion ''peer.onion'' (demo_peer 1) demo_table"
    by (simp add: only_onion_def AllPeers_demo) (simp add: demo_peer_def)
  from consecutive_failures_evict[OF rt_inv_demo_table this, of 3 "[True, False, False, False]"]
  show ?thesis by (simp add: demo_peer_def)
qed

end
