(* ===== verification/Dht.thy ===== *)
theory Dht
  imports Routing_Props
begin

text \<open>
  Peer announcement and lookup over the DHT (\<open>src/internal/discovery/dht.go\<close>). The
  network is a parameter: a \<open>network\<close> over a type of world states answers each remote call
  (dialling, writing, reading and decoding are one outcome each) and gives the clock and whether
  the caller's context is done. Handlers of incoming requests return the response they write.
\<close>

section \<open>State and messages\<close>

definition RecordTTL :: duration where "RecordTTL = 24 * hour"
definition LookupMaxIterations :: nat where "LookupMaxIterations = 20"
definition AnnounceFailureThreshold :: int where "AnnounceFailureThreshold = 3"

record peer_record =
  NodeId :: bytes
  rec_Address :: string
  OnionAddress :: string
  Timestamp :: i64

record dht =
  rt :: routing_table
  localPeer :: peer_info
  recordTTL :: duration
  localIdentities :: "peer_info list"
  failureThreshold :: int

datatype put_outcome = PutFailed | PutNoResponse | PutResponse "peer_record option list"

record 'w network =
  clock :: "'w \<Rightarrow> time"
  ctx_done :: "'w \<Rightarrow> bool"
  find_rpc :: "'w \<Rightarrow> string \<Rightarrow> node_id \<Rightarrow> 'w \<times> peer_record option list res"
  put_rpc :: "'w \<Rightarrow> string \<Rightarrow> peer_record \<Rightarrow> 'w \<times> put_outcome"

section \<open>Conversions\<close>

definition isExpired :: "time \<Rightarrow> dht \<Rightarrow> peer_info \<Rightarrow> bool" where
  "isExpired now d p \<longleftrightarrow> time_sub now (LastSeen p) > recordTTL d"

definition peerInfoToRecord :: "peer_info \<Rightarrow> peer_record" where
  "peerInfoToRecord p =
     \<lparr>NodeId = ID p, rec_Address = Address p, OnionAddress = OnionAddr p,
      Timestamp = unix_millis (LastSeen p)\<rparr>"

definition recordToPeerInfo :: "peer_record option \<Rightarrow> peer_info option" where
  "recordToPeerInfo r =
     (case r of
        None \<Rightarrow> None
      | Some r \<Rightarrow>
          if length (NodeId r) < IDLength then None
          else Some \<lparr>ID = copy_fixed IDLength (NodeId r), Address = rec_Address r,
                     OnionAddr = OnionAddress r, LastSeen = time_of_millis (Timestamp r),
                     Failures = 0\<rparr>)"

definition peersToResponse :: "peer_info list \<Rightarrow> peer_record list" where
  "peersToResponse peers = map peerInfoToRecord peers"

section \<open>Local identities\<close>

definition NewDHTDiscovery :: "routing_table \<Rightarrow> peer_info \<Rightarrow> dht" where
  "NewDHTDiscovery t p =
     \<lparr>rt = t, localPeer = p, recordTTL = RecordTTL, localIdentities = [],
      failureThreshold = AnnounceFailureThreshold\<rparr>"

definition SetFailureThreshold :: "dht \<Rightarrow> int \<Rightarrow> dht" where
  "SetFailureThreshold d n = d\<lparr>failureThreshold := n\<rparr>"

definition AddLocalIdentity :: "hashes \<Rightarrow> time \<Rightarrow> dht \<Rightarrow> string \<Rightarrow> string \<Rightarrow> dht res" where
  "AddLocalIdentity H now d addr onion =
     (case NodeIDFromAddress H addr of
        Inl e \<Rightarrow> Inl ''invalid address''
      | Inr i \<Rightarrow>
          if Address (localPeer d) = addr then Inr d
          else (let p = \<lparr>ID = i, Address = addr, OnionAddr = onion, LastSeen = now, Failures = 0\<rparr>;
                    hit = (\<lambda>q. Address q = addr)
                in if list_ex hit (localIdentities d)
                   then Inr (d\<lparr>localIdentities := update_first hit (\<lambda>_. p) (localIdentities d)\<rparr>)
                   else Inr (d\<lparr>localIdentities := localIdentities d @ [p]\<rparr>)))"

definition RemoveLocalIdentity :: "dht \<Rightarrow> string \<Rightarrow> dht \<times> bool" where
  "RemoveLocalIdentity d addr =
     (let hit = (\<lambda>q. Address q = addr)
      in (d\<lparr>localIdentities := remove_first hit (localIdentities d)\<rparr>,
          list_ex hit (localIdentities d)))"

definition localIdentitiesSnapshot :: "time \<Rightarrow> dht \<Rightarrow> peer_info list" where
  "localIdentitiesSnapshot now d = map (\<lambda>p. p\<lparr>LastSeen := now\<rparr>) (localIdentities d)"

section \<open>Requests sent to other nodes\<close>

definition sendFindNode ::
  "'w network \<Rightarrow> 'w \<Rightarrow> dht \<Rightarrow> string \<Rightarrow> node_id \<Rightarrow> 'w \<times> peer_info list res" where
  "sendFindNode N w d onion target =
     (case find_rpc N w onion target of
        (w', Inl e) \<Rightarrow> (w', Inl e)
      | (w', Inr rs) \<Rightarrow>
          (w', Inr (filter (\<lambda>p. \<not> isExpired (clock N w') d p) (List.map_filter recordToPeerInfo rs))))"

definition add_found :: "time \<Rightarrow> (peer_info \<Rightarrow> node_id) \<Rightarrow> dht \<Rightarrow> peer_info list \<Rightarrow> dht" where
  "add_found now src d ps =
     d\<lparr>rt := foldl (\<lambda>t p. fst (AddPeer now t p (src p))) (rt d) ps\<rparr>"

definition Bootstrap :: "'w network \<Rightarrow> 'w \<Rightarrow> dht \<Rightarrow> string \<Rightarrow> 'w \<times> dht \<times> nat res" where
  "Bootstrap N w d onion =
     (case sendFindNode N w d onion (ID (localPeer d)) of
        (w', Inl e) \<Rightarrow> (w', d, Inl ''bootstrap find_node'')
      | (w', Inr ps) \<Rightarrow> (w', add_found (clock N w') ID d ps, Inr (length ps)))"

definition sendPutRecord ::
  "'w network \<Rightarrow> 'w \<Rightarrow> dht \<Rightarrow> peer_info \<Rightarrow> peer_info \<Rightarrow> 'w \<times> dht \<times> bool" where
  "sendPutRecord N w d target ident =
     (case put_rpc N w (OnionAddr target) (peerInfoToRecord ident) of
        (w', PutFailed) \<Rightarrow> (w', d, False)
      | (w', PutNoResponse) \<Rightarrow> (w', d, True)
      | (w', PutResponse rs) \<Rightarrow>
          (w', add_found (clock N w') (\<lambda>_. ID target) d (List.map_filter recordToPeerInfo rs), True))"

text \<open>The loop over the closest peers of one identity; counts the successes.\<close>

fun announce_to ::
  "'w network \<Rightarrow> peer_info \<Rightarrow> peer_info list \<Rightarrow> 'w \<Rightarrow> dht \<Rightarrow> nat \<Rightarrow> 'w \<times> dht \<times> nat" where
  "announce_to N ident [] w d n = (w, d, n)"
| "announce_to N ident (peer # peers) w d n =
     (case sendPutRecord N w d peer ident of
        (w', d', True) \<Rightarrow>
          announce_to N ident peers w' (d'\<lparr>rt := RecordSuccess (rt d') (OnionAddr peer)\<rparr>) (Suc n)
      | (w', d', False) \<Rightarrow>
          announce_to N ident peers w' (d'\<lparr>rt := fst (RecordFailure (rt d') (OnionAddr peer))\<rparr>) n)"

fun announce_all ::
  "'w network \<Rightarrow> peer_info list \<Rightarrow> 'w \<Rightarrow> dht \<Rightarrow> bool \<Rightarrow> string option \<Rightarrow> 'w \<times> dht \<times> bool \<times> string option" where
  "announce_all N [] w d ok err = (w, d, ok, err)"
| "announce_all N (ident # idents) w d ok err =
     (let closest = FindClosest (rt d) (ID ident) K
      in if closest = []
         then announce_all N idents w d ok (Some ''no peers in routing table to announce to'')
         else (case announce_to N ident closest w d 0 of
                 (w', d', succeeded) \<Rightarrow>
                   if succeeded > 0 then announce_all N idents w' d' True err
                   else announce_all N idents w' d' ok (Some ''announce failed: all peers unreachable'')))"

definition Announce :: "'w network \<Rightarrow> 'w \<Rightarrow> dht \<Rightarrow> 'w \<times> dht \<times> unit res" where
  "Announce N w d =
     (let now = clock N w;
          d0 = d\<lparr>localPeer := (localPeer d)\<lparr>LastSeen := now\<rparr>\<rparr>;
          idents = localPeer d0 # localIdentitiesSnapshot now d0
      in case announce_all N idents w d0 False None of
           (w', d', ok, err) \<Rightarrow>
             (let d'' = d'\<lparr>rt := fst (EvictByFailures (rt d') (failureThreshold d'))\<rparr>
              in if ok then (w', d'', Inr ())
                 else (case err of
                         Some e \<Rightarrow> (w', d'', Inl e)
                       | None \<Rightarrow> (w', d'', Inl ''no identities to announce''))))"

section \<open>Iterative lookup\<close>

datatype lookup_result = Found peer_info | NotFound | ContextDone | BadAddress

text \<open>
  The state of the loop: world, table, the set of queried nodes (in the order they were queried)
  and whether the round made progress. Each level returns \<open>Inl\<close> when the whole lookup
  returns.
\<close>

record 'w lookup =
  lk_world :: 'w
  lk_dht :: dht
  queried :: "node_id list"
  progressed :: bool

fun lookup_records :: "time \<Rightarrow> string \<Rightarrow> node_id \<Rightarrow> dht \<Rightarrow> peer_info list \<Rightarrow> dht \<times> peer_info option" where
  "lookup_records now addr src d [] = (d, None)"
| "lookup_records now addr src d (found # fs) =
     (if Address found = addr \<and> \<not> isExpired now d found then (d, Some found)
      else lookup_records now addr src (d\<lparr>rt := fst (AddPeer now (rt d) found src)\<rparr>) fs)"

fun lookup_candidates ::
  "'w network \<Rightarrow> string \<Rightarrow> node_id \<Rightarrow> peer_info list \<Rightarrow> 'w lookup \<Rightarrow> 'w lookup \<times> lookup_result option" where
  "lookup_candidates N addr target [] s = (s, None)"
| "lookup_candidates N addr target (peer # peers) s =
     (if ctx_done N (lk_world s) then (s, Some ContextDone)
      else if ID peer \<in> set (queried s) then lookup_candidates N addr target peers s
      else (let s1 = s\<lparr>queried := queried s @ [ID peer], progressed := True\<rparr>
            in case sendFindNode N (lk_world s) (lk_dht s) (OnionAddr peer) target of
                 (w', Inl e) \<Rightarrow> lookup_candidates N addr target peers (s1\<lparr>lk_world := w'\<rparr>)
               | (w', Inr ps) \<Rightarrow>
                   (case lookup_records (clock N w') addr (ID peer) (lk_dht s) ps of
                      (d', Some p) \<Rightarrow> (s1\<lparr>lk_world := w', lk_dht := d'\<rparr>, Some (Found p))
                    | (d', None) \<Rightarrow>
                        lookup_candidates N addr target peers
                          (s1\<lparr>lk_world := w', lk_dht := d'\<rparr>))))"

fun lookup_rounds ::
  "'w network \<Rightarrow> string \<Rightarrow> node_id \<Rightarrow> nat \<Rightarrow> 'w lookup \<Rightarrow> 'w lookup \<times> lookup_result" where
  "lookup_rounds N addr target 0 s = (s, NotFound)"
| "lookup_rounds N addr target (Suc n) s =
     (case lookup_candidates N addr target (FindClosest (rt (lk_dht s)) target K)
             (s\<lparr>progressed := False\<rparr>) of
        (s', Some r) \<Rightarrow> (s', r)
      | (s', None) \<Rightarrow> if \<not> progressed s' then (s', NotFound) else lookup_rounds N addr target n s')"

definition Lookup ::
  "hashes \<Rightarrow> 'w network \<Rightarrow> 'w \<Rightarrow> dht \<Rightarrow> string \<Rightarrow> 'w lookup \<times> lookup_result" where
  "Lookup H N w d addr =
     (let s0 = \<lparr>lk_world = w, lk_dht = d, queried = [], progressed = False\<rparr>
      in case NodeIDFromAddress H addr of
           Inl e \<Rightarrow> (s0, BadAddress)
         | Inr target \<Rightarrow>
             (case find (\<lambda>p. Address p = addr \<and> \<not> isExpired (clock N w) d p)
                     (FindClosest (rt d) target K) of
                Some p \<Rightarrow> (s0, Found p)
              | None \<Rightarrow> lookup_rounds N addr target LookupMaxIterations s0))"

section \<open>Incoming requests\<close>

datatype dht_request = FindNodeReq bytes | PutRecordReq "peer_record option" | OtherReq

definition handleFindNode :: "time \<Rightarrow> dht \<Rightarrow> bytes \<Rightarrow> peer_record list" where
  "handleFindNode now d msg_target =
     (let target = (if length msg_target \<ge> IDLength then copy_fixed IDLength msg_target
                    else replicate IDLength 0);
          closest = FindClosest (rt d) target K;
          self = (localPeer d)\<lparr>LastSeen := now\<rparr>
      in peersToResponse (closest @ [self] @ localIdentitiesSnapshot now d))"

definition handlePutRecord :: "time \<Rightarrow> dht \<Rightarrow> peer_record option \<Rightarrow> dht \<times> peer_record list option" where
  "handlePutRecord now d r =
     (case recordToPeerInfo r of
        None \<Rightarrow> (d, None)
      | Some peer \<Rightarrow>
          if isExpired now d peer then (d, None)
          else (let d' = d\<lparr>rt := fst (AddPeer now (rt d) peer (ID peer))\<rparr>
                in (d', Some (peersToResponse (FindClosest (rt d') (ID peer) K)))))"

text \<open>\<open>HandleEnvelope\<close>: the request as decoded from the envelope; \<open>None\<close> when the
  payload does not decode. The result is the response written, if any.\<close>

definition HandleEnvelope :: "time \<Rightarrow> dht \<Rightarrow> dht_request option \<Rightarrow> dht \<times> peer_record list option" where
  "HandleEnvelope now d req =
     (case req of
        None \<Rightarrow> (d, None)
      | Some (FindNodeReq target) \<Rightarrow> (d, Some (handleFindNode now d target))
      | Some (PutRecordReq r) \<Rightarrow> handlePutRecord now d r
      | Some OtherReq \<Rightarrow> (d, None))"

end
