(* ===== verification/Dht_Props.thy ===== *)
theory Dht_Props
  imports Dht
begin

text \<open>
  Correctness of the DHT layer: the invariant \<open>dht_inv\<close> (routing table and local
  identities) is kept by announcing, bootstrapping, looking up and serving requests; a lookup
  asks every node at most once, at most 400 in all, and returns only fresh records for the
  address; a stored record is found again; an unreachable peer is dropped.
\<close>

section \<open>Invariant\<close>

definition idents_ok :: "dht \<Rightarrow> bool" where
  "idents_ok d \<longleftrightarrow>
     distinct (map Address (localIdentities d)) \<and>
     (\<forall>p \<in> set (localIdentities d). Address p \<noteq> Address (localPeer d) \<and> wf_id (ID p))"

definition dht_inv :: "dht \<Rightarrow> bool" where
  "dht_inv d \<longleftrightarrow> rt_inv (rt d) \<and> wf_id (ID (localPeer d)) \<and> idents_ok d"

lemma dht_inv_rt_update: "dht_inv d \<Longrightarrow> rt_inv t \<Longrightarrow> dht_inv (d\<lparr>rt := t\<rparr>)"
  by (simp add: dht_inv_def idents_ok_def)

lemma dht_invD: "dht_inv d \<Longrightarrow> rt_inv (rt d)"
  by (simp add: dht_inv_def)

lemma recordToPeerInfo_wf: "recordToPeerInfo r = Some p \<Longrightarrow> wf_id (ID p)"
  by (auto simp: recordToPeerInfo_def wf_id_def split: option.splits if_splits)

lemma map_filter_wf: "p \<in> set (List.map_filter recordToPeerInfo rs) \<Longrightarrow> wf_id (ID p)"
  by (induction rs) (auto simp: recordToPeerInfo_wf split: option.splits)

lemma sendFindNode_ok:
  "sendFindNode N w d onion t = (w', Inr ps) \<Longrightarrow> p \<in> set ps \<Longrightarrow>
     wf_id (ID p) \<and> \<not> isExpired (clock N w') d p"
  by (auto simp: sendFindNode_def map_filter_wf split: prod.splits sum.splits)

lemma rt_inv_add_found:
  "rt_inv (rt d) \<Longrightarrow> \<forall>p \<in> set ps. wf_id (ID p) \<Longrightarrow> rt_inv (rt (add_found now src d ps))"
  using rtab.add_all_inv[of "rt d" ps now src] by (simp add: add_found_def rtab.add_all_def)

lemma dht_inv_add_found:
  "dht_inv d \<Longrightarrow> \<forall>p \<in> set ps. wf_id (ID p) \<Longrightarrow> dht_inv (add_found now src d ps)"
  using rt_inv_add_found[of d ps now src] by (simp add: add_found_def dht_inv_rt_update dht_invD)

subsection \<open>Local identities\<close>

lemma idents_ok_update:
  assumes "idents_ok d" and "wf_id (ID p)"
  shows "idents_ok (d\<lparr>localIdentities := update_first (\<lambda>q. Address q = Address p) (\<lambda>_. p) (localIdentities d)\<rparr>)"
proof -
  have "map Address (update_first (\<lambda>q. Address q = Address p) (\<lambda>_. p) xs) = map Address xs" for xs
    by (induction xs) auto
  moreover have "Address q \<noteq> Address (localPeer d) \<and> wf_id (ID q)"
    if "q \<in> set (update_first (\<lambda>q. Address q = Address p) (\<lambda>_. p) (localIdentities d))" for q
    using that set_update_first[of "\<lambda>q. Address q = Address p" "\<lambda>_. p" "localIdentities d"] assms
    by (auto simp: idents_ok_def)
  ultimately show ?thesis using assms(1) by (simp add: idents_ok_def)
qed

lemma dht_inv_AddLocalIdentity:
  assumes "dht_inv d" and "AddLocalIdentity H now d addr onion = Inr d'"
  shows "dht_inv d'"
proof -
  obtain i where i: "NodeIDFromAddress H addr = Inr i"
    using assms(2) by (auto simp: AddLocalIdentity_def split: sum.splits)
  let ?p = "\<lparr>ID = i, Address = addr, OnionAddr = onion, LastSeen = now, Failures = 0\<rparr>"
  have wf: "wf_id (ID ?p)" using wf_NodeIDFromAddress[OF i] by simp
  have fresh: "\<not> list_ex (\<lambda>q. Address q = addr) (localIdentities d) \<Longrightarrow> Address (localPeer d) \<noteq> addr \<Longrightarrow>
      idents_ok (d\<lparr>localIdentities := localIdentities d @ [?p]\<rparr>)"
    using assms(1) wf by (auto simp: dht_inv_def idents_ok_def list_ex_iff)
  have "idents_ok d'"
    using assms idents_ok_update[of d ?p, OF _ wf] fresh i
    by (auto simp: AddLocalIdentity_def Let_def dht_inv_def split: if_splits)
  moreover have "rt d' = rt d" "localPeer d' = localPeer d"
    using assms(2) by (auto simp: AddLocalIdentity_def Let_def split: sum.splits if_splits)
  ultimately show ?thesis using assms(1) by (simp add: dht_inv_def)
qed

lemma dht_inv_RemoveLocalIdentity: "dht_inv d \<Longrightarrow> dht_inv (fst (RemoveLocalIdentity d addr))"
  using set_remove_first_subset[of "\<lambda>q. Address q = addr" "localIdentities d"]
  by (auto simp: RemoveLocalIdentity_def dht_inv_def idents_ok_def Let_def distinct_map_remove_first)

lemma RemoveLocalIdentity_gone:
  assumes "dht_inv d"
  shows "\<forall>p \<in> set (localIdentities (fst (RemoveLocalIdentity d addr))). Address p \<noteq> addr"
proof -
  have "distinct (map Address (localIdentities d))" using assms by (simp add: dht_inv_def idents_ok_def)
  from remove_first_unique[OF this, of addr] show ?thesis
    by (simp add: RemoveLocalIdentity_def Let_def)
qed

subsection \<open>Announcing and bootstrapping\<close>

lemma dht_inv_sendPutRecord:
  "dht_inv d \<Longrightarrow> dht_inv (fst (snd (sendPutRecord N w d target ident)))"
  using map_filter_wf by (auto simp: sendPutRecord_def dht_inv_add_found split: prod.splits put_outcome.splits)

lemma sendPutRecord_frame:
  "failureThreshold (fst (snd (sendPutRecord N w d target ident))) = failureThreshold d"
  by (auto simp: sendPutRecord_def add_found_def split: prod.splits put_outcome.splits)

lemma dht_inv_announce_to:
  "dht_inv d \<Longrightarrow> dht_inv (fst (snd (announce_to N ident peers w d n)))"
proof (induction peers arbitrary: w d n)
  case (Cons p peers)
  obtain w' d' b where r: "sendPutRecord N w d p ident = (w', d', b)" by (cases "sendPutRecord N w d p ident")
  then have "dht_inv d'" using dht_inv_sendPutRecord[OF Cons.prems, of N w p ident] by simp
  then show ?case
    using r by (cases b) (simp_all add: Cons.IH dht_inv_rt_update inv_intros dht_invD)
qed simp

lemma dht_inv_announce_all:
  "dht_inv d \<Longrightarrow> dht_inv (fst (snd (announce_all N idents w d ok err)))"
proof (induction idents arbitrary: w d ok err)
  case (Cons i idents)
  obtain w' d' n where r: "announce_to N i (FindClosest (rt d) (ID i) K) w d 0 = (w', d', n)"
    by (cases "announce_to N i (FindClosest (rt d) (ID i) K) w d 0")
  then have "dht_inv d'" using dht_inv_announce_to[OF Cons.prems, of N i _ w 0] by (metis fst_conv snd_conv)
  then show ?case using r Cons by (auto simp: Let_def)
qed simp

lemma Announce_dht:
  "\<exists>d'. dht_inv d \<longrightarrow> dht_inv d' \<and>
     fst (snd (Announce N w d)) = d'\<lparr>rt := fst (EvictByFailures (rt d') (failureThreshold d'))\<rparr>"
proof -
  let ?d = "d\<lparr>localPeer := (localPeer d)\<lparr>LastSeen := clock N w\<rparr>\<rparr>"
  let ?r = "announce_all N (localPeer ?d # localIdentitiesSnapshot (clock N w) ?d) w ?d False None"
  have "dht_inv d \<Longrightarrow> dht_inv ?d" by (simp add: dht_inv_def idents_ok_def)
  then have "dht_inv d \<Longrightarrow> dht_inv (fst (snd ?r))" by (rule dht_inv_announce_all)
  then show ?thesis
    by (intro exI[of _ "fst (snd ?r)"])
      (auto simp: Announce_def Let_def split: prod.splits option.splits simp del: announce_all.simps)
qed

lemma dht_inv_Bootstrap: "dht_inv d \<Longrightarrow> dht_inv (fst (snd (Bootstrap N w d onion)))"
  by (auto simp: Bootstrap_def dest: sendFindNode_ok intro!: dht_inv_add_found
      split: prod.splits sum.splits)

subsection \<open>Serving requests\<close>

lemma dht_inv_HandleEnvelope: "dht_inv d \<Longrightarrow> dht_inv (fst (HandleEnvelope now d req))"
  by (auto simp: HandleEnvelope_def handlePutRecord_def Let_def dht_inv_rt_update inv_intros dht_invD
      dest: recordToPeerInfo_wf split: option.splits dht_request.splits)

section \<open>Lookup\<close>

text \<open>What the loop keeps: the invariant of the DHT, its TTL, and a list of queried nodes without
  repetition.\<close>

definition lookup_ok :: "duration \<Rightarrow> 'w lookup \<Rightarrow> bool" where
  "lookup_ok ttl s \<longleftrightarrow> dht_inv (lk_dht s) \<and> recordTTL (lk_dht s) = ttl \<and> distinct (queried s)"

definition good_result :: "duration \<Rightarrow> string \<Rightarrow> lookup_result \<Rightarrow> bool" where
  "good_result ttl addr r \<longleftrightarrow>
     (\<forall>p. r = Found p \<longrightarrow>
        Address p = addr \<and> wf_id (ID p) \<and> (\<exists>now. time_sub now (LastSeen p) \<le> ttl))"

lemma lookup_records_ok:
  "\<lbrakk> dht_inv d; \<forall>p \<in> set ps. wf_id (ID p); lookup_records now addr src d ps = (d', r) \<rbrakk> \<Longrightarrow>
     dht_inv d' \<and> recordTTL d' = recordTTL d \<and>
     (\<forall>p. r = Some p \<longrightarrow> p \<in> set ps \<and> Address p = addr \<and> time_sub now (LastSeen p) \<le> recordTTL d)"
proof (induction ps arbitrary: d)
  case (Cons f fs)
  have inv: "dht_inv (d\<lparr>rt := fst (AddPeer now (rt d) f src)\<rparr>)"
    using Cons.prems by (simp add: dht_inv_rt_update inv_intros dht_invD)
  show ?case
  proof (cases "Address f = addr \<and> \<not> isExpired now d f")
    case True
    with Cons.prems show ?thesis by (auto simp: isExpired_def)
  next
    case False
    with Cons.IH[OF inv] Cons.prems show ?thesis by auto
  qed
qed simp

lemma lookup_candidates_ok:
  "\<lbrakk> lookup_ok ttl s; lookup_candidates N addr t ps s = (s', r) \<rbrakk> \<Longrightarrow>
     lookup_ok ttl s' \<and> (\<forall>x. r = Some x \<longrightarrow> good_result ttl addr x) \<and>
     (\<exists>new. queried s' = queried s @ new \<and> length new \<le> length ps)"
proof (induction ps arbitrary: s)
  case (Cons p ps)
  show ?case
  proof (cases "ctx_done N (lk_world s) \<or> ID p \<in> set (queried s)")
    case True
    show ?thesis
    proof (cases "ctx_done N (lk_world s)")
      case True
      with Cons.prems have "s' = s" "r = Some ContextDone" by auto
      with Cons.prems show ?thesis by (simp add: good_result_def)
    next
      case False
      with True Cons.prems have "lookup_candidates N addr t ps s = (s', r)" by simp
      from Cons.IH[OF Cons.prems(1) this] show ?thesis by (auto intro: le_SucI)
    qed
  next
    case False
    let ?s1 = "s\<lparr>queried := queried s @ [ID p], progressed := True\<rparr>"
    obtain w' res where send: "sendFindNode N (lk_world s) (lk_dht s) (OnionAddr p) t = (w', res)"
      by (cases "sendFindNode N (lk_world s) (lk_dht s) (OnionAddr p) t")
    have ok1: "lookup_ok ttl (?s1\<lparr>lk_world := w'\<rparr>)"
      using Cons.prems False by (auto simp: lookup_ok_def)
    show ?thesis
    proof (cases res)
      case (Inl e)
      with False send Cons.prems
      have "lookup_candidates N addr t ps (?s1\<lparr>lk_world := w'\<rparr>) = (s', r)" by simp
      from Cons.IH[OF ok1 this] show ?thesis by auto
    next
      case (Inr qs)
      obtain d' hit where rec: "lookup_records (clock N w') addr (ID p) (lk_dht s) qs = (d', hit)"
        by (cases "lookup_records (clock N w') addr (ID p) (lk_dht s) qs")
      have wf: "\<forall>q \<in> set qs. wf_id (ID q)" using sendFindNode_ok[of N _ _ _ t w' qs] send Inr by auto
      note r = lookup_records_ok[OF _ wf rec]
      have inv: "dht_inv (lk_dht s)" and ttl: "recordTTL (lk_dht s) = ttl"
        using Cons.prems by (auto simp: lookup_ok_def)
      have ok2: "lookup_ok ttl (?s1\<lparr>lk_world := w', lk_dht := d'\<rparr>)"
        using ok1 r[OF inv] ttl by (simp add: lookup_ok_def)
      show ?thesis
      proof (cases hit)
        case None
        with False send Inr rec Cons.prems
        have "lookup_candidates N addr t ps (?s1\<lparr>lk_world := w', lk_dht := d'\<rparr>) = (s', r)" by simp
        from Cons.IH[OF ok2 this] show ?thesis by auto
      next
        case (Some x)
        with False send Inr rec Cons.prems
        have "s' = ?s1\<lparr>lk_world := w', lk_dht := d'\<rparr>" "r = Some (Found x)" by auto
        with ok2 r[OF inv] Some wf ttl show ?thesis by (auto simp: good_result_def)
      qed
    qed
  qed
qed auto

lemma lookup_rounds_ok:
  "\<lbrakk> lookup_ok ttl s; lookup_rounds N addr t n s = (s', r) \<rbrakk> \<Longrightarrow>
     lookup_ok ttl s' \<and> good_result ttl addr r \<and> length (queried s') \<le> length (queried s) + n * K"
proof (induction n arbitrary: s)
  case 0
  then show ?case by (auto simp: good_result_def)
next
  case (Suc n)
  obtain s1 x where c: "lookup_candidates N addr t (FindClosest (rt (lk_dht s)) t K)
      (s\<lparr>progressed := False\<rparr>) = (s1, x)"
    by (cases "lookup_candidates N addr t (FindClosest (rt (lk_dht s)) t K) (s\<lparr>progressed := False\<rparr>)")
  have "lookup_ok ttl (s\<lparr>progressed := False\<rparr>)" using Suc.prems by (simp add: lookup_ok_def)
  note ok1 = lookup_candidates_ok[OF this c]
  then have len: "length (queried s1) \<le> length (queried s) + K"
    by (auto simp: FindClosest_length)
  show ?case
  proof (cases x)
    case (Some y)
    with c Suc.prems ok1 len show ?thesis by auto
  next
    case None
    show ?thesis
    proof (cases "progressed s1")
      case True
      with None c Suc.prems have "lookup_rounds N addr t n s1 = (s', r)" by simp
      from Suc.IH[OF _ this] ok1 len show ?thesis by auto
    next
      case False
      with None c Suc.prems ok1 len show ?thesis by (auto simp: good_result_def)
    qed
  qed
qed

lemma Lookup_ok:
  assumes "dht_inv d" and "Lookup H N w d addr = (s, r)"
  shows "lookup_ok (recordTTL d) s \<and> good_result (recordTTL d) addr r \<and> length (queried s) \<le> 400"
proof -
  let ?s0 = "\<lparr>lk_world = w, lk_dht = d, queried = [], progressed = False\<rparr>"
  have ok0: "lookup_ok (recordTTL d) ?s0" using assms(1) by (simp add: lookup_ok_def)
  show ?thesis
  proof (cases "NodeIDFromAddress H addr")
    case (Inl e)
    with assms ok0 show ?thesis by (auto simp: Lookup_def Let_def good_result_def)
  next
    case (Inr t)
    let ?hit = "\<lambda>p. Address p = addr \<and> \<not> isExpired (clock N w) d p"
    show ?thesis
    proof (cases "find ?hit (FindClosest (rt d) t K)")
      case None
      with Inr assms have "lookup_rounds N addr t LookupMaxIterations ?s0 = (s, r)"
        by (simp add: Lookup_def Let_def)
      from lookup_rounds_ok[OF ok0 this] show ?thesis by (simp add: LookupMaxIterations_def K_def)
    next
      case (Some p)
      with Inr assms have sr: "s = ?s0" "r = Found p" by (auto simp: Lookup_def Let_def)
      from find_Some_mem[OF Some] have p: "p \<in> set (FindClosest (rt d) t K)" "?hit p" by auto
      then have "wf_id (ID p)"
        using FindClosest_subset AllPeers_bucket(1) dht_invD[OF assms(1)] by blast
      with p sr ok0 show ?thesis by (auto simp: good_result_def isExpired_def not_less)
    qed
  qed
qed

subsection \<open>A candidate that knows the record is enough\<close>

definition answers :: "'w network \<Rightarrow> duration \<Rightarrow> string \<Rightarrow> node_id \<Rightarrow> string \<Rightarrow> bool" where
  "answers N ttl onion t addr \<longleftrightarrow>
     (\<forall>w. \<exists>w' rs r p. find_rpc N w onion t = (w', Inr rs) \<and> r \<in> set rs \<and>
        recordToPeerInfo r = Some p \<and> Address p = addr \<and> time_sub (clock N w') (LastSeen p) \<le> ttl)"

lemma map_filter_mem: "r \<in> set rs \<Longrightarrow> f r = Some p \<Longrightarrow> p \<in> set (List.map_filter f rs)"
  by (induction rs) (auto split: option.split)

lemma answers_sendFindNode:
  assumes "answers N (recordTTL d) onion t addr"
  shows "\<exists>w' ps p. sendFindNode N w d onion t = (w', Inr ps) \<and> p \<in> set ps \<and> Address p = addr \<and>
     time_sub (clock N w') (LastSeen p) \<le> recordTTL d"
proof -
  obtain w' rs r p where
    "find_rpc N w onion t = (w', Inr rs)" "r \<in> set rs" "recordToPeerInfo r = Some p"
    "Address p = addr" "time_sub (clock N w') (LastSeen p) \<le> recordTTL d"
    using assms unfolding answers_def by blast
  then show ?thesis
    using map_filter_mem[of r rs recordToPeerInfo p]
    by (intro exI[of _ w'] exI[of _ "filter (\<lambda>p. \<not> isExpired (clock N w') d p)
          (List.map_filter recordToPeerInfo rs)"] exI[of _ p])
       (auto simp: sendFindNode_def isExpired_def)
qed

lemma lookup_records_hit:
  "\<lbrakk> p \<in> set ps; Address p = addr; time_sub now (LastSeen p) \<le> recordTTL d \<rbrakk> \<Longrightarrow>
     \<exists>d' q. lookup_records now addr src d ps = (d', Some q)"
proof (induction ps arbitrary: d)
  case (Cons f fs)
  then show ?case by (cases "Address f = addr \<and> \<not> isExpired now d f") (auto simp: isExpired_def)
qed simp

lemma lookup_candidates_hit:
  "\<lbrakk> \<forall>w. \<not> ctx_done N w; lookup_ok ttl s; c \<in> set ps; ID c \<notin> set (queried s);
     answers N ttl (OnionAddr c) t addr; inj_on ID (set ps) \<rbrakk> \<Longrightarrow>
     \<exists>s' q. lookup_candidates N addr t ps s = (s', Some (Found q))"
proof (induction ps arbitrary: s)
  case (Cons p ps)
  let ?s1 = "s\<lparr>queried := queried s @ [ID p], progressed := True\<rparr>"
  have ttl: "recordTTL (lk_dht s) = ttl" using Cons.prems(2) by (simp add: lookup_ok_def)
  obtain w' res where send: "sendFindNode N (lk_world s) (lk_dht s) (OnionAddr p) t = (w', res)"
    by (cases "sendFindNode N (lk_world s) (lk_dht s) (OnionAddr p) t")
  show ?case
  proof (cases "p = c")
    case True
    obtain qs q where qs: "res = Inr qs" "q \<in> set qs" "Address q = addr"
      "time_sub (clock N w') (LastSeen q) \<le> recordTTL (lk_dht s)"
      using answers_sendFindNode[of N "lk_dht s" "OnionAddr c" t addr "lk_world s"]
        Cons.prems(5) ttl send True by auto
    obtain d' x where "lookup_records (clock N w') addr (ID p) (lk_dht s) qs = (d', Some x)"
      using lookup_records_hit[OF qs(2,3,4)] by blast
    with True Cons.prems(1,4) send qs show ?thesis by simp
  next
    case False
    then have c: "c \<in> set ps" and ne: "ID p \<noteq> ID c"
      using Cons.prems(3,6) by (auto simp: inj_on_def)
    have inj: "inj_on ID (set ps)" using Cons.prems(6) by (simp add: inj_on_def)
    show ?thesis
    proof (cases "\<exists>x. snd (lookup_candidates N addr t (p # ps) s) = Some (Found x)")
      case True
      then show ?thesis by (metis prod.collapse)
    next
      case miss: False
      show ?thesis
      proof (cases "ID p \<in> set (queried s)")
        case True
        with Cons.IH[OF Cons.prems(1,2) c Cons.prems(4,5) inj] Cons.prems(1) show ?thesis by simp
      next
        case new: False
        have one: "lookup_ok ttl (fst (lookup_candidates N addr t [p] s)) \<and>
            ID c \<notin> set (queried (fst (lookup_candidates N addr t [p] s)))"
        proof -
          have "queried (fst (lookup_candidates N addr t [p] s)) = queried s @ [ID p]"
            using Cons.prems(1) new send
            by (auto simp: Let_def split: sum.splits prod.splits option.splits)
          then show ?thesis
            using lookup_candidates_ok[OF Cons.prems(2), of N addr t "[p]"] Cons.prems(4) ne
            by (metis prod.collapse Un_iff empty_iff empty_set insert_iff list.simps(15) set_append)
        qed
        have step: "lookup_candidates N addr t (p # ps) s =
            lookup_candidates N addr t ps (fst (lookup_candidates N addr t [p] s))"
          using miss Cons.prems(1) new send
          by (auto simp: Let_def split: sum.splits prod.splits option.splits)
        show ?thesis unfolding step using one Cons.IH[OF Cons.prems(1) _ c _ Cons.prems(5) inj] by blast
      qed
    qed
  qed
qed simp

section \<open>Stored records\<close>

lemma view_AddPeer_accepted:
  assumes inv: "rt_inv t" and wf: "wf_id (ID p)" and acc: "snd (AddPeer now t p s)"
  shows "view (fst (AddPeer now t p s)) (ID p) = Some (merge_peer (view t (ID p)) p)"
proof -
  let ?i = "CommonPrefixLen (local_id t) (ID p)"
  have ne: "ID p \<noteq> local_id t" using acc by (auto simp: AddPeer_def)
  then have i: "?i < NumBuckets" using CommonPrefixLen_less_iff[OF rt_invD(1)[OF inv] wf] by simp
  show ?thesis
  proof (cases "find (\<lambda>q. ID q = ID p) (buckets t ! ?i)")
    case None
    have "view t (ID p) = None" using i None by (simp add: view_bucket[OF inv])
    with AddPeer_new(3)[OF inv ne i None wf acc] show ?thesis by (simp add: merge_peer_def)
  next
    case (Some q)
    have "view t (ID p) = Some q" using i Some by (simp add: view_bucket[OF inv])
    with AddPeer_known(2)[OF inv ne i Some wf] show ?thesis by simp
  qed
qed

lemma Distance_zero_value: "be_value (Distance a a) = 0"
proof -
  have "be_value (replicate n 0) = 0" for n by (induction n) auto
  then show ?thesis by (simp add: Distance_self)
qed

lemma FindClosest_exact:
  assumes "rt_inv t" and "view t k = Some p" and "0 < n"
  shows "p \<in> set (FindClosest t k n)"
proof (rule ccontr)
  assume out: "p \<notin> set (FindClosest t k n)"
  have p: "p \<in> set (AllPeers t)" "ID p = k" using assms(1,2) by (auto simp: view_Some_iff)
  then have "0 < Size t" by (auto simp: Size_AllPeers)
  then have "FindClosest t k n \<noteq> []"
    using assms(3) FindClosest_length[of t k n] by auto
  then obtain q where "q \<in> set (FindClosest t k n)" by (meson list.set_sel(1))
  from FindClosest_optimal[OF assms(1) this p(1) out] show False
    by (simp add: closer_iff p(2) Distance_zero_value)
qed

lemma recordToPeerInfo_Some:
  assumes "recordToPeerInfo (Some r) = Some p"
  shows "ID p = copy_fixed IDLength (NodeId r)" "IDLength \<le> length (NodeId r)"
    "Address p = rec_Address r" "OnionAddr p = OnionAddress r"
    "LastSeen p = time_of_millis (Timestamp r)" "Failures p = 0"
  using assms by (auto simp: recordToPeerInfo_def split: if_splits)

section \<open>Properties\<close>

text \<open>Every way the daemon drives the DHT layer.\<close>

inductive dht_reach :: "hashes \<Rightarrow> dht \<Rightarrow> bool" for H where
  dht_new: "rt_inv t \<Longrightarrow> wf_id (ID p) \<Longrightarrow> dht_reach H (NewDHTDiscovery t p)"
| dht_serve: "dht_reach H d \<Longrightarrow> dht_reach H (fst (HandleEnvelope now d req))"
| dht_bootstrap: "dht_reach H d \<Longrightarrow> dht_reach H (fst (snd (Bootstrap (N :: unit network) w d onion)))"
| dht_announce: "dht_reach H d \<Longrightarrow> dht_reach H (fst (snd (Announce (N :: unit network) w d)))"
| dht_lookup: "dht_reach H d \<Longrightarrow> dht_reach H (lk_dht (fst (Lookup H (N :: unit network) w d addr)))"
| dht_add_ident: "dht_reach H d \<Longrightarrow> AddLocalIdentity H now d addr onion = Inr d' \<Longrightarrow> dht_reach H d'"
| dht_remove_ident: "dht_reach H d \<Longrightarrow> dht_reach H (fst (RemoveLocalIdentity d addr))"
| dht_threshold: "dht_reach H d \<Longrightarrow> dht_reach H (SetFailureThreshold d n)"


definition demo_addr :: string where "demo_addr = replicate 25 (CHR ''E'')"

definition demo_record :: peer_record where
  "demo_record = \<lparr>NodeId = replicate 20 0x45, rec_Address = demo_addr,
                  OnionAddress = ''target.onion'', Timestamp = 0\<rparr>"

definition demo_net :: "unit network" where
  "demo_net = \<lparr>clock = (\<lambda>_. 0), ctx_done = (\<lambda>_. False),
               find_rpc = (\<lambda>w _ _. (w, Inr [Some demo_record])),
               put_rpc = (\<lambda>w _ _. (w, PutFailed))\<rparr>"

definition demo_dht :: dht where
  "demo_dht = NewDHTDiscovery demo_table (demo_peer 0)"

lemma demo_dht_simps:
  "rt demo_dht = demo_table" "recordTTL demo_dht = RecordTTL" "localIdentities demo_dht = []"
  "failureThreshold demo_dht = 3"
  by (simp_all add: demo_dht_def NewDHTDiscovery_def AnnounceFailureThreshold_def)

lemma dht_inv_demo: "dht_inv demo_dht"
  by (simp add: dht_inv_def demo_dht_def NewDHTDiscovery_def rt_inv_demo_table idents_ok_def)

lemma FindClosest_demo: "FindClosest demo_table t K = [demo_peer 1]"
  using AllPeers_demo by (simp add: FindClosest_def AllPeers_def K_def)




text \<open>C7: a lookup succeeds when one of the \<open>K\<close> closest known nodes can answer: if the
  address is well formed, the context is not cancelled and some candidate of the first round
  returns a fresh record for the address, the lookup returns a record for it.\<close>

theorem Lookup_finds:
  assumes "dht_inv d" and "NodeIDFromAddress H addr = Inr t" and "\<forall>w. \<not> ctx_done N w"
    and "c \<in> set (FindClosest (rt d) t K)" and "answers N (recordTTL d) (OnionAddr c) t addr"
  shows "\<exists>p. snd (Lookup H N w d addr) = Found p \<and> Address p = addr"
proof -
  let ?s0 = "\<lparr>lk_world = w, lk_dht = d, queried = [], progressed = False\<rparr>"
  have "\<exists>p. snd (Lookup H N w d addr) = Found p"
  proof (cases "find (\<lambda>p. Address p = addr \<and> \<not> isExpired (clock N w) d p) (FindClosest (rt d) t K)")
    case (Some p)
    with assms(2) show ?thesis by (simp add: Lookup_def Let_def)
  next
    case None
    have inv: "rt_inv (rt d)" using assms(1) by (rule dht_invD)
    have "inj_on ID (set (FindClosest (rt d) t K))"
      using distinct_AllPeers[OF inv] FindClosest_subset[of "rt d" t K]
      by (auto simp: distinct_map intro: inj_on_subset)
    moreover have "lookup_ok (recordTTL d) ?s0" using assms(1) by (simp add: lookup_ok_def)
    ultimately obtain s' q where
      hit: "lookup_candidates N addr t (FindClosest (rt d) t K) ?s0 = (s', Some (Found q))"
      using lookup_candidates_hit[OF assms(3) _ assms(4) _ assms(5), of ?s0] by auto
    obtain n where n: "LookupMaxIterations = Suc n"
      by (simp add: LookupMaxIterations_def numeral_eq_Suc)
    have "snd (lookup_rounds N addr t LookupMaxIterations ?s0) = Found q"
      unfolding n using hit by simp
    with None assms(2) show ?thesis by (simp add: Lookup_def Let_def)
  qed
  then show ?thesis
    using Lookup_ok[OF assms(1), of H N w addr] by (metis good_result_def prod.collapse)
qed

theorem Lookup_finds_witness:
  "\<exists>p. snd (Lookup demo_hashes demo_net () demo_dht demo_addr) = Found p \<and> Address p = demo_addr"
proof -
  have t: "\<exists>t. NodeIDFromAddress demo_hashes demo_addr = Inr t"
    by (simp add: NodeIDFromAddress_def demo_hashes_def demo_addr_def)
  then obtain t where t: "NodeIDFromAddress demo_hashes demo_addr = Inr t" by blast
  have a: "answers demo_net (recordTTL demo_dht) (OnionAddr (demo_peer 1)) t demo_addr"
    by (auto simp: answers_def demo_net_def demo_dht_simps demo_record_def recordToPeerInfo_def
        IDLength_def time_of_millis_def RecordTTL_def go_time)
  show ?thesis
    using Lookup_finds[OF dht_inv_demo t _ _ a, of "()"]
    by (simp add: demo_dht_simps FindClosest_demo demo_net_def)
qed

text \<open>a stored record is found again. After a put request is accepted, the node's answer
  to a find request for that identifier contains a record with the identifier, onion address and
  timestamp that were put, and the address too when the identifier was new.\<close>

theorem put_then_find:
  assumes "dht_inv d" and "recordToPeerInfo (Some r) = Some p" and "\<not> isExpired now d p"
    and "snd (AddPeer now (rt d) p (ID p))"
  shows "\<exists>q \<in> set (handleFindNode later (fst (handlePutRecord now d (Some r))) (NodeId r)).
     NodeId q = ID p \<and> OnionAddress q = OnionAddress r \<and> Timestamp q = Timestamp r \<and>
     (\<not> member (rt d) (ID p) \<longrightarrow> rec_Address q = rec_Address r)"
proof -
  note p = recordToPeerInfo_Some[OF assms(2)]
  let ?t = "fst (AddPeer now (rt d) p (ID p))" and ?m = "merge_peer (view (rt d) (ID p)) p"
  have wf: "wf_id (ID p)" by (rule recordToPeerInfo_wf[OF assms(2)])
  have inv: "rt_inv ?t" using dht_invD[OF assms(1)] wf by (simp add: rt_inv_AddPeer)
  have v: "view ?t (ID p) = Some ?m"
    by (rule view_AddPeer_accepted[OF dht_invD[OF assms(1)] wf assms(4)])
  have m: "?m \<in> set (FindClosest ?t (ID p) K)" "ID ?m = ID p"
    using FindClosest_exact[OF inv v] v inv by (simp_all add: K_def view_Some_iff)
  have d': "fst (handlePutRecord now d (Some r)) = d\<lparr>rt := ?t\<rparr>"
    using assms(2,3) by (simp add: handlePutRecord_def Let_def)
  have "peerInfoToRecord ?m \<in> set (handleFindNode later (d\<lparr>rt := ?t\<rparr>) (NodeId r))"
    using m(1) p(1,2) by (simp add: handleFindNode_def peersToResponse_def Let_def)
  moreover have "NodeId (peerInfoToRecord ?m) = ID p" "OnionAddress (peerInfoToRecord ?m) = OnionAddress r"
    "Timestamp (peerInfoToRecord ?m) = Timestamp r"
    "\<not> member (rt d) (ID p) \<longrightarrow> rec_Address (peerInfoToRecord ?m) = rec_Address r"
    using m(2) p by (auto simp: peerInfoToRecord_def merge_peer_def view_None_iff[symmetric] split: option.split)
  ultimately show ?thesis unfolding d' by blast
qed

lemma AddPeer_demo_accepts:
  "snd (AddPeer 0 demo_table (demo_peer 1\<lparr>LastSeen := t, OnionAddr := x\<rparr>) s)"
  by (simp add: AddPeer_def demo_table_def CommonPrefixLen_demo NumBuckets_def Let_def)

theorem put_then_find_witness:
  "\<exists>q \<in> set (handleFindNode 0 (fst (handlePutRecord 0 demo_dht (Some
       \<lparr>NodeId = replicate 20 1, rec_Address = ''Epeer'', OnionAddress = ''new.onion'', Timestamp = 0\<rparr>)))
       (replicate 20 1)). OnionAddress q = ''new.onion''"
proof -
  let ?r = "\<lparr>NodeId = replicate 20 1, rec_Address = ''Epeer'', OnionAddress = ''new.onion'', Timestamp = 0\<rparr>"
  have p: "recordToPeerInfo (Some ?r) = Some (demo_peer 1\<lparr>LastSeen := 0, OnionAddr := ''new.onion''\<rparr>)"
    by (simp add: recordToPeerInfo_def IDLength_def copy_fixed_def time_of_millis_def demo_peer_def)
  have fresh: "\<not> isExpired 0 demo_dht (demo_peer 1\<lparr>LastSeen := 0, OnionAddr := ''new.onion''\<rparr>)"
    by (simp add: isExpired_def demo_dht_simps RecordTTL_def go_time)
  have acc: "snd (AddPeer 0 (rt demo_dht) (demo_peer 1\<lparr>LastSeen := 0, OnionAddr := ''new.onion''\<rparr>)
      (ID (demo_peer 1\<lparr>LastSeen := 0, OnionAddr := ''new.onion''\<rparr>)))"
    unfolding demo_dht_simps by (rule AddPeer_demo_accepts)
  show ?thesis using put_then_find[OF dht_inv_demo p fresh acc, of 0] by auto
qed

text \<open>after an announce no peer at or over the failure threshold is left in the table, and
  the invariant holds.\<close>

theorem Announce_drops_unreachable:
  assumes "dht_inv d" and "fst (snd (Announce N w d)) = d'" and "0 < failureThreshold d'"
  shows "dht_inv d' \<and> (\<forall>p \<in> set (AllPeers (rt d')). Failures p < failureThreshold d')"
proof -
  obtain e where "dht_inv e" and e: "d' = e\<lparr>rt := fst (EvictByFailures (rt e) (failureThreshold e))\<rparr>"
    using Announce_dht[of d N w] assms(1,2) by auto
  with assms(3) show ?thesis
    by (auto simp: dht_inv_rt_update inv_intros dht_invD AllPeers_ops(5))
qed

theorem Announce_drops_unreachable_witness:
  "0 < failureThreshold (fst (snd (Announce demo_net () demo_dht))) \<and>
   list_all (\<lambda>p. Failures p < 3) (AllPeers (rt (fst (snd (Announce demo_net () demo_dht)))))"
proof -
  let ?d = "fst (snd (Announce demo_net () demo_dht))"
  have th: "failureThreshold ?d = 3"
    by (simp add: Announce_def Let_def demo_dht_simps localIdentitiesSnapshot_def FindClosest_demo
        sendPutRecord_def demo_net_def)
  show ?thesis using Announce_drops_unreachable[OF dht_inv_demo, of demo_net "()" ?d] th
    by (simp add: list_all_iff)
qed

text \<open>a record dated after the year 9999 is accepted, is never stale before that date, and
  from then on no save of the routing table succeeds: the put request is not expired at any
  earlier time, and neither the disk nor an eviction pass changes that \<open>Save\<close> fails.\<close>

theorem future_record_blocks_save:
  assumes "dht_inv d" and "recordToPeerInfo (Some r) = Some p" and "0 \<le> recordTTL d"
    and "snd (AddPeer now (rt d) p (ID p))"
    and "253402300800000 \<le> sint (Timestamp r)" and "now < 253402300800 * second"
    and "later < 253402300800 * second"
  shows "rt_Save mk wr (fst (Evict later (rt (fst (handlePutRecord now d (Some r)))) maxAge)) =
     Inl ''marshalling routing table''"
proof -
  note p = recordToPeerInfo_Some[OF assms(2)]
  let ?t = "fst (AddPeer now (rt d) p (ID p))" and ?m = "merge_peer (view (rt d) (ID p)) p"
  have seen: "LastSeen ?m = LastSeen p" by (simp add: merge_peer_def split: option.split)
  have far: "253402300800 * second \<le> LastSeen p"
    using assms(5) by (simp add: p(5) time_of_millis_def go_time)
  have neg: "time_sub u (LastSeen p) \<le> 0" if "u < 253402300800 * second" for u
    using far that by (auto simp: time_sub_def)
  have "\<not> isExpired now d p" using neg[OF assms(6)] assms(3) by (simp add: isExpired_def)
  then have d': "rt (fst (handlePutRecord now d (Some r))) = ?t"
    using assms(2) by (simp add: handlePutRecord_def Let_def)
  have wf: "wf_id (ID p)" by (rule recordToPeerInfo_wf[OF assms(2)])
  have inv: "rt_inv ?t" using dht_invD[OF assms(1)] wf by (simp add: rt_inv_AddPeer)
  have "?m \<in> set (AllPeers ?t)"
    using view_AddPeer_accepted[OF dht_invD[OF assms(1)] wf assms(4)] inv by (simp add: view_Some_iff)
  moreover have "\<not> stale later maxAge ?m"
    using neg[OF assms(7)] far by (auto simp: stale_def seen go_time)
  ultimately have "?m \<in> set (AllPeers (fst (Evict later ?t maxAge)))" by (simp add: AllPeers_ops(2))
  moreover have "\<not> json_time_ok (LastSeen ?m)" using far by (simp add: json_time_ok_def seen)
  ultimately show ?thesis
    unfolding d' by (auto simp: rt_Save_def Let_def AllPeers_def[symmetric] list_all_iff)
qed

theorem future_record_blocks_save_witness:
  "rt_Save (Inr ()) (Inr ()) (fst (Evict 0 (rt (fst (handlePutRecord 0 demo_dht (Some
       \<lparr>NodeId = replicate 20 1, rec_Address = ''Epeer'', OnionAddress = ''new.onion'',
        Timestamp = 253402300800000\<rparr>)))) hour)) = Inl ''marshalling routing table''"
proof -
  let ?r = "\<lparr>NodeId = replicate 20 1, rec_Address = ''Epeer'', OnionAddress = ''new.onion'',
    Timestamp = 253402300800000\<rparr>"
  let ?p = "demo_peer 1\<lparr>LastSeen := 253402300800000000000, OnionAddr := ''new.onion''\<rparr>"
  have ts: "sint (253402300800000 :: i64) = 253402300800000" by simp
  have p: "recordToPeerInfo (Some ?r) = Some ?p"
    by (simp add: recordToPeerInfo_def IDLength_def copy_fixed_def time_of_millis_def demo_peer_def)
  have acc: "snd (AddPeer 0 (rt demo_dht) ?p (ID ?p))"
    unfolding demo_dht_simps by (rule AddPeer_demo_accepts)
  show ?thesis
    using future_record_blocks_save[OF dht_inv_demo p _ acc, of 0 "Inr ()" "Inr ()" hour]
    by (simp add: demo_dht_simps RecordTTL_def go_time)
qed

end
