(* ===== verification/Merkle.thy ===== *)
theory Merkle
  imports Go_Prelude
begin

text \<open>
  The Merkle tree over chunk hashes (\<open>src/internal/filetransfer/merkle.go\<close>): a heap-laid
  array built bottom-up, the proof of a leaf, and its verification. The hash function is the
  parameter \<open>sha\<close>; no property assumes more of it than the width of its output and, for
  soundness, that it does not collide on the strings hashed by the builder and the verifier.
\<close>

unbundle bit_operations_syntax

record merkle_tree =
  leaves :: "bytes list"
  nodes :: "bytes list"
  leafStart :: nat

section \<open>Operations\<close>

definition hashPair :: "(bytes \<Rightarrow> bytes) \<Rightarrow> bytes \<Rightarrow> bytes \<Rightarrow> bytes" where
  "hashPair sha left right = sha (left @ right)"

text \<open>\<open>for size < n { size *= 2 }\<close>, started at 2.\<close>

function pad_size :: "nat \<Rightarrow> nat \<Rightarrow> nat" where
  "pad_size n sz = (if sz < n \<and> 0 < sz then pad_size n (sz * 2) else sz)"
  by pat_completeness auto
termination
  by (relation "measure (\<lambda>(n, sz). n - sz)") auto

declare pad_size.simps [simp del]

text \<open>\<open>for i := size - 1; i >= 1; i-- { nodes[i] = hashPair(nodes[2*i], nodes[2*i+1]) }\<close>\<close>

fun build_up :: "(bytes \<Rightarrow> bytes) \<Rightarrow> nat \<Rightarrow> bytes list \<Rightarrow> bytes list" where
  "build_up sha 0 ns = ns"
| "build_up sha (Suc i) ns =
     build_up sha i (ns[Suc i := hashPair sha (ns ! (2 * Suc i)) (ns ! (2 * Suc i + 1))])"

definition padded :: "bytes list \<Rightarrow> nat \<Rightarrow> bytes list" where
  "padded hs sz = hs @ replicate (sz - length hs) (last hs)"

definition BuildMerkleTree :: "(bytes \<Rightarrow> bytes) \<Rightarrow> bytes list \<Rightarrow> merkle_tree res" where
  "BuildMerkleTree sha chunkHashes =
     (if chunkHashes = [] then Inl ''no chunk hashes provided''
      else (let sz = pad_size (length chunkHashes) 2;
                ns = replicate sz [] @ padded chunkHashes sz
            in Inr \<lparr>leaves = chunkHashes, nodes = build_up sha (sz - 1) ns, leafStart = sz\<rparr>))"

definition Root :: "merkle_tree \<Rightarrow> bytes" where
  "Root t = nodes t ! 1"

definition LeafCount :: "merkle_tree \<Rightarrow> nat" where
  "LeafCount t = length (leaves t)"

fun proof_loop :: "bytes list \<Rightarrow> nat \<Rightarrow> bytes list" where
  "proof_loop ns pos = (if pos > 1 then ns ! (pos XOR 1) # proof_loop ns (pos div 2) else [])"

declare proof_loop.simps [simp del]

definition Proof :: "merkle_tree \<Rightarrow> int \<Rightarrow> bytes list res" where
  "Proof t chunkIndex =
     (if chunkIndex < 0 \<or> chunkIndex \<ge> int (length (leaves t)) then Inl ''chunk index out of range''
      else Inr (proof_loop (nodes t) (leafStart t + nat chunkIndex)))"

fun verify_loop :: "(bytes \<Rightarrow> bytes) \<Rightarrow> int \<Rightarrow> bytes \<Rightarrow> bytes list \<Rightarrow> bytes" where
  "verify_loop sha pos current [] = current"
| "verify_loop sha pos current (sibling # sibs) =
     verify_loop sha (go_div pos 2)
       (if go_mod pos 2 = 0 then hashPair sha current sibling else hashPair sha sibling current) sibs"

fun leaf_start_loop :: "int \<Rightarrow> bytes list \<Rightarrow> int" where
  "leaf_start_loop n [] = n"
| "leaf_start_loop n (_ # sibs) = leaf_start_loop (wrap64 (n * 2)) sibs"

definition VerifyProof :: "(bytes \<Rightarrow> bytes) \<Rightarrow> bytes \<Rightarrow> int \<Rightarrow> bytes list \<Rightarrow> bytes \<Rightarrow> bool" where
  "VerifyProof sha chunkHash chunkIndex sibs root =
     (if length chunkHash = 0 \<or> length root = 0 then False
      else (let pos = wrap64 (leaf_start_loop 1 sibs + chunkIndex)
            in verify_loop sha pos chunkHash sibs = root))"

section \<open>Shape of the tree\<close>

lemma pad_size_pow2: "sz = 2 ^ k \<Longrightarrow> \<exists>m \<ge> k. pad_size n sz = 2 ^ m"
proof (induction n sz arbitrary: k rule: pad_size.induct)
  case (1 n sz)
  show ?case
  proof (cases "sz < n")
    case True
    with "1" have "\<exists>m \<ge> Suc k. pad_size n (sz * 2) = 2 ^ m" by (intro "1.IH") auto
    then obtain m where "m \<ge> k" "pad_size n (sz * 2) = 2 ^ m" by auto
    moreover have "pad_size n sz = pad_size n (sz * 2)"
      using True "1.prems" by (subst pad_size.simps) simp
    ultimately show ?thesis by auto
  next
    case False
    then have "pad_size n sz = sz" by (subst pad_size.simps) simp
    with "1.prems" show ?thesis by auto
  qed
qed

lemma pad_size_ge: "0 < sz \<Longrightarrow> n \<le> pad_size n sz"
proof (induction n sz rule: pad_size.induct)
  case (1 n sz)
  then show ?case by (cases "sz < n") (simp_all add: pad_size.simps[of n sz])
qed

lemma pad_size_le: "sz = 2 ^ k \<Longrightarrow> k \<le> m \<Longrightarrow> n \<le> 2 ^ m \<Longrightarrow> pad_size n sz \<le> 2 ^ m"
proof (induction n sz arbitrary: k rule: pad_size.induct)
  case (1 n sz)
  show ?case
  proof (cases "sz < n")
    case True
    then have "(2 :: nat) ^ k < 2 ^ m" using "1.prems" by (metis less_le_trans)
    then have "Suc k \<le> m" by simp
    then have "pad_size n (sz * 2) \<le> 2 ^ m" using True "1" by (intro "1.IH"[of "Suc k"]) auto
    then show ?thesis using True "1.prems" by (subst pad_size.simps) simp
  next
    case False
    then have "pad_size n sz = sz" by (subst pad_size.simps) simp
    with "1.prems" show ?thesis by (simp add: power_increasing)
  qed
qed

text \<open>The heap property of a finished tree over \<open>sz\<close> leaves.\<close>

definition heap_ok :: "(bytes \<Rightarrow> bytes) \<Rightarrow> nat \<Rightarrow> bytes list \<Rightarrow> bool" where
  "heap_ok sha sz ns \<longleftrightarrow>
     length ns = 2 * sz \<and>
     (\<forall>i. 1 \<le> i \<and> i < sz \<longrightarrow> ns ! i = hashPair sha (ns ! (2 * i)) (ns ! (2 * i + 1)))"

lemma length_build_up [simp]: "length (build_up sha i ns) = length ns"
  by (induction i arbitrary: ns) auto

lemma build_up_above: "j > i \<Longrightarrow> build_up sha i ns ! j = ns ! j"
  by (induction i arbitrary: ns) auto

lemma build_up_heap:
  "\<lbrakk> length ns = 2 * sz; i < sz;
     \<forall>j. i < j \<and> j < sz \<longrightarrow> ns ! j = hashPair sha (ns ! (2 * j)) (ns ! (2 * j + 1)) \<rbrakk> \<Longrightarrow>
     heap_ok sha sz (build_up sha i ns)"
proof (induction i arbitrary: ns)
  case 0
  then show ?case by (auto simp: heap_ok_def)
next
  case (Suc i)
  let ?ns = "ns[Suc i := hashPair sha (ns ! (2 * Suc i)) (ns ! (2 * Suc i + 1))]"
  have "\<forall>j. i < j \<and> j < sz \<longrightarrow> ?ns ! j = hashPair sha (?ns ! (2 * j)) (?ns ! (2 * j + 1))"
  proof (intro allI impI)
    fix j assume j: "i < j \<and> j < sz"
    show "?ns ! j = hashPair sha (?ns ! (2 * j)) (?ns ! (2 * j + 1))"
      using j Suc.prems by (cases "j = Suc i") (auto simp: nth_list_update)
  qed
  with Suc show ?case by simp
qed

lemma BuildMerkleTree_shape:
  assumes "BuildMerkleTree sha hs = Inr t"
  obtains k where "1 \<le> k" "leafStart t = 2 ^ k" "leaves t = hs" "hs \<noteq> []" "length hs \<le> 2 ^ k"
    "heap_ok sha (2 ^ k) (nodes t)" "\<And>i. i < 2 ^ k \<Longrightarrow> nodes t ! (2 ^ k + i) = padded hs (2 ^ k) ! i"
proof -
  let ?n = "length hs"
  obtain k where k: "1 \<le> k" "pad_size ?n 2 = 2 ^ k"
    using pad_size_pow2[of 2 1 ?n] by auto
  have ge: "?n \<le> 2 ^ k" using pad_size_ge[of 2 ?n] k by simp
  let ?ns = "replicate (2 ^ k) [] @ padded hs (2 ^ k)"
  have t: "hs \<noteq> []" "leaves t = hs" "leafStart t = 2 ^ k" "nodes t = build_up sha (2 ^ k - 1) ?ns"
    using assms k by (auto simp: BuildMerkleTree_def Let_def split: if_splits)
  have len: "length ?ns = 2 * 2 ^ k" using ge by (simp add: padded_def)
  have "heap_ok sha (2 ^ k) (nodes t)" unfolding t(4) using len by (intro build_up_heap) auto
  moreover have "nodes t ! (2 ^ k + i) = padded hs (2 ^ k) ! i" if "i < 2 ^ k" for i
  proof -
    have "2 ^ k - 1 < 2 ^ k + i" by (rule trans_less_add1) simp
    from build_up_above[OF this] show ?thesis unfolding t(4) by (simp add: nth_append)
  qed
  ultimately show thesis using that k t ge by blast
qed

lemma padded_nth: "i < length hs \<Longrightarrow> padded hs sz ! i = hs ! i"
  by (simp add: padded_def nth_append)

section \<open>Verification as a climb\<close>

text \<open>The verification loop on natural numbers, and the strings it hashes.\<close>

fun climb :: "(bytes \<Rightarrow> bytes) \<Rightarrow> nat \<Rightarrow> bytes \<Rightarrow> bytes list \<Rightarrow> bytes" where
  "climb sha pos cur [] = cur"
| "climb sha pos cur (sib # sibs) =
     climb sha (pos div 2) (sha (if even pos then cur @ sib else sib @ cur)) sibs"

fun climb_inputs :: "(bytes \<Rightarrow> bytes) \<Rightarrow> nat \<Rightarrow> bytes \<Rightarrow> bytes list \<Rightarrow> bytes set" where
  "climb_inputs sha pos cur [] = {}"
| "climb_inputs sha pos cur (sib # sibs) =
     (let x = (if even pos then cur @ sib else sib @ cur)
      in insert x (climb_inputs sha (pos div 2) (sha x) sibs))"

definition tree_inputs :: "merkle_tree \<Rightarrow> bytes set" where
  "tree_inputs t = (\<lambda>i. nodes t ! (2 * i) @ nodes t ! (2 * i + 1)) ` {1..<leafStart t}"

lemma verify_loop_climb: "verify_loop sha (int pos) cur sibs = climb sha pos cur sibs"
proof (induction sibs arbitrary: pos cur)
  case (Cons sib sibs)
  have "go_div (int pos) 2 = int (pos div 2)" by (simp add: go_div_nonneg zdiv_int)
  moreover have "go_mod (int pos) 2 = 0 \<longleftrightarrow> even pos"
    by (simp add: go_mod_nonneg even_iff_mod_2_eq_zero flip: of_nat_mod) presburger
  ultimately show ?case using Cons by (simp add: hashPair_def)
qed simp

lemma leaf_start_loop_pow2: "d + length sibs \<le> 61 \<Longrightarrow> leaf_start_loop (2 ^ d) sibs = 2 ^ (d + length sibs)"
proof (induction sibs arbitrary: d)
  case (Cons x sibs)
  have "(2 :: int) ^ Suc d \<le> 2 ^ 61" using Cons.prems by (intro power_increasing) auto
  then have "wrap64 (2 ^ d * 2) = 2 ^ Suc d" by (subst wrap64_id) (simp_all add: order.trans[of _ 0])
  with Cons.IH[of "Suc d"] Cons.prems show ?case by simp
qed simp

lemma VerifyProof_climb:
  assumes "length sibs \<le> 61" and "i < 2 ^ 62"
  shows "VerifyProof sha h (int i) sibs root \<longleftrightarrow>
     h \<noteq> [] \<and> root \<noteq> [] \<and> climb sha (2 ^ length sibs + i) h sibs = root"
proof -
  have "(2 :: nat) ^ length sibs \<le> 2 ^ 61" using assms(1) by (intro power_increasing) auto
  then have "2 ^ length sibs + i < 2 ^ 63" using assms(2) by simp
  then have "wrap64 (2 ^ length sibs + int i) = int (2 ^ length sibs + i)"
    by (intro trans[OF wrap64_id]) (simp_all add: order.trans[of _ 0] flip: of_nat_less_iff[where 'a = int])
  then show ?thesis
    using leaf_start_loop_pow2[of 0 sibs] assms(1) verify_loop_climb[of sha "2 ^ length sibs + i" h sibs]
    by (simp add: VerifyProof_def Let_def)
qed

lemma pow2_le_gt_1: "2 ^ Suc k \<le> n \<Longrightarrow> 1 < n" for n :: nat
  by (rule less_le_trans[OF one_less_power[of 2 "Suc k"]]) auto

subsection \<open>Completeness\<close>

lemma xor_1_even: "even pos \<Longrightarrow> pos XOR Suc 0 = Suc pos" for pos :: nat
  by (auto simp: xor_Suc_0_eq)

lemma xor_1_odd: "odd pos \<Longrightarrow> pos XOR Suc 0 = pos - 1" for pos :: nat
proof -
  assume "odd pos"
  then show ?thesis by (auto simp: xor_Suc_0_eq)
qed

lemma heap_parent:
  assumes "heap_ok sha sz ns" "1 < pos" "pos < 2 * sz"
  shows "ns ! (pos div 2) =
    sha (if even pos then ns ! pos @ ns ! (pos XOR 1) else ns ! (pos XOR 1) @ ns ! pos)"
proof -
  have "1 \<le> pos div 2" "pos div 2 < sz" using assms by auto
  then have "ns ! (pos div 2) = sha (ns ! (2 * (pos div 2)) @ ns ! (2 * (pos div 2) + 1))"
    using assms(1) by (simp add: heap_ok_def hashPair_def)
  then show ?thesis by (cases "even pos") (simp_all add: xor_1_even xor_1_odd)
qed

lemma climb_proof_loop:
  "\<lbrakk> heap_ok sha sz ns; 1 \<le> pos; pos < 2 * sz \<rbrakk> \<Longrightarrow>
     climb sha pos (ns ! pos) (proof_loop ns pos) = ns ! 1"
proof (induction ns pos rule: proof_loop.induct)
  case (1 ns pos)
  show ?case
  proof (cases "pos > 1")
    case True
    have "climb sha (pos div 2) (ns ! (pos div 2)) (proof_loop ns (pos div 2)) = ns ! 1"
      using "1" True by simp
    then show ?thesis
      unfolding proof_loop.simps[of ns pos] heap_parent[OF "1.prems"(1) True "1.prems"(3)]
      using True by (cases "even pos") simp_all
  next
    case False
    with "1.prems"(2) have "pos = 1" by simp
    then show ?thesis by (simp add: proof_loop.simps)
  qed
qed

lemma length_proof_loop: "2 ^ k \<le> pos \<Longrightarrow> pos < 2 ^ Suc k \<Longrightarrow> length (proof_loop ns pos) = k"
proof (induction k arbitrary: pos)
  case 0
  then show ?case by (simp add: proof_loop.simps)
next
  case (Suc k)
  then have "length (proof_loop ns (pos div 2)) = k" by (intro Suc.IH) auto
  moreover have "1 < pos" using Suc.prems(1) by (rule pow2_le_gt_1)
  ultimately show ?case by (simp add: proof_loop.simps[of ns pos])
qed

subsection \<open>Soundness\<close>

text \<open>
  A verified proof of the right length either shows the leaf of the tree or exhibits two
  different strings with the same hash, one hashed by the builder and one by the verifier.
\<close>

definition collides :: "(bytes \<Rightarrow> bytes) \<Rightarrow> bytes set \<Rightarrow> bytes set \<Rightarrow> bool" where
  "collides sha A B \<longleftrightarrow> (\<exists>x \<in> A. \<exists>y \<in> B. x \<noteq> y \<and> sha x = sha y)"

lemma collides_mono: "collides sha A B \<Longrightarrow> B \<subseteq> B' \<Longrightarrow> collides sha A B'"
  by (auto simp: collides_def)

lemma split_by_width:
  assumes "(if p then a @ b else b @ a) = (if p then c @ d else d @ c)" "length a = length c"
  shows "a = c"
  using assms by (cases p) auto

lemma climb_sound:
  assumes "heap_ok sha (leafStart t) (nodes t)" and "\<And>x. length (sha x) = w"
    and "\<And>i. i < 2 * leafStart t \<Longrightarrow> 1 \<le> i \<Longrightarrow> length (nodes t ! i) = w"
  shows "\<lbrakk> climb sha pos cur sibs = nodes t ! 1; length cur = w;
    2 ^ length sibs \<le> pos; pos < 2 ^ Suc (length sibs); pos < 2 * leafStart t \<rbrakk> \<Longrightarrow>
    cur = nodes t ! pos \<or> collides sha (tree_inputs t) (climb_inputs sha pos cur sibs)"
proof (induction sibs arbitrary: pos cur)
  case Nil
  then have "pos = 1" by simp
  with Nil.prems(1) show ?case by simp
next
  case (Cons sib sibs)
  define x where "x = (if even pos then cur @ sib else sib @ cur)"
  let ?y = "if even pos then nodes t ! pos @ nodes t ! (pos XOR 1)
    else nodes t ! (pos XOR 1) @ nodes t ! pos"
  have pos: "1 < pos" using Cons.prems(3) by (intro pow2_le_gt_1[of "length sibs"]) simp
  have "sha x = nodes t ! (pos div 2) \<or>
      collides sha (tree_inputs t) (climb_inputs sha (pos div 2) (sha x) sibs)"
    using Cons.prems assms(2) by (intro Cons.IH) (auto simp: x_def)
  moreover have inputs: "climb_inputs sha pos cur (sib # sibs) =
      insert x (climb_inputs sha (pos div 2) (sha x) sibs)"
    by (simp add: x_def Let_def)
  moreover have ?case if eq: "sha x = nodes t ! (pos div 2)"
  proof (cases "x = ?y")
    case True
    moreover have "length cur = length (nodes t ! pos)" using assms(3) Cons.prems pos by simp
    ultimately have "cur = nodes t ! pos" unfolding x_def by (rule split_by_width)
    then show ?thesis ..
  next
    case False
    have "pos div 2 \<in> {1..<leafStart t}" using pos Cons.prems(5) by auto
    moreover have "?y = nodes t ! (2 * (pos div 2)) @ nodes t ! (2 * (pos div 2) + 1)"
      by (cases "even pos") (simp_all add: xor_1_even xor_1_odd)
    ultimately have "?y \<in> tree_inputs t" unfolding tree_inputs_def by blast
    moreover have "sha ?y = sha x"
      by (rule trans[OF heap_parent[OF assms(1) pos Cons.prems(5), symmetric] eq[symmetric]])
    ultimately show ?thesis unfolding inputs collides_def using False
      by (intro disjI2 bexI[of _ ?y] bexI[of _ x] conjI) simp_all
  qed
  ultimately show ?case using collides_mono[of sha "tree_inputs t"] by blast
qed

lemma heap_widths:
  assumes "heap_ok sha sz ns" and "\<And>x. length (sha x) = w" and "\<And>i. i < sz \<Longrightarrow> length (ns ! (sz + i)) = w"
    and "i < 2 * sz" "1 \<le> i"
  shows "length (ns ! i) = w"
proof (cases "i < sz")
  case True
  then show ?thesis using assms(1,2,5) by (auto simp: heap_ok_def hashPair_def)
next
  case False
  then show ?thesis using assms(3)[of "i - sz"] assms(4) by simp
qed

lemma Proof_shape:
  assumes "BuildMerkleTree sha hs = Inr t" and "i < length hs"
  obtains k sibs where "1 \<le> k" "leafStart t = 2 ^ k" "Proof t (int i) = Inr sibs"
    "sibs = proof_loop (nodes t) (2 ^ k + i)" "length sibs = k" "i < 2 ^ k"
    "heap_ok sha (2 ^ k) (nodes t)" "nodes t ! (2 ^ k + i) = hs ! i"
proof -
  obtain k where k: "1 \<le> k" "leafStart t = 2 ^ k" "leaves t = hs" "length hs \<le> 2 ^ k"
    "heap_ok sha (2 ^ k) (nodes t)" "\<And>j. j < 2 ^ k \<Longrightarrow> nodes t ! (2 ^ k + j) = padded hs (2 ^ k) ! j"
    using BuildMerkleTree_shape[OF assms(1)] by metis
  have i: "i < 2 ^ k" using k(4) assms(2) by simp
  show thesis
    using that[of k "proof_loop (nodes t) (2 ^ k + i)"] k i assms(2)
    by (simp add: Proof_def length_proof_loop padded_nth)
qed

lemma Root_nonempty:
  assumes "BuildMerkleTree sha hs = Inr t" and "\<And>x. sha x \<noteq> []"
  shows "Root t \<noteq> []"
proof -
  obtain k where k: "1 \<le> k" "heap_ok sha (2 ^ k) (nodes t)"
    using BuildMerkleTree_shape[OF assms(1)] by metis
  have "(1 :: nat) < 2 ^ k" using k(1) by (intro one_less_power) auto
  with k(2) show ?thesis by (auto simp: Root_def heap_ok_def hashPair_def assms(2))
qed

lemma BuildMerkleTree_ok: "hs \<noteq> [] \<Longrightarrow> \<exists>t. BuildMerkleTree sha hs = Inr t"
  by (simp add: BuildMerkleTree_def Let_def)

lemma Proof_verifies:
  assumes "BuildMerkleTree sha hs = Inr t" and "i < length hs" and "length hs \<le> 2 ^ 32"
    and "\<And>x. sha x \<noteq> []" and "hs ! i \<noteq> []"
  shows "\<exists>sibs. Proof t (int i) = Inr sibs \<and> VerifyProof sha (hs ! i) (int i) sibs (Root t)"
proof -
  obtain k sibs where k: "1 \<le> k" "Proof t (int i) = Inr sibs"
    "sibs = proof_loop (nodes t) (2 ^ k + i)" "length sibs = k" "i < 2 ^ k"
    "heap_ok sha (2 ^ k) (nodes t)" "nodes t ! (2 ^ k + i) = hs ! i" "leafStart t = 2 ^ k"
    using Proof_shape[OF assms(1,2)] by metis
  have "k \<le> 61"
  proof -
    have "leafStart t = pad_size (length hs) 2"
      using assms(1) by (auto simp: BuildMerkleTree_def Let_def split: if_splits)
    moreover have "pad_size (length hs) 2 \<le> 2 ^ 32"
      using pad_size_le[of 2 1 32 "length hs"] assms(3) by simp
    ultimately have "(2 :: nat) ^ k \<le> 2 ^ 32" using k(8) by simp
    then have "k \<le> 32" by (rule power_le_imp_le_exp[rotated]) simp
    then show ?thesis by simp
  qed
  moreover have "i < 2 ^ 62" using assms(2,3) by simp
  moreover have "climb sha (2 ^ k + i) (hs ! i) sibs = Root t"
    using climb_proof_loop[OF k(6), of "2 ^ k + i"] k by (simp add: Root_def)
  ultimately show ?thesis
    using k assms Root_nonempty[OF assms(1,4)] by (simp add: VerifyProof_climb)
qed

lemma VerifyProof_sound:
  assumes "BuildMerkleTree sha hs = Inr t" and "leafStart t = 2 ^ length sibs"
    and "length sibs \<le> 61" and "i < leafStart t" and "\<And>x. length (sha x) = 32"
    and "\<forall>h' \<in> set hs. length h' = 32" and "length h = 32"
    and "VerifyProof sha h (int i) sibs (Root t)"
  shows "h = padded hs (leafStart t) ! i \<or>
    collides sha (tree_inputs t) (climb_inputs sha (leafStart t + i) h sibs)"
proof -
  obtain k where k: "leafStart t = 2 ^ k" "hs \<noteq> []" "length hs \<le> 2 ^ k"
    "heap_ok sha (2 ^ k) (nodes t)" "\<And>j. j < 2 ^ k \<Longrightarrow> nodes t ! (2 ^ k + j) = padded hs (2 ^ k) ! j"
    using BuildMerkleTree_shape[OF assms(1)] by metis
  have "length (padded hs (2 ^ k) ! j) = 32" if "j < 2 ^ k" for j
    using that assms(6) k(2) by (auto simp: padded_def nth_append)
  then have leaf: "length (nodes t ! (2 ^ k + j)) = 32" if "j < 2 ^ k" for j
    using that k(5) by simp
  have "(2 :: nat) ^ length sibs \<le> 2 ^ 61" using assms(3) by (intro power_increasing) auto
  then have "i < 2 ^ 62" using assms(2,4) by simp
  then have "climb sha (leafStart t + i) h sibs = nodes t ! 1"
    using assms(2,3,8) by (simp add: VerifyProof_climb Root_def)
  then have "h = nodes t ! (leafStart t + i) \<or>
      collides sha (tree_inputs t) (climb_inputs sha (leafStart t + i) h sibs)"
    using k assms leaf heap_widths[OF k(4) assms(5) leaf]
    by (intro climb_sound[where w = 32]) auto
  then show ?thesis using k(1,5) assms(4) by auto
qed

section \<open>Concrete trees\<close>

text \<open>A 32-byte checksum and three chunk hashes, on which the properties are evaluated.\<close>

definition demo_sha :: "bytes \<Rightarrow> bytes" where
  "demo_sha x = replicate 31 7 @ [sum_list x]"

definition demo_leaves :: "bytes list" where
  "demo_leaves = [replicate 32 1, replicate 32 2, replicate 32 5]"

definition demo_tree :: merkle_tree where
  "demo_tree = projr (BuildMerkleTree demo_sha demo_leaves)"

definition demo_siblings :: "bytes list" where
  "demo_siblings = projr (Proof demo_tree 2)"

lemma length_demo_sha [simp]: "length (demo_sha x) = 32"
  by (simp add: demo_sha_def)

lemma demo_sha_ne [simp]: "demo_sha x \<noteq> []"
  by (simp add: demo_sha_def)

lemma demo_tree_eq: "BuildMerkleTree demo_sha demo_leaves = Inr demo_tree"
  by (simp add: demo_tree_def BuildMerkleTree_def Let_def demo_leaves_def)

lemma demo_verifies: "VerifyProof demo_sha (replicate 32 5) 2 demo_siblings (Root demo_tree)"
  by code_simp

section \<open>Properties\<close>

text \<open>Completeness. For every non-empty list of at most 2^32 non-empty chunk hashes the tree
  is built, every chunk index has a proof, and the proof verifies against the root of the tree.\<close>

theorem merkle_complete:
  assumes "hs \<noteq> []" and "length hs \<le> 2 ^ 32" and "\<forall>h \<in> set hs. h \<noteq> []" and "\<And>x. sha x \<noteq> []"
  shows "\<exists>t. BuildMerkleTree sha hs = Inr t \<and> LeafCount t = length hs \<and>
    (\<forall>i < length hs. \<exists>sibs. Proof t (int i) = Inr sibs \<and>
       VerifyProof sha (hs ! i) (int i) sibs (Root t))"
proof -
  obtain t where t: "BuildMerkleTree sha hs = Inr t" using BuildMerkleTree_ok[OF assms(1)] by blast
  have "leaves t = hs" using BuildMerkleTree_shape[OF t] by metis
  with t show ?thesis
    using Proof_verifies[OF t _ assms(2,4)] assms(3) by (auto simp: LeafCount_def)
qed

theorem merkle_complete_witness:
  "\<exists>t. BuildMerkleTree demo_sha demo_leaves = Inr t \<and> LeafCount t = length demo_leaves \<and>
    (\<forall>i < length demo_leaves. \<exists>sibs. Proof t (int i) = Inr sibs \<and>
       VerifyProof demo_sha (demo_leaves ! i) (int i) sibs (Root t))"
  by (rule merkle_complete) (auto simp: demo_leaves_def)

text \<open>C8: Soundness. A proof as long as the tree is deep that verifies for index \<open>i\<close> carries the
  hash of leaf \<open>i\<close> (of the padded tree), unless two different strings, one hashed while building
  the tree and one while verifying, have the same hash.\<close>

theorem merkle_sound:
  assumes "BuildMerkleTree sha hs = Inr t" and "leafStart t = 2 ^ length sibs"
    and "length sibs \<le> 61" and "i < leafStart t" and "\<And>x. length (sha x) = 32"
    and "\<forall>h' \<in> set hs. length h' = 32" and "length h = 32"
    and "VerifyProof sha h (int i) sibs (Root t)"
  shows "h = padded hs (leafStart t) ! i \<or>
    collides sha (tree_inputs t) (climb_inputs sha (leafStart t + i) h sibs)"
  using assms by (rule VerifyProof_sound)

theorem merkle_sound_witness:
  "replicate 32 5 = padded demo_leaves (leafStart demo_tree) ! 2 \<or>
    collides demo_sha (tree_inputs demo_tree)
      (climb_inputs demo_sha (leafStart demo_tree + 2) (replicate 32 5) demo_siblings)"
proof (rule merkle_sound[OF demo_tree_eq])
  show "leafStart demo_tree = 2 ^ length demo_siblings" by code_simp
  show "length demo_siblings \<le> 61" by code_simp
  show "2 < leafStart demo_tree" by code_simp
  show "VerifyProof demo_sha (replicate 32 5) (int 2) demo_siblings (Root demo_tree)"
    using demo_verifies by simp
qed (auto simp: demo_leaves_def)

end
