(* ===== verification/Chunker.thy ===== *)
theory Chunker
  imports Go_Prelude
begin

text \<open>
  The file chunker (\<open>src/internal/filetransfer/chunker.go\<close>): a file as fixed-size chunks with
  their SHA-256 hashes, each chunk read from disk when it is needed. The file system is an argument
  of every operation that reads it, so a file may change between two calls. The main lemma is that
  the chunks of an unchanged file, in order, are the file.
\<close>

section \<open>State\<close>

definition DefaultChunkSize :: int where "DefaultChunkSize = 256 * 1024"

text \<open>What a path names: nothing that can be read, a directory, or a file with its content.\<close>

datatype fs_entry = Missing | Directory | Regular bytes

type_synonym filesystem = "string \<Rightarrow> fs_entry"

record chunk =
  Index :: u32
  Data :: bytes
  Hash :: bytes

record chunker =
  c_path :: string
  fileSize :: int
  chunkSize :: int
  total :: u32

section \<open>Operations\<close>

definition NewChunkerWithSize :: "filesystem \<Rightarrow> string \<Rightarrow> int \<Rightarrow> chunker res" where
  "NewChunkerWithSize fs path cs =
     (if cs \<le> 0 then Inl ''chunk size must be positive''
      else (case fs path of
              Missing \<Rightarrow> Inl ''stat file''
            | Directory \<Rightarrow> Inl ''path is a directory''
            | Regular content \<Rightarrow>
                (let sz = int (length content)
                 in if sz = 0 then Inl ''file is empty''
                    else Inr \<lparr>c_path = path, fileSize = sz, chunkSize = cs,
                              total = word_of_int (go_div (wrap64 (sz + cs - 1)) cs)\<rparr>)))"

definition NewChunker :: "filesystem \<Rightarrow> string \<Rightarrow> chunker res" where
  "NewChunker fs path = NewChunkerWithSize fs path DefaultChunkSize"

definition ReadChunk :: "(bytes \<Rightarrow> bytes) \<Rightarrow> filesystem \<Rightarrow> chunker \<Rightarrow> u32 \<Rightarrow> chunk res" where
  "ReadChunk sha fs c index =
     (if index \<ge> total c then Inl ''chunk index out of range''
      else (case fs (c_path c) of
              Missing \<Rightarrow> Inl ''open file''
            | Directory \<Rightarrow> Inl ''read chunk''
            | Regular content \<Rightarrow>
                (let offset = wrap64 (uint index * chunkSize c)
                 in if offset < 0 then Inl ''seek to chunk''
                    else (let buf = take (nat (chunkSize c)) (drop (nat offset) content)
                          in if buf = [] then Inl ''read chunk''
                             else Inr \<lparr>Index = index, Data = buf, Hash = sha buf\<rparr>))))"

definition TotalChunks :: "chunker \<Rightarrow> u32" where "TotalChunks c = total c"
definition FileSize :: "chunker \<Rightarrow> int" where "FileSize c = fileSize c"
definition ChunkSize :: "chunker \<Rightarrow> int" where "ChunkSize c = chunkSize c"
definition Path :: "chunker \<Rightarrow> string" where "Path c = c_path c"

fun hashes_loop :: "(bytes \<Rightarrow> bytes) \<Rightarrow> filesystem \<Rightarrow> chunker \<Rightarrow> nat list \<Rightarrow> bytes list res" where
  "hashes_loop sha fs c [] = Inr []"
| "hashes_loop sha fs c (i # is) =
     (case ReadChunk sha fs c (of_nat i) of
        Inl e \<Rightarrow> Inl ''reading chunk''
      | Inr ch \<Rightarrow> (case hashes_loop sha fs c is of
                     Inl e \<Rightarrow> Inl e
                   | Inr hs \<Rightarrow> Inr (Hash ch # hs)))"

definition AllChunkHashes :: "(bytes \<Rightarrow> bytes) \<Rightarrow> filesystem \<Rightarrow> chunker \<Rightarrow> bytes list res" where
  "AllChunkHashes sha fs c = hashes_loop sha fs c [0..<unat (total c)]"

section \<open>Chunks of a file\<close>

text \<open>The reference: piece \<open>i\<close> of a byte string cut every \<open>n\<close> bytes.\<close>

definition piece :: "nat \<Rightarrow> bytes \<Rightarrow> nat \<Rightarrow> bytes" where
  "piece n content i = take n (drop (i * n) content)"

definition pieces :: "nat \<Rightarrow> bytes \<Rightarrow> nat" where
  "pieces n content = (length content + n - 1) div n"

lemma concat_piece: "concat (map (piece n content) [0..<m]) = take (m * n) content"
proof (induction m)
  case (Suc m)
  have "Suc m * n = m * n + n" by simp
  then have "take (Suc m * n) content = take (m * n) content @ take n (drop (m * n) content)"
    by (simp only: take_add)
  with Suc show ?case by (simp add: piece_def)
qed simp

lemma pieces_cover: "0 < n \<Longrightarrow> length content \<le> pieces n content * n"
  using div_mult_mod_eq[of "length content + n - 1" n] mod_less_divisor[of n "length content + n - 1"]
  unfolding pieces_def by linarith

lemma piece_start: "0 < n \<Longrightarrow> i < pieces n content \<Longrightarrow> i * n < length content"
proof -
  assume n: "0 < n" and "i < pieces n content"
  then have "Suc i * n \<le> length content + n - 1"
    unfolding pieces_def Suc_le_eq[symmetric] using n by (simp only: less_eq_div_iff_mult_less_eq)
  with n show ?thesis by simp
qed

lemma concat_pieces: "0 < n \<Longrightarrow> concat (map (piece n content) [0..<pieces n content]) = content"
  by (simp add: concat_piece pieces_cover)

lemma pieces_pos: "0 < n \<Longrightarrow> content \<noteq> [] \<Longrightarrow> 0 < pieces n content"
  using pieces_cover[of n content] by (cases "pieces n content") auto

text \<open>A chunker of the file, sized so that neither the offsets nor the chunk count overflow.\<close>

definition chunks_of :: "filesystem \<Rightarrow> chunker \<Rightarrow> bytes \<Rightarrow> bool" where
  "chunks_of fs c content \<longleftrightarrow>
     fs (c_path c) = Regular content \<and> content \<noteq> [] \<and> 0 < chunkSize c \<and>
     fileSize c = int (length content) \<and>
     unat (total c) = pieces (nat (chunkSize c)) content \<and> int (length content) < 2 ^ 63"

lemma NewChunker_chunks_of:
  assumes "fs path = Regular content" "content \<noteq> []" "0 < cs"
    and "int (length content) + cs \<le> 2 ^ 63" and "pieces (nat cs) content < 2 ^ 32"
  shows "\<exists>c. NewChunkerWithSize fs path cs = Inr c \<and> chunks_of fs c content \<and> chunkSize c = cs \<and>
    c_path c = path"
proof -
  let ?m = "int (length content) + cs - 1"
  have "wrap64 ?m = ?m" using assms(3,4) by (intro wrap64_id) auto
  moreover have "go_div ?m cs = int (pieces (nat cs) content)"
    using assms(3) by (simp add: go_div_nonneg pieces_def zdiv_int of_nat_diff)
  ultimately have "unat (word_of_int (go_div (wrap64 ?m) cs) :: u32) = pieces (nat cs) content"
    using assms(5) by (simp add: unat_of_nat)
  then show ?thesis using assms by (simp add: NewChunkerWithSize_def Let_def chunks_of_def)
qed

lemma ReadChunk_piece:
  assumes "chunks_of fs c content" and "i < unat (total c)"
  shows "ReadChunk sha fs c (of_nat i) =
    Inr \<lparr>Index = of_nat i, Data = piece (nat (chunkSize c)) content i,
         Hash = sha (piece (nat (chunkSize c)) content i)\<rparr>"
proof -
  let ?n = "nat (chunkSize c)"
  have n: "0 < ?n" "int ?n = chunkSize c" using assms(1) by (auto simp: chunks_of_def)
  have lt: "i * ?n < length content"
    using assms n(1) by (intro piece_start) (auto simp: chunks_of_def)
  have "i < 2 ^ 32" using assms(2) unat_bound[of "total c"] by simp
  then have un: "unat (of_nat i :: u32) = i" by (simp add: unat_of_nat)
  then have idx: "\<not> (of_nat i :: u32) \<ge> total c" using assms(2) by (simp add: word_le_nat_alt)
  have ui: "uint (of_nat i :: u32) = int i" using of_nat_unat[of "of_nat i :: u32", where 'a = int] un by simp
  have "int i * chunkSize c = int (i * ?n)" using n(2) by simp
  moreover have "int (i * ?n) < 2 ^ 63"
    using assms(1) lt by (intro less_trans[OF of_nat_less_iff[THEN iffD2, OF lt]]) (simp add: chunks_of_def)
  ultimately have off: "wrap64 (int i * chunkSize c) = int (i * ?n)"
    by (metis wrap64_id of_nat_0_le_iff neg_le_0_iff_le order_trans zero_le_numeral zero_le_power)
  have "piece ?n content i \<noteq> []" using n(1) lt by (simp add: piece_def)
  moreover have "nat (wrap64 (int i * chunkSize c)) = i * ?n" "\<not> wrap64 (int i * chunkSize c) < 0"
    unfolding off by (simp_all only: nat_int of_nat_less_0_iff not_False_eq_True)
  moreover have "fs (c_path c) = Regular content" using assms(1) by (simp add: chunks_of_def)
  ultimately show ?thesis using idx
    by (simp only: ReadChunk_def Let_def piece_def ui if_False fs_entry.case)
qed

lemma hashes_loop_pieces:
  "\<lbrakk> chunks_of fs c content; \<forall>i \<in> set is. i < unat (total c) \<rbrakk> \<Longrightarrow>
     hashes_loop sha fs c is = Inr (map (\<lambda>i. sha (piece (nat (chunkSize c)) content i)) is)"
  by (induction "is") (simp_all add: ReadChunk_piece)

lemma AllChunkHashes_pieces:
  "chunks_of fs c content \<Longrightarrow> AllChunkHashes sha fs c =
     Inr (map (\<lambda>i. sha (piece (nat (chunkSize c)) content i)) [0..<unat (total c)])"
  by (simp add: AllChunkHashes_def hashes_loop_pieces)

section \<open>Properties\<close>

definition chunk_data :: "chunk res \<Rightarrow> bytes" where
  "chunk_data r = (case r of Inl e \<Rightarrow> [] | Inr ch \<Rightarrow> Data ch)"

text \<open>C16: For a non-empty file whose chunk count fits in 32 bits a chunker is made; every chunk below
  its count is read without error, is non-empty, is no longer than the chunk size and carries its own
  hash; the next index is refused; and the chunks in order are exactly the file.\<close>

theorem chunks_are_the_file:
  assumes "fs path = Regular content" and "content \<noteq> []" and "0 < cs"
    and "int (length content) + cs \<le> 2 ^ 63" and "pieces (nat cs) content < 2 ^ 32"
  shows "\<exists>c. NewChunkerWithSize fs path cs = Inr c \<and>
    (\<forall>i < unat (TotalChunks c). \<exists>ch. ReadChunk sha fs c (of_nat i) = Inr ch \<and> Index ch = of_nat i \<and>
       Data ch \<noteq> [] \<and> int (length (Data ch)) \<le> cs \<and> Hash ch = sha (Data ch)) \<and>
    ReadChunk sha fs c (TotalChunks c) = Inl ''chunk index out of range'' \<and>
    concat (map (\<lambda>i. chunk_data (ReadChunk sha fs c (of_nat i))) [0..<unat (TotalChunks c)]) = content"
proof -
  obtain c where c: "NewChunkerWithSize fs path cs = Inr c" "chunks_of fs c content" "chunkSize c = cs"
    using NewChunker_chunks_of[of fs path content cs] assms by blast
  have tot: "unat (total c) = pieces (nat cs) content" using c(2,3) by (simp add: chunks_of_def)
  have rd: "ReadChunk sha fs c (of_nat i) = Inr \<lparr>Index = of_nat i, Data = piece (nat cs) content i,
      Hash = sha (piece (nat cs) content i)\<rparr>" if "i < unat (total c)" for i
    using ReadChunk_piece[OF c(2) that] c(3) by simp
  have ne: "piece (nat cs) content i \<noteq> []" if "i < unat (total c)" for i
    using piece_start[of "nat cs" i content] that tot assms(3) by (simp add: piece_def)
  have "concat (map (\<lambda>i. chunk_data (ReadChunk sha fs c (of_nat i))) [0..<unat (total c)]) =
      concat (map (piece (nat cs) content) [0..<unat (total c)])"
    by (intro arg_cong[of _ _ concat] map_cong) (simp_all add: rd chunk_data_def)
  also have "\<dots> = content" using assms(3) by (simp add: tot concat_pieces)
  finally have "concat (map (\<lambda>i. chunk_data (ReadChunk sha fs c (of_nat i))) [0..<unat (total c)]) = content" .
  then show ?thesis
    using c(1) rd ne assms(3) by (intro exI[of _ c]) (auto simp: TotalChunks_def ReadChunk_def piece_def)
qed

definition demo_fs :: filesystem where
  "demo_fs = (\<lambda>_. Missing)(''f'' := Regular [1, 2, 3, 4, 5])"

theorem chunks_are_the_file_witness:
  "\<exists>c. NewChunkerWithSize demo_fs ''f'' 2 = Inr c \<and>
    concat (map (\<lambda>i. chunk_data (ReadChunk rev demo_fs c (of_nat i))) [0..<unat (TotalChunks c)]) =
      [1, 2, 3, 4, 5]"
  using chunks_are_the_file[of demo_fs "''f''" "[1, 2, 3, 4, 5]" 2 rev]
  by (auto simp: demo_fs_def pieces_def)

end
