(* ===== verification/Codec.thy ===== *)
theory Codec
  imports Identity Node_Id
begin

text \<open>
  The wire format (\<open>src/internal/protocol/codec.go\<close>, \<open>ids.go\<close>): envelopes behind a
  4-byte big-endian length, and their signatures over type, payload and timestamp. The protobuf
  encoding of an envelope is a parameter (\<open>proto_codec\<close>); the writer is any state with a
  \<open>write\<close> that may fail, the reader is the bytes that arrive before the end of the stream.
\<close>

section \<open>Data\<close>

definition MaxMessageSize :: nat where "MaxMessageSize = 16 * 1024 * 1024"

text \<open>A protobuf enum is an open \<open>int32\<close>; these are the values the sources name.\<close>

type_synonym msg_type = u32

definition CONN_REQUEST :: msg_type where "CONN_REQUEST = 1"
definition CONN_RESPONSE :: msg_type where "CONN_RESPONSE = 2"
definition CONN_CONFIRM :: msg_type where "CONN_CONFIRM = 3"
definition IP_EXCHANGE :: msg_type where "IP_EXCHANGE = 4"
definition CHAT_TEXT :: msg_type where "CHAT_TEXT = 10"
definition CHAT_ACK :: msg_type where "CHAT_ACK = 11"
definition FILE_OFFER :: msg_type where "FILE_OFFER = 20"
definition FILE_ACCEPT :: msg_type where "FILE_ACCEPT = 21"
definition FILE_REJECT :: msg_type where "FILE_REJECT = 22"
definition FILE_CHUNK :: msg_type where "FILE_CHUNK = 23"
definition FILE_CHUNK_ACK :: msg_type where "FILE_CHUNK_ACK = 24"
definition FILE_COMPLETE :: msg_type where "FILE_COMPLETE = 25"
definition FILE_CANCEL :: msg_type where "FILE_CANCEL = 26"
definition DHT_FIND_NODE :: msg_type where "DHT_FIND_NODE = 30"
definition DHT_NODE_RESPONSE :: msg_type where "DHT_NODE_RESPONSE = 31"
definition DHT_PUT_RECORD :: msg_type where "DHT_PUT_RECORD = 32"
definition PING :: msg_type where "PING = 40"
definition PONG :: msg_type where "PONG = 41"

record envelope =
  Type :: msg_type
  Payload :: bytes
  env_Timestamp :: i64
  PubKey :: bytes
  Signature :: bytes

record proto_codec =
  proto_Marshal :: "envelope \<Rightarrow> bytes res"
  proto_Unmarshal :: "bytes \<Rightarrow> envelope res"

section \<open>Big-endian integers\<close>

fun be_bytes :: "nat \<Rightarrow> nat \<Rightarrow> bytes" where
  "be_bytes 0 v = []"
| "be_bytes (Suc n) v = be_bytes n (v div 256) @ [of_nat v]"

definition PutUint32 :: "u32 \<Rightarrow> bytes" where
  "PutUint32 w = be_bytes 4 (unat w)"

definition PutUint64 :: "u64 \<Rightarrow> bytes" where
  "PutUint64 w = be_bytes 8 (unat w)"

definition Uint32 :: "bytes \<Rightarrow> u32" where
  "Uint32 b = of_nat (be_value b)"

lemma length_be_bytes [simp]: "length (be_bytes n v) = n"
  by (induction n arbitrary: v) auto

lemma be_value_snoc: "be_value (xs @ [x]) = be_value xs * 256 + unat x"
  by (induction xs) (auto simp: algebra_simps)

lemma be_value_be_bytes: "be_value (be_bytes n v) = v mod 256 ^ n"
proof (induction n arbitrary: v)
  case (Suc n)
  have "unat (of_nat v :: byte) = v mod 256" by (simp add: unat_of_nat)
  then show ?case using Suc[of "v div 256"] mod_mult2_eq[of v 256 "256 ^ n"]
    by (simp add: be_value_snoc algebra_simps)
qed simp

lemma length_PutUint32 [simp]: "length (PutUint32 w) = 4"
  by (simp add: PutUint32_def)

lemma Uint32_PutUint32 [simp]: "Uint32 (PutUint32 w) = w"
  using unat_bound[of w] by (simp add: Uint32_def PutUint32_def be_value_be_bytes)

lemma be_bytes_inj: "v < 256 ^ n \<Longrightarrow> v' < 256 ^ n \<Longrightarrow> be_bytes n v = be_bytes n v' \<longleftrightarrow> v = v'"
  by (metis be_value_be_bytes mod_less)

lemma PutUint64_inj: "PutUint64 v = PutUint64 w \<longleftrightarrow> v = w"
  using unat_bound[of v] unat_bound[of w]
  by (simp add: PutUint64_def be_bytes_inj word_unat_eq_iff)

section \<open>Framing\<close>

definition WriteMsg ::
  "proto_codec \<Rightarrow> ('w \<Rightarrow> bytes \<Rightarrow> 'w \<times> unit res) \<Rightarrow> 'w \<Rightarrow> envelope \<Rightarrow> 'w \<times> unit res" where
  "WriteMsg C write w env =
     (case proto_Marshal C env of
        Inl e \<Rightarrow> (w, Inl ''marshalling envelope'')
      | Inr data \<Rightarrow>
          if length data > MaxMessageSize then (w, Inl ''message too large'')
          else (case write w (PutUint32 (of_nat (length data))) of
                  (w', Inl e) \<Rightarrow> (w', Inl ''writing length prefix'')
                | (w', Inr _) \<Rightarrow>
                    (case write w' data of
                       (w'', Inl e) \<Rightarrow> (w'', Inl ''writing payload'')
                     | (w'', Inr _) \<Rightarrow> (w'', Inr ()))))"

text \<open>\<open>io.ReadFull\<close> on the bytes still to come; on a short stream it consumes them all.\<close>

definition ReadFull :: "nat \<Rightarrow> bytes \<Rightarrow> bytes res \<times> bytes" where
  "ReadFull n r = (if length r < n then (Inl ''EOF'', []) else (Inr (take n r), drop n r))"

definition ReadMsg :: "proto_codec \<Rightarrow> bytes \<Rightarrow> envelope res \<times> bytes" where
  "ReadMsg C r =
     (case ReadFull 4 r of
        (Inl e, r1) \<Rightarrow> (Inl ''reading length prefix'', r1)
      | (Inr lengthBuf, r1) \<Rightarrow>
          (let sz = Uint32 lengthBuf
           in if unat sz > MaxMessageSize then (Inl ''message too large'', r1)
              else (case ReadFull (unat sz) r1 of
                      (Inl e, r2) \<Rightarrow> (Inl ''reading payload'', r2)
                    | (Inr data, r2) \<Rightarrow>
                        (case proto_Unmarshal C data of
                           Inl e \<Rightarrow> (Inl ''unmarshalling envelope'', r2)
                         | Inr env \<Rightarrow> (Inr env, r2)))))"

section \<open>Signatures\<close>

definition signingPayload :: "msg_type \<Rightarrow> bytes \<Rightarrow> i64 \<Rightarrow> bytes" where
  "signingPayload t payload ts = PutUint32 t @ payload @ PutUint64 ts"

definition WrapMessage :: "ed25519 \<Rightarrow> time \<Rightarrow> msg_type \<Rightarrow> bytes \<Rightarrow> keypair \<Rightarrow> envelope" where
  "WrapMessage E now t payload kp =
     (let ts = unix_millis now
      in \<lparr>Type = t, Payload = payload, env_Timestamp = ts, PubKey = PublicKey kp,
          Signature = Sign E kp (signingPayload t payload ts)\<rparr>)"

definition VerifyEnvelope :: "ed25519 \<Rightarrow> envelope \<Rightarrow> bool" where
  "VerifyEnvelope E env =
     (case FromPublicKey (PubKey env) of
        Inl e \<Rightarrow> False
      | Inr kp \<Rightarrow>
          Verify E kp (signingPayload (Type env) (Payload env) (env_Timestamp env)) (Signature env))"

lemma signingPayload_inj:
  "signingPayload t p ts = signingPayload t' p' ts' \<longleftrightarrow> t = t' \<and> p = p' \<and> ts = ts'"
proof
  assume eq: "signingPayload t p ts = signingPayload t' p' ts'"
  have len: "length (PutUint64 ts) = length (PutUint64 ts')" by (simp add: PutUint64_def)
  from eq have "PutUint32 t = PutUint32 t'" "p @ PutUint64 ts = p' @ PutUint64 ts'"
    by (simp_all add: signingPayload_def append_eq_append_conv)
  with len show "t = t' \<and> p = p' \<and> ts = ts'"
    by (metis Uint32_PutUint32 PutUint64_inj append_eq_append_conv)
qed simp

lemma WrapMessage_fields [simp]:
  "Type (WrapMessage E now t payload kp) = t" "Payload (WrapMessage E now t payload kp) = payload"
  "PubKey (WrapMessage E now t payload kp) = pub kp"
  by (simp_all add: WrapMessage_def Let_def PublicKey_def)

lemma VerifyEnvelope_WrapMessage:
  assumes "ed25519_keys E" "ed25519_correct E" "FromSeed E seed = Inr kp"
  shows "VerifyEnvelope E (WrapMessage E now t payload kp)"
proof -
  have "length seed = 32" "priv kp = ed_new_key E seed" "pub kp = ed_public (ed_new_key E seed)"
    using assms(3) by (auto simp: FromSeed_def SeedSize_def Let_def split: if_splits)
  moreover have "length (ed_public (ed_new_key E seed)) = 32"
    using assms(1) \<open>length seed = 32\<close> by (simp add: ed25519_keys_def ed_public_def)
  ultimately show ?thesis using assms(2)
    by (simp add: VerifyEnvelope_def WrapMessage_def Let_def FromPublicKey_def PublicKeySize_def
        PublicKey_def Verify_def Sign_def ed25519_correct_def)
qed

section \<open>Framed streams\<close>

text \<open>
  What a reader of a framed stream relies on: a frame followed by anything decodes to its message
  and leaves the rest. Messages then arrive whole, in order, and nothing else does.
\<close>

locale framing =
  fixes enc :: "'m \<Rightarrow> bytes" and dec :: "bytes \<Rightarrow> 'm res \<times> bytes" and sendable :: "'m \<Rightarrow> bool"
  assumes dec_enc: "sendable m \<Longrightarrow> dec (enc m @ r) = (Inr m, r)"
begin

lemma dec_stream:
  "list_all sendable ms \<Longrightarrow> i < length ms \<Longrightarrow>
     dec (concat (map enc (drop i ms)) @ r) = (Inr (ms ! i), concat (map enc (drop (Suc i) ms)) @ r)"
  by (simp add: dec_enc list_all_length flip: Cons_nth_drop_Suc)

lemma enc_uniquely_decodable: "\<lbrakk> sendable a; sendable b; enc a @ r = enc b @ s \<rbrakk> \<Longrightarrow> a = b \<and> r = s"
  by (metis dec_enc Pair_inject sum.inject(2))

end

definition frame :: "proto_codec \<Rightarrow> envelope \<Rightarrow> bytes" where
  "frame C env = (case proto_Marshal C env of
     Inl e \<Rightarrow> [] | Inr data \<Rightarrow> PutUint32 (of_nat (length data)) @ data)"

definition env_sendable :: "proto_codec \<Rightarrow> envelope \<Rightarrow> bool" where
  "env_sendable C env \<longleftrightarrow>
     (case proto_Marshal C env of
        Inl e \<Rightarrow> False
      | Inr data \<Rightarrow> length data \<le> MaxMessageSize \<and> proto_Unmarshal C data = Inr env)"

lemma ReadMsg_frame:
  assumes "env_sendable C env"
  shows "ReadMsg C (frame C env @ r) = (Inr env, r)"
proof -
  obtain data where d: "proto_Marshal C env = Inr data" "length data \<le> MaxMessageSize"
    "proto_Unmarshal C data = Inr env"
    using assms by (auto simp: env_sendable_def split: sum.splits)
  have "unat (of_nat (length data) :: u32) = length data"
    using d(2) by (simp add: MaxMessageSize_def unat_of_nat)
  with d show ?thesis by (simp add: ReadMsg_def frame_def ReadFull_def Let_def)
qed

interpretation envs: framing "frame C" "ReadMsg C" "env_sendable C" for C
  by unfold_locales (rule ReadMsg_frame)

text \<open>A writer that never fails, as a buffer; and reading every message of a stream.\<close>

definition buf_write :: "bytes \<Rightarrow> bytes \<Rightarrow> bytes \<times> unit res" where
  "buf_write w b = (w @ b, Inr ())"

fun write_all :: "proto_codec \<Rightarrow> bytes \<Rightarrow> envelope list \<Rightarrow> bytes" where
  "write_all C w [] = w"
| "write_all C w (m # ms) = write_all C (fst (WriteMsg C buf_write w m)) ms"

fun read_n :: "proto_codec \<Rightarrow> nat \<Rightarrow> bytes \<Rightarrow> envelope res list \<times> bytes" where
  "read_n C 0 r = ([], r)"
| "read_n C (Suc n) r =
     (case ReadMsg C r of (m, r') \<Rightarrow> case read_n C n r' of (ms, r'') \<Rightarrow> (m # ms, r''))"

lemma WriteMsg_buf: "env_sendable C m \<Longrightarrow> WriteMsg C buf_write w m = (w @ frame C m, Inr ())"
  by (auto simp: env_sendable_def WriteMsg_def frame_def buf_write_def split: sum.splits)

lemma write_all_frames: "list_all (env_sendable C) ms \<Longrightarrow> write_all C w ms = w @ concat (map (frame C) ms)"
  by (induction ms arbitrary: w) (simp_all add: WriteMsg_buf)

lemma read_n_frames:
  "list_all (env_sendable C) ms \<Longrightarrow>
     read_n C (length ms) (concat (map (frame C) ms) @ r) = (map Inr ms, r)"
  by (induction ms) (simp_all add: envs.dec_enc)

section \<open>Properties\<close>

text \<open>A codec and an envelope, on which the properties are evaluated.\<close>

definition demo_codec :: proto_codec where
  "demo_codec =
     \<lparr>proto_Marshal = (\<lambda>e. Inr (PutUint32 (Type e) @ Payload e)),
      proto_Unmarshal = (\<lambda>b. Inr \<lparr>Type = Uint32 (take 4 b), Payload = drop 4 b, env_Timestamp = 0,
        PubKey = [], Signature = []\<rparr>)\<rparr>"

definition demo_env :: "byte \<Rightarrow> envelope" where
  "demo_env b = \<lparr>Type = PING, Payload = [b, 2, 3], env_Timestamp = 0, PubKey = [], Signature = []\<rparr>"

lemma sendable_demo: "env_sendable demo_codec (demo_env b)"
  by (simp add: env_sendable_def demo_codec_def demo_env_def MaxMessageSize_def)

text \<open>C14: Framing round trip. Any sequence of envelopes whose encoding is within 16 MB and decodes
  to itself, written one after another, is read back whole and in order from the stream, and
  the bytes that follow are left untouched.\<close>

theorem codec_roundtrip:
  assumes "list_all (env_sendable C) ms"
  shows "read_n C (length ms) (write_all C [] ms @ rest) = (map Inr ms, rest)"
  using assms by (simp add: write_all_frames read_n_frames)

theorem codec_roundtrip_witness:
  "read_n demo_codec 2 (write_all demo_codec [] [demo_env 1, demo_env 9] @ [7]) =
     ([Inr (demo_env 1), Inr (demo_env 9)], [7])"
  using codec_roundtrip[of demo_codec "[demo_env 1, demo_env 9]" "[7]"]
  by (simp add: sendable_demo numeral_2_eq_2)

text \<open>Size limits. A message over 16 MB is never written, not even in part, and a length prefix
  over 16 MB is refused before any of the payload is read; what \<open>ReadMsg\<close> consumes is never
  more than 4 bytes plus 16 MB.\<close>

theorem codec_size_limits:
  "(proto_Marshal C env = Inr data \<and> length data > MaxMessageSize \<longrightarrow>
      WriteMsg C wr w env = (w, Inl ''message too large'')) \<and>
   (unat (Uint32 (take 4 r)) > MaxMessageSize \<and> 4 \<le> length r \<longrightarrow>
      ReadMsg C r = (Inl ''message too large'', drop 4 r)) \<and>
   (\<forall>e r'. ReadMsg C r = (Inr e, r') \<longrightarrow>
      (\<exists>pre. r = pre @ r' \<and> length pre \<le> 4 + MaxMessageSize))"
proof (intro conjI allI impI)
  fix e r' assume *: "ReadMsg C r = (Inr e, r')"
  let ?n = "unat (Uint32 (take 4 r))"
  from * have "?n \<le> MaxMessageSize" "?n \<le> length (drop 4 r)" "r' = drop ?n (drop 4 r)" "4 \<le> length r"
    by (auto simp: ReadMsg_def ReadFull_def Let_def split: if_splits sum.splits)
  then show "\<exists>pre. r = pre @ r' \<and> length pre \<le> 4 + MaxMessageSize"
    by (intro exI[of _ "take (4 + ?n) r"]) (simp add: add.commute)
qed (auto simp: WriteMsg_def ReadMsg_def ReadFull_def)

theorem codec_size_limits_witness:
  "ReadMsg demo_codec [255, 0, 0, 0, 5] = (Inl ''message too large'', [5])"
proof -
  have "unat (Uint32 (take 4 [255, 0, 0, 0, 5])) > MaxMessageSize"
    by (simp add: Uint32_def MaxMessageSize_def)
  then have "ReadMsg demo_codec [255, 0, 0, 0, 5] = (Inl ''message too large'', drop 4 [255, 0, 0, 0, 5])"
    by (rule mp[OF conjunct1[OF conjunct2[OF codec_size_limits]], OF conjI]) simp
  then show ?thesis by simp
qed

text \<open>C15: Envelope authenticity. An envelope wrapped with a key made from a seed verifies. Conversely,
  when the signature of an envelope is one the key holder made for one of the messages
  \<open>made\<close> (the signature scheme is not forged), an envelope of that key that verifies carries
  the type, the payload and the timestamp of one of those messages, unaltered.\<close>

theorem envelope_authentic:
  assumes "ed25519_keys E" and "ed25519_correct E" and "FromSeed E seed = Inr kp"
    and "\<forall>m. ed_verify E (pub kp) m (Signature env) \<longrightarrow>
           m \<in> (\<lambda>(t, p, ts). signingPayload t p ts) ` set made"
  shows "VerifyEnvelope E (WrapMessage E now t payload kp) \<and>
    (VerifyEnvelope E env \<and> PubKey env = pub kp \<longrightarrow>
       (Type env, Payload env, env_Timestamp env) \<in> set made)"
proof (intro conjI impI)
  show "VerifyEnvelope E (WrapMessage E now t payload kp)"
    using assms(1-3) by (rule VerifyEnvelope_WrapMessage)
  assume "VerifyEnvelope E env \<and> PubKey env = pub kp"
  then have "ed_verify E (pub kp)
      (signingPayload (Type env) (Payload env) (env_Timestamp env)) (Signature env)"
    by (auto simp: VerifyEnvelope_def FromPublicKey_def Verify_def split: if_splits)
  with assms(4) obtain t' p' ts' where "(t', p', ts') \<in> set made"
    "signingPayload (Type env) (Payload env) (env_Timestamp env) = signingPayload t' p' ts'"
    by fastforce
  then show "(Type env, Payload env, env_Timestamp env) \<in> set made"
    by (simp add: signingPayload_inj)
qed

theorem envelope_authentic_witness:
  "VerifyEnvelope demo_ed25519 (WrapMessage demo_ed25519 0 PING [4]
     \<lparr>pub = replicate 32 1, priv = replicate 64 1\<rparr>)"
proof -
  let ?kp = "\<lparr>pub = replicate 32 1, priv = replicate 64 1\<rparr>"
  have "FromSeed demo_ed25519 (replicate 32 1) = Inr ?kp" by code_simp
  moreover have "\<forall>m. ed_verify demo_ed25519 (pub ?kp) m
      (Signature (WrapMessage demo_ed25519 0 PING [4] ?kp)) \<longrightarrow>
      m \<in> (\<lambda>(t, p, ts). signingPayload t p ts) ` set [(PING, [4], 0)]"
    by (auto simp: demo_ed25519_def WrapMessage_def Sign_def ed_public_def unix_millis_def)
  ultimately show ?thesis
    by (intro conjunct1[OF envelope_authentic[OF demo_ed25519_keys demo_ed25519_correct]])
qed

end
