(* ===== verification/Tor_Engine.thy ===== *)
theory Tor_Engine
  imports Go_Prelude
begin

text \<open>
  The hidden services of the Tor engine (\<open>src/internal/tor/engine.go\<close>): the map of running
  onions by service name and the key files that let a name keep its address. The Tor process is a
  parameter: the outcome of \<open>Listen\<close> at each call, with the documented property that the
  onion identifier is a function of the key. \<open>AddOnion\<close> runs in two critical sections; they
  are separate definitions so that other operations may be interleaved between them.
\<close>

section \<open>State\<close>

type_synonym 'k key_file = "string + 'k"

record 'k onion_service =
  svc_ID :: string
  svc_Key :: 'k

record 'k engine =
  started :: bool
  stopped :: bool
  onions :: "string \<rightharpoonup> 'k onion_service"
  key_files :: "string \<rightharpoonup> 'k key_file"

definition ErrOnionExists :: string where "ErrOnionExists = ''tor: onion service already exists''"
definition ErrOnionNotFound :: string where "ErrOnionNotFound = ''tor: onion service not found''"

definition onion_host :: "string \<Rightarrow> string" where
  "onion_host i = i @ ''.onion''"

section \<open>Operations\<close>

text \<open>The first half: the guards, the first look at the map, and the key to publish under.\<close>

definition add_prepare :: "'k engine \<Rightarrow> string \<Rightarrow> 'k option \<Rightarrow> 'k option res" where
  "add_prepare e name kp =
     (if name = '''' then Inl ''tor: onion name must not be empty''
      else if \<not> started e then Inl ''tor: engine not started''
      else if onions e name \<noteq> None then Inl ErrOnionExists
      else (case kp of
              Some k \<Rightarrow> Inr (Some k)
            | None \<Rightarrow>
                (case key_files e name of
                   None \<Rightarrow> Inr None
                 | Some (Inl err) \<Rightarrow> Inl ''loading onion key''
                 | Some (Inr k) \<Rightarrow> Inr (Some k))))"

text \<open>The second half: the outcome of \<open>Listen\<close>, the key file, the second look at the map.\<close>

definition add_commit ::
  "'k engine \<Rightarrow> string \<Rightarrow> 'k option \<Rightarrow> (string \<times> 'k) res \<Rightarrow> unit res \<Rightarrow> 'k engine \<times> string res" where
  "add_commit e name key listened saved =
     (case listened of
        Inl err \<Rightarrow> (e, Inl ''publishing onion'')
      | Inr (i, k) \<Rightarrow>
          (case (if key = None then saved else Inr ()) of
             Inl err \<Rightarrow> (e, Inl ''saving onion key'')
           | Inr _ \<Rightarrow>
               (let e1 = (if key = None then e\<lparr>key_files := (key_files e)(name \<mapsto> Inr k)\<rparr> else e)
                in if onions e1 name \<noteq> None then (e1, Inl ErrOnionExists)
                   else (e1\<lparr>onions := (onions e1)(name \<mapsto> \<lparr>svc_ID = i, svc_Key = k\<rparr>)\<rparr>,
                         Inr (onion_host i)))))"

definition AddOnion ::
  "('k option \<Rightarrow> (string \<times> 'k) res) \<Rightarrow> unit res \<Rightarrow> 'k engine \<Rightarrow> string \<Rightarrow> 'k option \<Rightarrow>
     'k engine \<times> string res" where
  "AddOnion listen saved e name kp =
     (case add_prepare e name kp of
        Inl err \<Rightarrow> (e, Inl err)
      | Inr key \<Rightarrow> add_commit e name key (listen key) saved)"

definition RemoveOnion :: "unit res \<Rightarrow> 'k engine \<Rightarrow> string \<Rightarrow> 'k engine \<times> unit res" where
  "RemoveOnion closed e name =
     (case onions e name of
        None \<Rightarrow> (e, Inl ErrOnionNotFound)
      | Some s \<Rightarrow>
          (e\<lparr>onions := (onions e)(name := None)\<rparr>,
           case closed of Inl err \<Rightarrow> Inl ''closing onion'' | Inr _ \<Rightarrow> Inr ()))"

definition engine_OnionAddr :: "'k engine \<Rightarrow> string \<Rightarrow> string option" where
  "engine_OnionAddr e name = map_option (\<lambda>s. onion_host (svc_ID s)) (onions e name)"

definition engine_Stop :: "'k engine \<Rightarrow> 'k engine" where
  "engine_Stop e = (if stopped e then e else e\<lparr>stopped := True, onions := Map.empty\<rparr>)"

section \<open>Lemmas\<close>

text \<open>\<open>Listen\<close> publishes under the key it is given, and the identifier is a function of it.\<close>

definition listens :: "('k \<Rightarrow> string) \<Rightarrow> ('k option \<Rightarrow> (string \<times> 'k) res) \<Rightarrow> bool" where
  "listens onion_of listen \<longleftrightarrow>
     (\<forall>key i k. listen key = Inr (i, k) \<longrightarrow> i = onion_of k \<and> (\<forall>k'. key = Some k' \<longrightarrow> k = k'))"

lemma listensD:
  assumes "listens onion_of listen"
  shows "listen key = Inr (i, k) \<Longrightarrow> i = onion_of k" and "listen (Some k') = Inr (i, k) \<Longrightarrow> k = k'"
  using assms by (auto simp: listens_def)

lemma AddOnion_error: "AddOnion listen saved e name kp = (e', Inl msg) \<Longrightarrow> onions e' = onions e"
  by (auto simp: AddOnion_def add_commit_def Let_def split: sum.splits if_splits prod.splits)

lemma AddOnion_ok:
  "AddOnion listen saved e name kp = (e', Inr host) \<Longrightarrow>
     onions e name = None \<and> name \<noteq> '''' \<and>
     (\<exists>i k. host = onion_host i \<and> onions e' = (onions e)(name \<mapsto> \<lparr>svc_ID = i, svc_Key = k\<rparr>))"
  by (auto simp: AddOnion_def add_commit_def add_prepare_def Let_def
      split: sum.splits if_splits prod.splits) blast+

lemma RemoveOnion_onions: "onions (fst (RemoveOnion closed e name)) = (onions e)(name := None)"
  by (auto simp: RemoveOnion_def split: option.split)

lemma RemoveOnion_key_files [simp]: "key_files (fst (RemoveOnion closed e name)) = key_files e"
  by (auto simp: RemoveOnion_def split: option.split)

text \<open>The onion of every name with a key file is the one of its key.\<close>

definition engine_ok :: "('k \<Rightarrow> string) \<Rightarrow> 'k engine \<Rightarrow> bool" where
  "engine_ok onion_of e \<longleftrightarrow>
     (\<forall>name s. onions e name = Some s \<longrightarrow>
        key_files e name = Some (Inr (svc_Key s)) \<and> svc_ID s = onion_of (svc_Key s))"

lemma engine_ok_AddOnion [inv_intros]:
  assumes "engine_ok onion_of e" and "listens onion_of listen"
  shows "engine_ok onion_of (fst (AddOnion listen saved e name None))"
  using assms(1)
  by (auto simp: AddOnion_def add_commit_def add_prepare_def Let_def engine_ok_def
      split: sum.splits option.splits if_splits prod.splits dest: listensD[OF assms(2)])

lemma engine_ok_RemoveOnion [inv_intros]:
  "engine_ok onion_of e \<Longrightarrow> engine_ok onion_of (fst (RemoveOnion closed e name))"
  by (auto simp: engine_ok_def RemoveOnion_def split: option.split)

lemma AddOnion_result:
  assumes "AddOnion listen saved e name None = (e', Inr host)" and "listens onion_of listen"
  shows "\<exists>k. key_files e' name = Some (Inr k) \<and> host = onion_host (onion_of k) \<and>
    (\<forall>k'. key_files e name = Some (Inr k') \<longrightarrow> k = k')"
  using assms(1)
  by (auto simp: AddOnion_def add_commit_def add_prepare_def Let_def
      split: sum.splits option.splits if_splits prod.splits dest: listensD[OF assms(2)])

section \<open>Properties\<close>

text \<open>A service keeps its onion address. After \<open>AddOnion\<close> published a name, tearing it down
  (whatever \<open>Close\<close> returns) and adding it again, with any later outcome of \<open>Listen\<close> that
  succeeds, publishes the same address; a second \<open>AddOnion\<close> without the teardown is refused with
  \<open>ErrOnionExists\<close> and changes nothing.\<close>

theorem onion_address_stable:
  assumes "listens onion_of listen" and "listens onion_of listen'"
    and "AddOnion listen saved e name None = (e1, Inr host)"
  shows "AddOnion listen' saved' e1 name None = (e1, Inl ErrOnionExists) \<and>
    (\<forall>e2 host'. AddOnion listen' saved' (fst (RemoveOnion closed e1 name)) name None = (e2, Inr host') \<longrightarrow>
       host' = host)"
proof (intro conjI allI impI)
  have run: "started e1" "name \<noteq> ''''" "onions e1 name \<noteq> None"
    using assms(3) by (auto simp: AddOnion_def add_commit_def add_prepare_def Let_def
        split: sum.splits option.splits if_splits prod.splits)
  then show "AddOnion listen' saved' e1 name None = (e1, Inl ErrOnionExists)"
    by (simp add: AddOnion_def add_prepare_def)
  fix e2 host' assume "AddOnion listen' saved' (fst (RemoveOnion closed e1 name)) name None = (e2, Inr host')"
  from AddOnion_result[OF this assms(2)] AddOnion_result[OF assms(3,1)]
  show "host' = host" by auto
qed

definition demo_listen :: "nat \<Rightarrow> nat option \<Rightarrow> (string \<times> nat) res" where
  "demo_listen fresh key = (let k = (case key of Some k \<Rightarrow> k | None \<Rightarrow> fresh) in Inr (replicate k CHR ''a'', k))"

definition demo_engine :: "nat engine" where
  "demo_engine = \<lparr>started = True, stopped = False, onions = Map.empty, key_files = Map.empty\<rparr>"

lemma demo_listens: "listens (\<lambda>k. replicate k CHR ''a'') (demo_listen n)"
  by (auto simp: listens_def demo_listen_def Let_def)

theorem onion_address_stable_witness:
  "snd (AddOnion (demo_listen 5) (Inr ())
      (fst (RemoveOnion (Inr ()) (fst (AddOnion (demo_listen 3) (Inr ()) demo_engine ''node'' None)) ''node''))
      ''node'' None) = Inr ''aaa.onion''"
proof -
  let ?e1 = "fst (AddOnion (demo_listen 3) (Inr ()) demo_engine ''node'' None)"
  let ?e2 = "fst (AddOnion (demo_listen 5) (Inr ()) (fst (RemoveOnion (Inr ()) ?e1 ''node'')) ''node'' None)"
  have first: "AddOnion (demo_listen 3) (Inr ()) demo_engine ''node'' None = (?e1, Inr ''aaa.onion'')"
    by (simp add: AddOnion_def add_prepare_def add_commit_def demo_engine_def demo_listen_def onion_host_def
        numeral_3_eq_3)
  have "snd (AddOnion (demo_listen 5) (Inr ()) (fst (RemoveOnion (Inr ()) ?e1 ''node'')) ''node'' None) = Inr h \<Longrightarrow>
      h = ''aaa.onion''" for h
    using onion_address_stable[OF demo_listens demo_listens first,
      where saved' = "Inr ()" and closed = "Inr ()"]
    by (metis prod.collapse)
  moreover have "\<exists>h. snd (AddOnion (demo_listen 5) (Inr ()) (fst (RemoveOnion (Inr ()) ?e1 ''node''))
      ''node'' None) = Inr h"
    by (simp add: AddOnion_def add_prepare_def add_commit_def RemoveOnion_def demo_engine_def demo_listen_def)
  ultimately show ?thesis by auto
qed

end
