(* ===== verification/Registry.thy ===== *)
theory Registry
  imports Tor_Engine Dht_Props "HOL-Library.AList" "HOL-Library.Char_ord" "HOL-Library.List_Lexorder"
begin

text \<open>
  The service registry (\<open>src/internal/services/service.go\<close>, \<open>registry.go\<close>): registering
  a service loads or makes its key, publishes its onion, enters it in the two maps, advertises it and
  runs the daemon's hook, undoing the earlier steps when a later one fails. The keystore is a parameter
  (the outcome of \<open>GetOrGenerate\<close>), the Tor engine is the model of \<open>Tor_Engine\<close>, and the
  discovery layer is used through the interface \<open>discovery\<close>, which the DHT provides.
\<close>

section \<open>Services\<close>

datatype ACL = ACLPublic | ACLContacts | ACLAllowlist

record manifest =
  Description :: string
  acl :: ACL
  Allowlist :: "string list"

text \<open>The interfaces a handler value may implement.\<close>

datatype handler_kind = ChatHandler | FileHandler | ConnectionHandler

record service =
  Name :: string
  svc_Address :: string
  svc_OnionAddr :: string
  svc_Identity :: keypair
  Manifest :: manifest
  Handlers :: "handler_kind list option"

definition implements :: "handler_kind \<Rightarrow> service \<Rightarrow> bool" where
  "implements k s \<longleftrightarrow> (case Handlers s of None \<Rightarrow> False | Some hs \<Rightarrow> k \<in> set hs)"

definition AsChat :: "service \<Rightarrow> bool" where "AsChat s = implements ChatHandler s"
definition AsFile :: "service \<Rightarrow> bool" where "AsFile s = implements FileHandler s"
definition AsConnection :: "service \<Rightarrow> bool" where "AsConnection s = implements ConnectionHandler s"

section \<open>State\<close>

definition ErrAlreadyRegistered :: string where
  "ErrAlreadyRegistered = ''services: service already registered''"

definition ErrNotRegistered :: string where
  "ErrNotRegistered = ''services: service not registered''"

text \<open>
  The maps are association lists, so that \<open>List\<close> and the replay loops can walk them; Go walks
  them in no particular order. Calls of the hooks are logged; a hook may fail.
\<close>

datatype hook_call = Registered service | Unregistered service

record ('d, 'k) registry =
  te :: "'k engine"
  byName :: "(string \<times> service) list"
  byOnion :: "(string \<times> service) list"
  disc :: "'d option"
  onRegister :: "(service \<Rightarrow> unit res) option"
  onUnregister :: bool
  hook_calls :: "hook_call list"

record ('d, 'k) reg_env =
  H :: hashes
  GetOrGenerate :: "string \<Rightarrow> keypair res"
  te_listen :: "'k option \<Rightarrow> (string \<times> 'k) res"
  te_saved :: "unit res"
  te_closed :: "unit res"
  disc_add :: "'d \<Rightarrow> string \<Rightarrow> string \<Rightarrow> 'd res"
  disc_remove :: "'d \<Rightarrow> string \<Rightarrow> 'd"

definition registry_New :: "'k engine \<Rightarrow> ('d, 'k) registry" where
  "registry_New e = \<lparr>te = e, byName = [], byOnion = [], disc = None, onRegister = None,
     onUnregister = False, hook_calls = []\<rparr>"

section \<open>Register\<close>

definition drop_service :: "('d, 'k) registry \<Rightarrow> string \<Rightarrow> string \<Rightarrow> ('d, 'k) registry" where
  "drop_service r name onion =
     r\<lparr>byName := AList.delete name (byName r), byOnion := AList.delete onion (byOnion r)\<rparr>"

definition rollback_onion ::
  "('d, 'k) reg_env \<Rightarrow> ('d, 'k) registry \<Rightarrow> string \<Rightarrow> ('d, 'k) registry \<times> bool" where
  "rollback_onion env r name =
     (case RemoveOnion (te_closed env) (te r) name of
        (e, Inl err) \<Rightarrow> (r\<lparr>te := e\<rparr>, False)
      | (e, Inr _) \<Rightarrow> (r\<lparr>te := e\<rparr>, True))"

text \<open>The critical section that enters the service, with its second look at the name.\<close>

definition register_insert ::
  "('d, 'k) reg_env \<Rightarrow> ('d, 'k) registry \<Rightarrow> service \<Rightarrow> ('d, 'k) registry \<times> unit res" where
  "register_insert env r svc =
     (if map_of (byName r) (Name svc) \<noteq> None then
        (case rollback_onion env r (Name svc) of
           (r', False) \<Rightarrow> (r', Inl ''rolling back onion after race'')
         | (r', True) \<Rightarrow> (r', Inl ErrAlreadyRegistered))
      else (r\<lparr>byName := AList.update (Name svc) svc (byName r),
              byOnion := AList.update (svc_OnionAddr svc) svc (byOnion r)\<rparr>, Inr ()))"

definition register_advertise ::
  "('d, 'k) reg_env \<Rightarrow> ('d, 'k) registry \<Rightarrow> service \<Rightarrow> ('d, 'k) registry \<times> unit res" where
  "register_advertise env r svc =
     (case disc r of
        None \<Rightarrow> (r, Inr ())
      | Some d \<Rightarrow>
          (case disc_add env d (svc_Address svc) (svc_OnionAddr svc) of
             Inr d' \<Rightarrow> (r\<lparr>disc := Some d'\<rparr>, Inr ())
           | Inl err \<Rightarrow>
               (case rollback_onion env (drop_service r (Name svc) (svc_OnionAddr svc)) (Name svc) of
                  (r', False) \<Rightarrow> (r', Inl ''advertising (rollback also failed)'')
                | (r', True) \<Rightarrow> (r', Inl ''advertising''))))"

definition register_hook ::
  "('d, 'k) reg_env \<Rightarrow> ('d, 'k) registry \<Rightarrow> service \<Rightarrow> ('d, 'k) registry \<times> unit res" where
  "register_hook env r svc =
     (case onRegister r of
        None \<Rightarrow> (r, Inr ())
      | Some cb \<Rightarrow>
          (let r1 = r\<lparr>hook_calls := hook_calls r @ [Registered svc]\<rparr>
           in case cb svc of
                Inr _ \<Rightarrow> (r1, Inr ())
              | Inl err \<Rightarrow>
                  (let r2 = drop_service r1 (Name svc) (svc_OnionAddr svc);
                       r3 = r2\<lparr>disc := map_option (\<lambda>d. disc_remove env d (svc_Address svc)) (disc r2)\<rparr>
                   in case rollback_onion env r3 (Name svc) of
                        (r', False) \<Rightarrow> (r', Inl ''onRegister hook (rollback also failed)'')
                      | (r', True) \<Rightarrow> (r', Inl ''onRegister hook''))))"

definition new_service ::
  "('d, 'k) reg_env \<Rightarrow> string \<Rightarrow> keypair \<Rightarrow> string \<Rightarrow> manifest \<Rightarrow> handler_kind list option \<Rightarrow> service" where
  "new_service env name kp onion m hs =
     \<lparr>Name = name, svc_Address = DeriveAddress (H env) (PublicKey kp), svc_OnionAddr = onion,
      svc_Identity = kp, Manifest = m, Handlers = hs\<rparr>"

definition Register ::
  "('d, 'k) reg_env \<Rightarrow> ('d, 'k) registry \<Rightarrow> string \<Rightarrow> manifest \<Rightarrow> handler_kind list option \<Rightarrow>
     ('d, 'k) registry \<times> service res" where
  "Register env r name m hs =
     (if map_of (byName r) name \<noteq> None then (r, Inl ErrAlreadyRegistered)
      else (case GetOrGenerate env name of
        Inl err \<Rightarrow> (r, Inl ''loading identity'')
      | Inr kp \<Rightarrow>
          (case AddOnion (te_listen env) (te_saved env) (te r) name None of
             (e, Inl err) \<Rightarrow> (r\<lparr>te := e\<rparr>, Inl ''publishing onion'')
           | (e, Inr onion) \<Rightarrow>
               (let svc = new_service env name kp onion m hs
                in case register_insert env (r\<lparr>te := e\<rparr>) svc of
                     (r1, Inl err) \<Rightarrow> (r1, Inl err)
                   | (r1, Inr _) \<Rightarrow>
                       (case register_advertise env r1 svc of
                          (r2, Inl err) \<Rightarrow> (r2, Inl err)
                        | (r2, Inr _) \<Rightarrow>
                            (case register_hook env r2 svc of
                               (r3, Inl err) \<Rightarrow> (r3, Inl err)
                             | (r3, Inr _) \<Rightarrow> (r3, Inr svc)))))))"

section \<open>The other operations\<close>

definition Unregister ::
  "('d, 'k) reg_env \<Rightarrow> ('d, 'k) registry \<Rightarrow> string \<Rightarrow> ('d, 'k) registry \<times> unit res" where
  "Unregister env r name =
     (case map_of (byName r) name of
        None \<Rightarrow> (r, Inl ErrNotRegistered)
      | Some svc \<Rightarrow>
          (let r1 = drop_service r name (svc_OnionAddr svc);
               r2 = (if onUnregister r1 then r1\<lparr>hook_calls := hook_calls r1 @ [Unregistered svc]\<rparr> else r1);
               r3 = r2\<lparr>disc := map_option (\<lambda>d. disc_remove env d (svc_Address svc)) (disc r2)\<rparr>
           in case rollback_onion env r3 name of
                (r', False) \<Rightarrow> (r', Inl ''removing onion'')
              | (r', True) \<Rightarrow> (r', Inr ())))"

definition SetOnRegister ::
  "('d, 'k) registry \<Rightarrow> (service \<Rightarrow> unit res) option \<Rightarrow> ('d, 'k) registry" where
  "SetOnRegister r cb =
     r\<lparr>onRegister := cb,
       hook_calls := hook_calls r @
         (if cb = None then [] else map (Registered \<circ> snd) (byName r))\<rparr>"

definition SetOnUnregister :: "('d, 'k) registry \<Rightarrow> bool \<Rightarrow> ('d, 'k) registry" where
  "SetOnUnregister r installed = r\<lparr>onUnregister := installed\<rparr>"

fun advertise_all ::
  "('d \<Rightarrow> string \<Rightarrow> string \<Rightarrow> 'd res) \<Rightarrow> 'd \<Rightarrow> service list \<Rightarrow> 'd" where
  "advertise_all add d [] = d"
| "advertise_all add d (s # ss) =
     (case add d (svc_Address s) (svc_OnionAddr s) of
        Inl err \<Rightarrow> advertise_all add d ss
      | Inr d' \<Rightarrow> advertise_all add d' ss)"

definition SetDiscovery ::
  "('d, 'k) reg_env \<Rightarrow> ('d, 'k) registry \<Rightarrow> 'd option \<Rightarrow> ('d, 'k) registry" where
  "SetDiscovery env r d =
     r\<lparr>disc := map_option (\<lambda>d. advertise_all (disc_add env) d (map snd (byName r))) d\<rparr>"

definition Get :: "('d, 'k) registry \<Rightarrow> string \<Rightarrow> service option" where
  "Get r name = map_of (byName r) name"

definition LookupByOnion :: "('d, 'k) registry \<Rightarrow> string \<Rightarrow> service option" where
  "LookupByOnion r onion = map_of (byOnion r) onion"

definition name_less :: "service \<Rightarrow> service \<Rightarrow> bool" where
  "name_less s t \<longleftrightarrow> Name s < Name t"

definition List :: "('d, 'k) registry \<Rightarrow> service list" where
  "List r = sort_slice name_less (map snd (byName r))"

end
