(* ===== verification/Filepath.thy ===== *)
theory Filepath
  imports Go_Prelude
begin

text \<open>
  The part of Go's \<open>path/filepath\<close> the sources use, on a Unix target: \<open>Join\<close>,
  \<open>Clean\<close>, \<open>Base\<close> and \<open>Dir\<close>. A path is cut at its slashes; \<open>Clean\<close> drops empty and
  \<open>.\<close> elements and lets \<open>..\<close> take back the element before it.
\<close>

definition slash :: char where "slash = CHR 0x2F"

fun split_path :: "string \<Rightarrow> string list" where
  "split_path [] = [[]]"
| "split_path (c # cs) =
     (if c = slash then [] # split_path cs
      else (case split_path cs of [] \<Rightarrow> [[c]] | e # es \<Rightarrow> (c # e) # es))"

fun join_path :: "string list \<Rightarrow> string" where
  "join_path [] = []"
| "join_path [e] = e"
| "join_path (e # es) = e @ slash # join_path es"

text \<open>One element; \<open>out\<close> holds the elements kept so far, the last one first.\<close>

definition clean_step :: "bool \<Rightarrow> string list \<Rightarrow> string \<Rightarrow> string list" where
  "clean_step rooted out e =
     (if e = '''' \<or> e = ''.'' then out
      else if e = ''..'' then
        (case out of
           [] \<Rightarrow> if rooted then [] else [''..'']
         | x # xs \<Rightarrow> if x = ''..'' then ''..'' # out else xs)
      else e # out)"

definition is_rooted :: "string \<Rightarrow> bool" where
  "is_rooted p = (p \<noteq> [] \<and> hd p = slash)"

definition clean_elems :: "string \<Rightarrow> string list" where
  "clean_elems p = rev (foldl (clean_step (is_rooted p)) [] (split_path p))"

definition path_of :: "bool \<Rightarrow> string list \<Rightarrow> string" where
  "path_of rooted es = (if rooted then slash # join_path es else if es = [] then ''.'' else join_path es)"

definition Clean :: "string \<Rightarrow> string" where
  "Clean p = path_of (is_rooted p) (clean_elems p)"

definition Join :: "string \<Rightarrow> string \<Rightarrow> string" where
  "Join a b = (if a \<noteq> '''' then Clean (a @ slash # b) else if b \<noteq> '''' then Clean b else '''')"

text \<open>\<open>Base\<close>: trailing slashes stripped, then everything up to the last slash.\<close>

definition Base :: "string \<Rightarrow> string" where
  "Base p =
     (if p = '''' then ''.''
      else (let q = rev (dropWhile (\<lambda>c. c = slash) (rev p))
            in if q = '''' then [slash] else rev (takeWhile (\<lambda>c. c \<noteq> slash) (rev q))))"

text \<open>\<open>Dir\<close>: everything up to the last slash, cleaned.\<close>

definition Dir :: "string \<Rightarrow> string" where
  "Dir p = Clean (rev (dropWhile (\<lambda>c. c \<noteq> slash) (rev p)))"

section \<open>Lemmas\<close>

lemma split_path_ne [simp]: "split_path p \<noteq> []"
  by (cases p) (auto split: list.splits)

lemma split_path_append: "split_path (p @ slash # q) = split_path p @ split_path q"
  by (induction p) (auto split: list.splits simp: append_eq_Cons_conv)

lemma split_path_plain: "slash \<notin> set e \<Longrightarrow> split_path e = [e]"
  by (induction e) auto

text \<open>An element that is an ordinary name.\<close>

definition plain :: "string \<Rightarrow> bool" where
  "plain e \<longleftrightarrow> slash \<notin> set e \<and> e \<noteq> '''' \<and> e \<noteq> ''.'' \<and> e \<noteq> ''..''"

lemma is_rooted_append: "p \<noteq> [] \<Longrightarrow> is_rooted (p @ q) = is_rooted p"
  by (simp add: is_rooted_def)

lemma clean_elems_Join_plain: "p \<noteq> [] \<Longrightarrow> plain e \<Longrightarrow> clean_elems (p @ slash # e) = clean_elems p @ [e]"
  by (simp add: clean_elems_def split_path_append split_path_plain is_rooted_append plain_def clean_step_def)

lemma clean_elems_Join_dotdot:
  assumes "p \<noteq> []" and "clean_elems p = es @ [e]" and "e \<noteq> ''..''" and "plain f"
  shows "clean_elems (p @ slash # ''..'' @ slash # f) = es @ [f]"
proof -
  let ?r = "is_rooted p"
  have fold: "foldl (clean_step ?r) [] (split_path p) = e # rev es"
    using assms(2) unfolding clean_elems_def by (metis rev_append rev_rev_ident rev.simps append_Cons append_Nil)
  have "split_path (p @ slash # ''..'' @ slash # f) = split_path p @ [''..'', f]"
  proof -
    have "slash \<notin> set ''..''" by (simp add: slash_def)
    then have "split_path ''..'' = [''..'']" by (rule split_path_plain)
    moreover have "split_path f = [f]" using assms(4) by (simp add: plain_def split_path_plain)
    ultimately have "split_path (''..'' @ slash # f) = [''..'', f]"
      using split_path_append[of "''..''" f] by (simp only: append_Cons append_Nil)
    with split_path_append[of p "''..'' @ slash # f"] show ?thesis by (simp only:)
  qed
  moreover have "clean_step ?r (e # rev es) ''..'' = rev es" using assms(3) by (simp add: clean_step_def)
  moreover have "clean_step ?r (rev es) f = f # rev es" using assms(4) by (simp add: clean_step_def plain_def)
  ultimately show ?thesis using fold assms(1)
    by (simp add: clean_elems_def is_rooted_append)
qed

section \<open>Paths joined under a directory\<close>

text \<open>\<open>Join\<close> of any number of elements: the leading empty ones are skipped.\<close>

definition join_all :: "string list \<Rightarrow> string" where
  "join_all es = (case dropWhile (\<lambda>e. e = '''') es of [] \<Rightarrow> '''' | f # fs \<Rightarrow> Clean (join_path (f # fs)))"

lemma split_path_slash_free: "e \<in> set (split_path p) \<Longrightarrow> slash \<notin> set e"
  by (induction p arbitrary: e) (auto split: if_splits list.splits)

lemma split_join_path: "es \<noteq> [] \<Longrightarrow> \<forall>e \<in> set es. slash \<notin> set e \<Longrightarrow> split_path (join_path es) = es"
  by (induction es rule: join_path.induct) (auto simp: split_path_plain split_path_append)

lemma clean_step_set: "set (foldl (clean_step r) out es) \<subseteq> set out \<union> set es \<union> {''..''}"
proof (induction es arbitrary: out)
  case (Cons e es)
  have "set (clean_step r out e) \<subseteq> set out \<union> {e} \<union> {''..''}"
    by (auto simp: clean_step_def split: list.splits if_splits)
  with Cons.IH[of "clean_step r out e"] show ?case by auto
qed auto

lemma clean_elems_slash_free: "e \<in> set (clean_elems p) \<Longrightarrow> slash \<notin> set e"
  using clean_step_set[of "is_rooted p" "[]" "split_path p"] split_path_slash_free[of e p]
  by (auto simp: clean_elems_def slash_def)

lemma path_of_inj:
  assumes "path_of r es = path_of r fs" "es \<noteq> []" "fs \<noteq> []"
    and "\<forall>e \<in> set es. slash \<notin> set e" "\<forall>e \<in> set fs. slash \<notin> set e"
  shows "es = fs"
proof -
  have "join_path es = join_path fs" using assms(1-3) by (auto simp: path_of_def split: if_splits)
  then show ?thesis using split_join_path assms(2-5) by metis
qed

lemma foldl_clean_plain: "\<forall>e \<in> set es. plain e \<Longrightarrow> foldl (clean_step r) out es = rev es @ out"
  by (induction es arbitrary: out) (auto simp: clean_step_def plain_def)

text \<open>The elements of a directory in front of plain names.\<close>

definition dir_elems :: "string \<Rightarrow> string list" where
  "dir_elems d = (if d = '''' then [] else clean_elems d)"

lemma join_all_plain:
  assumes "es \<noteq> []" "\<forall>e \<in> set es. plain e"
  shows "join_all (d # es) = path_of (is_rooted d) (dir_elems d @ es)"
proof -
  have sf: "\<forall>e \<in> set es. slash \<notin> set e" using assms(2) by (auto simp: plain_def)
  obtain e es' where es: "es = e # es'" using assms(1) by (cases es) auto
  have split: "split_path (join_path es) = es" using split_join_path assms(1) sf by blast
  have "plain e" using assms(2) es by simp
  then have free: "e \<noteq> []" "slash \<notin> set e" unfolding plain_def by simp_all
  have hd_e: "e \<noteq> []" "hd e \<noteq> slash" using free(1) hd_in_set[OF free(1)] free(2) by metis+
  then have nr: "\<not> is_rooted (join_path es)" by (cases es') (auto simp: is_rooted_def es)
  show ?thesis
  proof (cases "d = ''''")
    case True
    have "clean_elems (join_path es) = es"
      using split nr foldl_clean_plain[OF assms(2), of False "[]"] by (simp add: clean_elems_def)
    moreover have "join_all (d # es) = Clean (join_path es)" using True hd_e es by (simp add: join_all_def)
    moreover have "\<not> is_rooted d" using True by (simp add: is_rooted_def)
    ultimately show ?thesis using True nr by (simp add: Clean_def dir_elems_def)
  next
    case False
    have "join_all (d # es) = Clean (d @ slash # join_path es)" using False es by (simp add: join_all_def)
    moreover have "clean_elems (d @ slash # join_path es) = clean_elems d @ es"
      using split foldl_clean_plain[OF assms(2)] False
      by (simp add: clean_elems_def split_path_append is_rooted_append)
    ultimately show ?thesis using False by (simp add: Clean_def dir_elems_def is_rooted_append)
  qed
qed

lemma join_all_plain_inj:
  assumes "es \<noteq> []" "\<forall>e \<in> set es. plain e" "fs \<noteq> []" "\<forall>e \<in> set fs. plain e"
  shows "join_all (d # es) = join_all (d # fs) \<longleftrightarrow> es = fs"
proof
  assume "join_all (d # es) = join_all (d # fs)"
  then have "path_of (is_rooted d) (dir_elems d @ es) = path_of (is_rooted d) (dir_elems d @ fs)"
    using join_all_plain assms by simp
  moreover have "\<forall>e \<in> set (dir_elems d @ es). slash \<notin> set e" "\<forall>e \<in> set (dir_elems d @ fs). slash \<notin> set e"
    using assms clean_elems_slash_free by (auto simp: dir_elems_def plain_def split: if_splits)
  ultimately have "dir_elems d @ es = dir_elems d @ fs" using assms(1,3) by (intro path_of_inj) auto
  then show "es = fs" by simp
qed simp

end
