(* ===== verification/File_Transfer.thy ===== *)
theory File_Transfer
  imports Merkle Chunker Codec Registry Filepath
begin

text \<open>
  File transfer (\<open>src/internal/filetransfer/sender.go\<close>, \<open>receiver.go\<close>): the sender's
  sliding window with acknowledgements and retransmission, the receiver's verification and
  reassembly, and the offer/accept exchange that precedes them. A transfer stream is a state
  \<open>'w\<close> with operations to read, write and ask whether the context is done; the messages on it are
  the decoded protobuf payloads. The sender's loop may run for ever against a peer that keeps
  acknowledging the same chunk, so the loops carry fuel and return \<open>None\<close> when it runs out.
\<close>

definition WindowSize :: u32 where "WindowSize = 8"
definition MaxRetries :: int where "MaxRetries = 3"

section \<open>Messages and streams\<close>

record file_chunk =
  fc_TransferId :: string
  fc_Index :: u32
  fc_Data :: bytes
  fc_Hash :: bytes
  fc_Proof :: "bytes list"

record file_offer_msg =
  fo_TransferId :: string
  fo_Filename :: string
  fo_Size :: u64
  fo_RootHash :: bytes
  fo_ChunkSize :: u32
  fo_ChunkCount :: u32

datatype file_msg =
    FileOfferMsg file_offer_msg
  | FileAccept string
  | FileReject string string
  | FileChunkMsg file_chunk
  | FileChunkAck string u32 bool
  | FileComplete string
  | FileCancel string
  | BadChunk
  | BadAck
  | OtherMsg msg_type

record 'w stream_io =
  ctx_cancelled :: "'w \<Rightarrow> bool"
  st_write :: "'w \<Rightarrow> file_msg \<Rightarrow> 'w \<times> unit res"
  st_read :: "'w \<Rightarrow> 'w \<times> file_msg res"
  st_files :: "'w \<Rightarrow> filesystem"

section \<open>Transfers\<close>

record transfer =
  xf_ID :: string
  xf_Filename :: string
  xf_FileSize :: int
  xf_ChunkSize :: int
  xf_Total :: u32
  xf_RootHash :: bytes
  xf_PeerAddr :: string
  xf_Direction :: string
  xf_acked :: u32
  xf_failed :: bool

definition Acked :: "transfer \<Rightarrow> u32" where "Acked t = xf_acked t"
definition Failed :: "transfer \<Rightarrow> bool" where "Failed t = xf_failed t"

section \<open>Sending chunks\<close>

text \<open>The local variables of \<open>sendChunks\<close>, with the transfer and the calls of the progress
  callback. The map \<open>acked\<close> only ever holds \<open>true\<close>; it is its list of keys.\<close>

record sending =
  retries :: "u32 \<Rightarrow> int"
  nextToSend :: u32
  inFlight :: u32
  acked :: "u32 list"
  s_xfer :: transfer
  s_progress :: "(u32 \<times> u32) list"

definition sendOneChunk ::
  "(bytes \<Rightarrow> bytes) \<Rightarrow> 'w stream_io \<Rightarrow> chunker \<Rightarrow> merkle_tree \<Rightarrow> string \<Rightarrow> u32 \<Rightarrow> 'w \<Rightarrow> 'w \<times> unit res" where
  "sendOneChunk sha io c tree tid index w =
     (case ReadChunk sha (st_files io w) c index of
        Inl e \<Rightarrow> (w, Inl ''reading chunk'')
      | Inr ch \<Rightarrow>
          (case Proof tree (uint index) of
             Inl e \<Rightarrow> (w, Inl ''generating proof'')
           | Inr pf \<Rightarrow>
               st_write io w (FileChunkMsg \<lparr>fc_TransferId = tid, fc_Index = index, fc_Data = Data ch,
                                          fc_Hash = Hash ch, fc_Proof = pf\<rparr>)))"

text \<open>The inner loop: send up to the window.\<close>

function fill_window ::
  "(bytes \<Rightarrow> bytes) \<Rightarrow> 'w stream_io \<Rightarrow> chunker \<Rightarrow> merkle_tree \<Rightarrow> sending \<Rightarrow> 'w \<Rightarrow> 'w \<times> sending \<times> unit res" where
  "fill_window sha io c tree s w =
     (if inFlight s < WindowSize \<and> nextToSend s < total c then
        if nextToSend s \<in> set (acked s)
        then fill_window sha io c tree (s\<lparr>nextToSend := nextToSend s + 1\<rparr>) w
        else (case sendOneChunk sha io c tree (xf_ID (s_xfer s)) (nextToSend s) w of
                (w', Inl e) \<Rightarrow> (w', s, Inl ''sending chunk'')
              | (w', Inr _) \<Rightarrow>
                  fill_window sha io c tree
                    (s\<lparr>inFlight := inFlight s + 1, nextToSend := nextToSend s + 1\<rparr>) w')
      else (w, s, Inr ()))"
  by pat_completeness auto

termination fill_window
proof (relation "measure (\<lambda>(sha, io, c, tree, s, w). unat (total c) - unat (nextToSend s))")
qed (auto simp: unat_succ word_less_nat_alt)

declare fill_window.simps [simp del]

definition take_ack :: "chunker \<Rightarrow> sending \<Rightarrow> u32 \<Rightarrow> sending" where
  "take_ack c s i =
     (let a = List.insert i (acked s)
      in s\<lparr>acked := a, s_xfer := (s_xfer s)\<lparr>xf_acked := xf_acked (s_xfer s) + 1\<rparr>,
           s_progress := s_progress s @ [(of_nat (length a), total c)]\<rparr>)"

definition handle_ack ::
  "(bytes \<Rightarrow> bytes) \<Rightarrow> 'w stream_io \<Rightarrow> chunker \<Rightarrow> merkle_tree \<Rightarrow> sending \<Rightarrow> u32 \<Rightarrow> bool \<Rightarrow> 'w \<Rightarrow>
     'w \<times> sending \<times> unit res" where
  "handle_ack sha io c tree s i valid w =
     (let s2 = s\<lparr>inFlight := inFlight s - 1\<rparr>
      in if valid then (w, take_ack c s2 i, Inr ())
         else (let s3 = s2\<lparr>retries := (retries s2)(i := retries s2 i + 1)\<rparr>
               in if retries s3 i > MaxRetries then (w, s3, Inl ''chunk failed verification'')
                  else (case sendOneChunk sha io c tree (xf_ID (s_xfer s3)) i w of
                          (w', Inl e) \<Rightarrow> (w', s3, Inl ''retransmitting chunk'')
                        | (w', Inr _) \<Rightarrow> (w', s3\<lparr>inFlight := inFlight s3 + 1\<rparr>, Inr ()))))"

fun send_loop ::
  "nat \<Rightarrow> (bytes \<Rightarrow> bytes) \<Rightarrow> 'w stream_io \<Rightarrow> chunker \<Rightarrow> merkle_tree \<Rightarrow> sending \<Rightarrow> 'w \<Rightarrow>
     ('w \<times> sending \<times> unit res) option" where
  "send_loop 0 sha io c tree s w = None"
| "send_loop (Suc n) sha io c tree s w =
     (if ctx_cancelled io w then Some (w, s, Inl ''context done'')
      else (case fill_window sha io c tree s w of
        (w1, s1, Inl e) \<Rightarrow> Some (w1, s1, Inl e)
      | (w1, s1, Inr _) \<Rightarrow>
          if length (acked s1) \<ge> unat (total c) then
            (case st_write io w1 (FileComplete (xf_ID (s_xfer s1))) of
               (w2, Inl e) \<Rightarrow> Some (w2, s1, Inl ''sending complete'')
             | (w2, Inr _) \<Rightarrow> Some (w2, s1, Inr ()))
          else
            (case st_read io w1 of
               (w2, Inl e) \<Rightarrow> Some (w2, s1, Inl ''reading ACK'')
             | (w2, Inr (FileCancel t)) \<Rightarrow> Some (w2, s1, Inl ''transfer cancelled by peer'')
             | (w2, Inr BadAck) \<Rightarrow> Some (w2, s1, Inl ''unmarshaling ACK'')
             | (w2, Inr (FileChunkAck t i valid)) \<Rightarrow>
                 (case handle_ack sha io c tree s1 i valid w2 of
                    (w3, s3, Inl e) \<Rightarrow> Some (w3, s3, Inl e)
                  | (w3, s3, Inr _) \<Rightarrow> send_loop n sha io c tree s3 w3)
             | (w2, Inr m) \<Rightarrow> Some (w2, s1, Inl ''unexpected message type''))))"

definition sendChunks ::
  "nat \<Rightarrow> (bytes \<Rightarrow> bytes) \<Rightarrow> 'w stream_io \<Rightarrow> chunker \<Rightarrow> merkle_tree \<Rightarrow> transfer \<Rightarrow> 'w \<Rightarrow>
     ('w \<times> sending \<times> unit res) option" where
  "sendChunks n sha io c tree x w =
     send_loop n sha io c tree
       \<lparr>retries = (\<lambda>_. 0), nextToSend = 0, inFlight = 0, acked = [], s_xfer = x, s_progress = []\<rparr> w"

section \<open>Receiving chunks\<close>

type_synonym chunk_map = "(u32 \<times> bytes) list"

record receiving =
  chunks :: chunk_map
  r_xfer :: transfer
  r_progress :: "(u32 \<times> u32) list"

definition chunk_valid :: "(bytes \<Rightarrow> bytes) \<Rightarrow> bytes \<Rightarrow> file_chunk \<Rightarrow> bool" where
  "chunk_valid sha root fc =
     (let hashValid = (sha (fc_Data fc) = fc_Hash fc);
          proofValid = (hashValid \<and> VerifyProof sha (fc_Hash fc) (uint (fc_Index fc)) (fc_Proof fc) root)
      in hashValid \<and> proofValid)"

definition store_chunk :: "receiving \<Rightarrow> file_chunk \<Rightarrow> receiving" where
  "store_chunk r fc =
     (let cs = AList.update (fc_Index fc) (fc_Data fc) (chunks r)
      in r\<lparr>chunks := cs, r_xfer := (r_xfer r)\<lparr>xf_acked := xf_acked (r_xfer r) + 1\<rparr>,
           r_progress := r_progress r @ [(of_nat (length cs), xf_Total (r_xfer r))]\<rparr>)"

text \<open>What the receiver does with one message: acknowledge and go on, reassemble, or fail.\<close>

datatype recv_action = SendAck file_msg receiving | DoReassemble | Fail string

definition recv_msg :: "(bytes \<Rightarrow> bytes) \<Rightarrow> receiving \<Rightarrow> file_msg \<Rightarrow> recv_action" where
  "recv_msg sha r m =
     (case m of
        FileChunkMsg fc \<Rightarrow>
          (let valid = chunk_valid sha (xf_RootHash (r_xfer r)) fc
           in SendAck (FileChunkAck (xf_ID (r_xfer r)) (fc_Index fc) valid)
                (if valid then store_chunk r fc else r))
      | BadChunk \<Rightarrow> Fail ''unmarshaling chunk''
      | FileComplete t \<Rightarrow> DoReassemble
      | FileCancel t \<Rightarrow> Fail ''transfer cancelled by sender''
      | _ \<Rightarrow> Fail ''unexpected message type'')"

text \<open>The outcomes of the file operations of \<open>reassemble\<close>; the result is the path and the
  bytes written to it, if the file was created.\<close>

record disk =
  disk_mkdir :: "unit res"
  disk_create :: "unit res"
  disk_write :: "nat \<Rightarrow> unit res"

fun write_chunks :: "disk \<Rightarrow> chunk_map \<Rightarrow> nat list \<Rightarrow> bytes \<Rightarrow> bytes \<times> unit res" where
  "write_chunks dk cs [] out = (out, Inr ())"
| "write_chunks dk cs (i # is) out =
     (case map_of cs (of_nat i) of
        None \<Rightarrow> (out, Inl ''missing chunk'')
      | Some d \<Rightarrow>
          (case disk_write dk i of
             Inl e \<Rightarrow> (out, Inl ''writing chunk'')
           | Inr _ \<Rightarrow> write_chunks dk cs is (out @ d)))"

definition reassemble ::
  "disk \<Rightarrow> transfer \<Rightarrow> chunk_map \<Rightarrow> string \<Rightarrow> (string \<times> bytes) option \<times> unit res" where
  "reassemble dk x cs saveDir =
     (if (of_nat (length cs) :: u32) \<noteq> xf_Total x then (None, Inl ''incomplete transfer'')
      else (case disk_mkdir dk of
              Inl e \<Rightarrow> (None, Inl ''creating save directory'')
            | Inr _ \<Rightarrow>
                (let outPath = Join saveDir (xf_Filename x)
                 in case disk_create dk of
                      Inl e \<Rightarrow> (None, Inl ''creating output file'')
                    | Inr _ \<Rightarrow>
                        (case write_chunks dk cs [0..<unat (xf_Total x)] [] of
                           (out, res) \<Rightarrow> (Some (outPath, out), res)))))"

fun receiveChunks ::
  "nat \<Rightarrow> (bytes \<Rightarrow> bytes) \<Rightarrow> 'w stream_io \<Rightarrow> disk \<Rightarrow> string \<Rightarrow> receiving \<Rightarrow> 'w \<Rightarrow>
     ('w \<times> receiving \<times> (string \<times> bytes) option \<times> unit res) option" where
  "receiveChunks 0 sha io dk saveDir r w = None"
| "receiveChunks (Suc n) sha io dk saveDir r w =
     (case st_read io w of
        (w1, Inl e) \<Rightarrow> Some (w1, r, None, Inl ''reading chunk'')
      | (w1, Inr m) \<Rightarrow>
          (case recv_msg sha r m of
             Fail e \<Rightarrow> Some (w1, r, None, Inl e)
           | DoReassemble \<Rightarrow> Some (w1, r, reassemble dk (r_xfer r) (chunks r) saveDir)
           | SendAck ack r' \<Rightarrow>
               (case st_write io w1 ack of
                  (w2, Inl e) \<Rightarrow> Some (w2, r, None, Inl ''sending ACK'')
                | (w2, Inr _) \<Rightarrow> receiveChunks n sha io dk saveDir r' w2)))"

end
