(* ===== verification/File_Transfer_Props.thy ===== *)
theory File_Transfer_Props
  imports File_Transfer
begin

text \<open>
  Correctness of file transfer: every chunk an honest sender writes is accepted and the two loops
  together deliver the file; whatever the peer sends, the sender stops after a bounded number of
  transmissions of each chunk; and whatever the sender sends, a reassembled file consists of verified
  chunks in order, the chunks of the offered tree when the proofs have its depth.
\<close>

section \<open>Chunks of an honest sender\<close>

text \<open>The file, its chunker and the tree over its chunk hashes, as \<open>OfferFile\<close> sets them up.\<close>

definition offered :: "(bytes \<Rightarrow> bytes) \<Rightarrow> filesystem \<Rightarrow> chunker \<Rightarrow> bytes \<Rightarrow> merkle_tree \<Rightarrow> bool" where
  "offered sha fs c content tree \<longleftrightarrow>
     chunks_of fs c content \<and> (\<forall>x. length (sha x) = 32) \<and>
     (\<exists>hs. AllChunkHashes sha fs c = Inr hs \<and> BuildMerkleTree sha hs = Inr tree)"

definition nth_piece :: "chunker \<Rightarrow> bytes \<Rightarrow> nat \<Rightarrow> bytes" where
  "nth_piece c content i = piece (nat (chunkSize c)) content i"

definition honest_chunk ::
  "(bytes \<Rightarrow> bytes) \<Rightarrow> chunker \<Rightarrow> merkle_tree \<Rightarrow> bytes \<Rightarrow> string \<Rightarrow> nat \<Rightarrow> file_chunk" where
  "honest_chunk sha c tree content tid i =
     \<lparr>fc_TransferId = tid, fc_Index = of_nat i, fc_Data = nth_piece c content i,
      fc_Hash = sha (nth_piece c content i), fc_Proof = projr (Proof tree (int i))\<rparr>"

lemma offeredD:
  assumes "offered sha fs c content tree"
  shows "chunks_of fs c content"
    and "BuildMerkleTree sha (map (\<lambda>i. sha (nth_piece c content i)) [0..<unat (total c)]) = Inr tree"
    and "length (sha x) = 32"
  using assms AllChunkHashes_pieces[of fs c content sha] by (auto simp: offered_def nth_piece_def)

lemma uint_of_nat32: "i < 2 ^ 32 \<Longrightarrow> uint (of_nat i :: u32) = int i"
  by (simp add: unsigned_of_nat take_bit_eq_mod)

lemma total_bound: "i < unat (total c) \<Longrightarrow> i < 2 ^ 32"
  using unat_bound[of "total c"] by simp

lemma honest_proof:
  assumes "offered sha fs c content tree" and "i < unat (total c)"
  shows "Proof tree (int i) = Inr (fc_Proof (honest_chunk sha c tree content tid i))"
    and "chunk_valid sha (Root tree) (honest_chunk sha c tree content tid i)"
proof -
  let ?hs = "map (\<lambda>i. sha (nth_piece c content i)) [0..<unat (total c)]"
  note off = offeredD[OF assms(1)]
  have ne: "sha x \<noteq> []" for x using off(3)[of x] by auto
  have "length ?hs \<le> 2 ^ 32" using unat_bound[of "total c"] by simp
  then obtain sibs where "Proof tree (int i) = Inr sibs" "VerifyProof sha (?hs ! i) (int i) sibs (Root tree)"
    using Proof_verifies[OF off(2), of i] assms(2) ne by auto
  then show "Proof tree (int i) = Inr (fc_Proof (honest_chunk sha c tree content tid i))"
    and "chunk_valid sha (Root tree) (honest_chunk sha c tree content tid i)"
    using assms(2) total_bound[OF assms(2)]
    by (simp_all add: honest_chunk_def chunk_valid_def uint_of_nat32)
qed

lemma sendOneChunk_honest:
  assumes "offered sha (st_files io w) c content tree" and "i < unat (total c)"
  shows "sendOneChunk sha io c tree tid (of_nat i) w =
    st_write io w (FileChunkMsg (honest_chunk sha c tree content tid i))"
proof -
  obtain pf where "Proof tree (int i) = Inr pf" using honest_proof(1)[OF assms] by blast
  with ReadChunk_piece[OF offeredD(1)[OF assms(1)] assms(2), of sha] total_bound[OF assms(2)]
  show ?thesis by (simp add: sendOneChunk_def uint_of_nat32 honest_chunk_def nth_piece_def)
qed

section \<open>Sender and receiver over a reliable stream\<close>

text \<open>The receiver handles each message as it arrives; its acknowledgements queue up for the sender.\<close>

record link =
  lk_recv :: receiving
  lk_acks :: "file_msg list"
  lk_out :: "((string \<times> bytes) option \<times> unit res) option"

definition link_io :: "(bytes \<Rightarrow> bytes) \<Rightarrow> filesystem \<Rightarrow> disk \<Rightarrow> string \<Rightarrow> link stream_io" where
  "link_io sha fs dk saveDir =
     \<lparr>ctx_cancelled = (\<lambda>w. False),
      st_write = (\<lambda>w m.
        case recv_msg sha (lk_recv w) m of
          Fail e \<Rightarrow> (w\<lparr>lk_out := Some (None, Inl e)\<rparr>, Inr ())
        | DoReassemble \<Rightarrow>
            (w\<lparr>lk_out := Some (reassemble dk (r_xfer (lk_recv w)) (chunks (lk_recv w)) saveDir)\<rparr>, Inr ())
        | SendAck ack r \<Rightarrow> (w\<lparr>lk_recv := r, lk_acks := lk_acks w @ [ack]\<rparr>, Inr ())),
      st_read = (\<lambda>w. case lk_acks w of [] \<Rightarrow> (w, Inl ''EOF'') | a # as \<Rightarrow> (w\<lparr>lk_acks := as\<rparr>, Inr a)),
      st_files = (\<lambda>w. fs)\<rparr>"

text \<open>The state of the two loops when the sender has sent \<open>n\<close> chunks and read \<open>a\<close> acks.\<close>

definition link_inv ::
  "(bytes \<Rightarrow> bytes) \<Rightarrow> chunker \<Rightarrow> merkle_tree \<Rightarrow> bytes \<Rightarrow> transfer \<Rightarrow> nat \<Rightarrow> nat \<Rightarrow> sending \<Rightarrow> link \<Rightarrow> bool" where
  "link_inv sha c tree content x a n s w \<longleftrightarrow>
     a \<le> n \<and> n \<le> a + 8 \<and> n \<le> unat (total c) \<and>
     nextToSend s = of_nat n \<and> inFlight s = of_nat (n - a) \<and>
     acked s = map of_nat (rev [0..<a]) \<and>
     lk_acks w = map (\<lambda>i. FileChunkAck (xf_ID x) (of_nat i) True) [a..<n] \<and>
     chunks (lk_recv w) = map (\<lambda>i. (of_nat i, nth_piece c content i)) [0..<n] \<and>
     xf_RootHash (r_xfer (lk_recv w)) = Root tree \<and> xf_ID (r_xfer (lk_recv w)) = xf_ID x \<and>
     xf_Total (r_xfer (lk_recv w)) = total c \<and> xf_Filename (r_xfer (lk_recv w)) = xf_Filename x"

lemma link_write_chunk:
  assumes "offered sha fs c content tree" and "link_inv sha c tree content x a n s w"
    and "n < unat (total c)" and "n < a + 8"
  defines "s' \<equiv> s\<lparr>inFlight := inFlight s + 1, nextToSend := nextToSend s + 1\<rparr>"
  shows "\<exists>w'. st_write (link_io sha fs dk sd) w (FileChunkMsg (honest_chunk sha c tree content tid n)) = (w', Inr ()) \<and>
    link_inv sha c tree content x a (Suc n) s' w' \<and> lk_out w' = lk_out w"
proof -
  let ?fc = "honest_chunk sha c tree content tid n" and ?r = "lk_recv w"
  have inv: "a \<le> n" "nextToSend s = of_nat n" "inFlight s = of_nat (n - a)"
    "chunks ?r = map (\<lambda>i. (of_nat i, nth_piece c content i)) [0..<n]"
    "lk_acks w = map (\<lambda>i. FileChunkAck (xf_ID x) (of_nat i) True) [a..<n]"
    using assms(2) by (auto simp: link_inv_def)
  have valid: "chunk_valid sha (xf_RootHash (r_xfer ?r)) ?fc"
    using honest_proof(2)[OF assms(1,3)] assms(2) by (simp add: link_inv_def)
  have "(of_nat n :: u32) \<notin> fst ` set (chunks ?r)"
    using total_bound[OF assms(3)] by (auto simp: inv(4) of_nat_word_inj)
  then have "AList.update (of_nat n) (nth_piece c content n) (chunks ?r) =
      map (\<lambda>i. (of_nat i, nth_piece c content i)) [0..<Suc n]"
    by (subst alist_update_append) (simp_all add: inv(4))
  then show ?thesis
    using assms(2,3,4) valid inv
    by (auto simp: link_io_def recv_msg_def Let_def store_chunk_def link_inv_def s'_def honest_chunk_def
        Suc_diff_le)
qed

lemma fill_window_link:
  assumes "offered sha fs c content tree"
  shows "link_inv sha c tree content x a n s w \<Longrightarrow>
    \<exists>w' s'. fill_window sha (link_io sha fs dk sd) c tree s w = (w', s', Inr ()) \<and>
      link_inv sha c tree content x a (min (unat (total c)) (a + 8)) s' w' \<and> lk_out w' = lk_out w \<and>
      s_xfer s' = s_xfer s"
proof (induction "min (unat (total c)) (a + 8) - n" arbitrary: n s w)
  case 0
  have "min (unat (total c)) (a + 8) \<le> n" using "0.hyps" by simp
  moreover have "n \<le> min (unat (total c)) (a + 8)" using "0.prems" by (simp add: link_inv_def)
  ultimately have n: "n = min (unat (total c)) (a + 8)" by (rule antisym[rotated])
  have "\<not> (inFlight s < WindowSize \<and> nextToSend s < total c)"
    using 0(2) n unat_bound[of "total c"]
    by (auto simp: link_inv_def WindowSize_def word_less_nat_alt unat_of_nat_small)
  then have "fill_window sha (link_io sha fs dk sd) c tree s w = (w, s, Inr ())"
    by (subst fill_window.simps) (simp only: if_False)
  then show ?case using 0(2) n by simp
next
  case (Suc k)
  have n: "n < unat (total c)" "n < a + 8" using Suc(2) by auto
  have inv: "a \<le> n" "nextToSend s = of_nat n" "inFlight s = of_nat (n - a)" "acked s = map of_nat (rev [0..<a])"
    using Suc.prems by (auto simp: link_inv_def)
  have "unat (inFlight s) = n - a" unfolding inv(3) using n by (intro unat_of_nat_small) simp
  then have go: "inFlight s < WindowSize" "nextToSend s < total c"
    using inv(1,2) n total_bound[OF n(1)] by (simp_all add: WindowSize_def word_less_nat_alt unat_of_nat_small)
  have new: "nextToSend s \<notin> set (acked s)"
    using inv total_bound[OF n(1)] by (auto simp: of_nat_word_inj)
  let ?s' = "s\<lparr>inFlight := inFlight s + 1, nextToSend := nextToSend s + 1\<rparr>"
  obtain w' where w': "sendOneChunk sha (link_io sha fs dk sd) c tree (xf_ID (s_xfer s)) (nextToSend s) w = (w', Inr ())"
    "link_inv sha c tree content x a (Suc n) ?s' w'" "lk_out w' = lk_out w"
    using link_write_chunk[OF assms Suc.prems n, of dk sd "xf_ID (s_xfer s)"]
      sendOneChunk_honest[of sha "link_io sha fs dk sd" w c content tree n] assms n(1) inv(2)
    by (auto simp: link_io_def)
  have "k = min (unat (total c)) (a + 8) - Suc n" using Suc(2) by simp
  from Suc(1)[OF this w'(2)] w'(1,3) go new show ?case
    by (simp add: fill_window.simps[of sha "link_io sha fs dk sd" c tree s w])
qed

lemma link_read_ack:
  assumes "link_inv sha c tree content x a n s w" and "a < n"
  shows "\<exists>w'. st_read (link_io sha fs dk sd) w = (w', Inr (FileChunkAck (xf_ID x) (of_nat a) True)) \<and>
    link_inv sha c tree content x (Suc a) n (take_ack c (s\<lparr>inFlight := inFlight s - 1\<rparr>) (of_nat a)) w' \<and>
    lk_out w' = lk_out w"
proof -
  have acks: "lk_acks w = FileChunkAck (xf_ID x) (of_nat a) True #
      map (\<lambda>i. FileChunkAck (xf_ID x) (of_nat i) True) [Suc a..<n]"
    using assms by (simp add: link_inv_def upt_conv_Cons)
  have n: "n \<le> unat (total c)" "n \<le> a + 8" using assms(1) by (auto simp: link_inv_def)
  have "(of_nat a :: u32) \<notin> set (map of_nat (rev [0..<a]))"
    using total_bound[of a c] n assms(2) by (auto simp: of_nat_word_inj)
  moreover have "of_nat (n - a) - 1 = (of_nat (n - Suc a) :: u32)"
    using assms(2) by (simp add: of_nat_diff)
  ultimately show ?thesis
    using assms acks by (auto simp: link_io_def link_inv_def take_ack_def Let_def List.insert_def)
qed

lemma write_chunks_pieces:
  assumes "\<forall>i \<in> set is. map_of cs (of_nat i) = Some (f i)" and "\<forall>i \<in> set is. disk_write dk i = Inr ()"
  shows "write_chunks dk cs is out = (out @ concat (map f is), Inr ())"
  using assms by (induction "is" arbitrary: out) auto

lemma reassemble_pieces:
  assumes "chunks_of fs c content" and "xf_Total x = total c"
    and "cs = map (\<lambda>i. (of_nat i, nth_piece c content i)) [0..<unat (total c)]"
    and "disk_mkdir dk = Inr ()" "disk_create dk = Inr ()" "\<And>i. disk_write dk i = Inr ()"
  shows "reassemble dk x cs sd = (Some (Join sd (xf_Filename x), content), Inr ())"
proof -
  have "map_of cs (of_nat i) = Some (nth_piece c content i)" if "i < unat (total c)" for i
    unfolding assms(3) using that total_bound[of _ c]
    by (intro map_of_is_SomeI) (auto simp: distinct_map inj_on_def of_nat_word_inj image_iff comp_def)
  then have "write_chunks dk cs [0..<unat (total c)] [] =
      (concat (map (nth_piece c content) [0..<unat (total c)]), Inr ())"
    using write_chunks_pieces[of "[0..<unat (total c)]" cs "nth_piece c content" dk "[]"] assms(6) by simp
  also have "concat (map (nth_piece c content) [0..<unat (total c)]) = content"
    using assms(1) concat_pieces[of "nat (chunkSize c)" content] by (simp add: chunks_of_def nth_piece_def[abs_def])
  finally show ?thesis using assms by (simp add: reassemble_def Let_def)
qed

lemma send_loop_link:
  assumes off: "offered sha fs c content tree"
    and dk: "disk_mkdir dk = Inr ()" "disk_create dk = Inr ()" "\<And>i. disk_write dk i = Inr ()"
  shows "\<lbrakk> link_inv sha c tree content x a n s w; unat (total c) - a < fuel; xf_Filename x = f \<rbrakk> \<Longrightarrow>
    \<exists>w' s'. send_loop fuel sha (link_io sha fs dk sd) c tree s w = Some (w', s', Inr ()) \<and>
      lk_out w' = Some (Some (Join sd f, content), Inr ()) \<and>
      set (acked s') = of_nat ` {0..<unat (total c)}"
proof (induction fuel arbitrary: a n s w)
  case (Suc fuel)
  let ?io = "link_io sha fs dk sd" and ?m = "min (unat (total c)) (a + 8)"
  obtain w1 s1 where 1: "fill_window sha ?io c tree s w = (w1, s1, Inr ())"
    "link_inv sha c tree content x a ?m s1 w1"
    using fill_window_link[OF off Suc.prems(1)] by blast
  have nc: "\<not> ctx_cancelled ?io w" by (simp add: link_io_def)
  have acked: "acked s1 = map of_nat (rev [0..<a])" "a \<le> unat (total c)" using 1(2) by (auto simp: link_inv_def)
  show ?case
  proof (cases "a = unat (total c)")
    case True
    have "reassemble dk (r_xfer (lk_recv w1)) (chunks (lk_recv w1)) sd = (Some (Join sd f, content), Inr ())"
      using 1(2) True Suc.prems(3) reassemble_pieces[OF offeredD(1)[OF off], of "r_xfer (lk_recv w1)" "chunks (lk_recv w1)" dk sd] dk
      by (simp add: link_inv_def)
    then show ?thesis using nc 1 True acked by (auto simp: link_io_def recv_msg_def)
  next
    case False
    then have lt: "a < ?m" using acked(2) by simp
    obtain w2 where 2: "st_read ?io w1 = (w2, Inr (FileChunkAck (xf_ID x) (of_nat a) True))"
      "link_inv sha c tree content x (Suc a) ?m (take_ack c (s1\<lparr>inFlight := inFlight s1 - 1\<rparr>) (of_nat a)) w2"
      using link_read_ack[OF 1(2) lt] by blast
    have "unat (total c) - Suc a < fuel" using Suc.prems(2) False acked(2) by simp
    from Suc.IH[OF 2(2) this Suc.prems(3)] nc 1 2(1) False acked show ?thesis by (simp add: handle_ack_def Let_def)
  qed
qed simp

section \<open>The sender against an arbitrary peer\<close>

text \<open>
  The stream as a script: the messages the peer will send, and a log of what the sender does. The
  outcome of every write, the state of the context and the file on disk may be anything.
\<close>

datatype event = Wrote file_msg | Got

record script =
  sc_log :: "event list"
  sc_in :: "file_msg res list"

definition script_io ::
  "(script \<Rightarrow> bool) \<Rightarrow> (script \<Rightarrow> unit res) \<Rightarrow> (script \<Rightarrow> filesystem) \<Rightarrow> script stream_io" where
  "script_io cancelled wr fsf =
     \<lparr>ctx_cancelled = cancelled,
      st_write = (\<lambda>w m. (w\<lparr>sc_log := sc_log w @ [Wrote m]\<rparr>, wr w)),
      st_read = (\<lambda>w. case sc_in w of [] \<Rightarrow> (w, Inl ''EOF'')
                    | m # ms \<Rightarrow> (\<lparr>sc_log = sc_log w @ [Got], sc_in = ms\<rparr>, m)),
      st_files = fsf\<rparr>"

fun is_chunk :: "event \<Rightarrow> bool" where
  "is_chunk (Wrote (FileChunkMsg fc)) = True"
| "is_chunk e = False"

fun is_chunk_of :: "u32 \<Rightarrow> event \<Rightarrow> bool" where
  "is_chunk_of i (Wrote (FileChunkMsg fc)) = (fc_Index fc = i)"
| "is_chunk_of i e = False"

definition outstanding :: "event list \<Rightarrow> int" where
  "outstanding l = int (length (filter is_chunk l)) - int (length (filter (\<lambda>e. e = Got) l))"

definition window_ok :: "event list \<Rightarrow> bool" where
  "window_ok l \<longleftrightarrow> (\<forall>k. outstanding (take k l) \<le> 8)"

lemma outstanding_snoc:
  "outstanding (l @ [e]) = outstanding l + (if is_chunk e then 1 else if e = Got then - 1 else 0)"
  by (cases "(e)" rule: is_chunk.cases) (simp_all add: outstanding_def)

lemma window_ok_snoc: "window_ok l \<Longrightarrow> outstanding (l @ [e]) \<le> 8 \<Longrightarrow> window_ok (l @ [e])"
proof -
  assume a: "window_ok l" "outstanding (l @ [e]) \<le> 8"
  have "outstanding (take k (l @ [e])) \<le> 8" for k
    using a by (cases "k \<le> length l") (auto simp: window_ok_def)
  then show ?thesis by (simp add: window_ok_def)
qed

text \<open>What holds at the head of both loops.\<close>

definition send_inv :: "chunker \<Rightarrow> sending \<Rightarrow> script \<Rightarrow> bool" where
  "send_inv c s w \<longleftrightarrow>
     window_ok (sc_log w) \<and> outstanding (sc_log w) \<le> 8 \<and>
     inFlight s = word_of_int (outstanding (sc_log w)) \<and>
     (outstanding (sc_log w) < 0 \<longrightarrow> \<not> nextToSend s < total c) \<and>
     distinct (acked s) \<and> (\<forall>i. 0 \<le> retries s i \<and> retries s i \<le> MaxRetries) \<and>
     (\<forall>i. int (length (filter (is_chunk_of i) (sc_log w))) \<le> retries s i + (if i < nextToSend s then 1 else 0))"

definition log_ok :: "script \<Rightarrow> bool" where
  "log_ok w \<longleftrightarrow> window_ok (sc_log w) \<and> (\<forall>i. length (filter (is_chunk_of i) (sc_log w)) \<le> 4)"

lemma send_inv_log_ok: "send_inv c s w \<Longrightarrow> log_ok w"
proof -
  assume inv: "send_inv c s w"
  have "length (filter (is_chunk_of i) (sc_log w)) \<le> 4" for i
  proof -
    have "int (length (filter (is_chunk_of i) (sc_log w))) \<le> retries s i + (if i < nextToSend s then 1 else 0)"
      "retries s i \<le> 3" using inv by (auto simp: send_inv_def MaxRetries_def)
    then show ?thesis by (simp split: if_splits)
  qed
  with inv show ?thesis by (simp add: send_inv_def log_ok_def)
qed

lemma inFlight_value: "send_inv c s w \<Longrightarrow> 0 \<le> outstanding (sc_log w) \<Longrightarrow> uint (inFlight s) = outstanding (sc_log w)"
  by (auto simp: send_inv_def uint_word_of_int)

lemma sendOneChunk_script:
  assumes "sendOneChunk sha (script_io cn wr fsf) c tree tid i w = (w', r)"
  shows "(w' = w \<and> (\<exists>e. r = Inl e)) \<or> (\<exists>fc. fc_Index fc = i \<and> w' = w\<lparr>sc_log := sc_log w @ [Wrote (FileChunkMsg fc)]\<rparr>)"
proof -
  consider (bad) e where "sendOneChunk sha (script_io cn wr fsf) c tree tid i w = (w, Inl e)"
    | (sent) ch pf where "ReadChunk sha (fsf w) c i = Inr ch" "Proof tree (uint i) = Inr pf"
    by (cases "ReadChunk sha (fsf w) c i"; cases "Proof tree (uint i)")
      (auto simp: sendOneChunk_def script_io_def)
  then show ?thesis
  proof cases
    case bad
    with assms show ?thesis by auto
  next
    case sent
    let ?fc = "\<lparr>fc_TransferId = tid, fc_Index = i, fc_Data = Data ch, fc_Hash = Hash ch, fc_Proof = pf\<rparr>"
    have "w' = w\<lparr>sc_log := sc_log w @ [Wrote (FileChunkMsg ?fc)]\<rparr>"
      using assms sent by (simp add: sendOneChunk_def script_io_def)
    then show ?thesis by (intro disjI2 exI[of _ ?fc]) simp
  qed
qed

lemma send_inv_sent:
  assumes inv: "send_inv c s w" and go: "inFlight s < WindowSize" "nextToSend s < total c"
    and fc: "fc_Index fc = nextToSend s"
  shows "send_inv c (s\<lparr>inFlight := inFlight s + 1, nextToSend := nextToSend s + 1\<rparr>)
    (w\<lparr>sc_log := sc_log w @ [Wrote (FileChunkMsg fc)]\<rparr>)"
proof -
  let ?d = "outstanding (sc_log w)"
  have d: "0 \<le> ?d" using inv go(2) by (auto simp: send_inv_def)
  then have "?d < 8" using inFlight_value[OF inv] go(1) by (simp add: WindowSize_def word_less_def)
  have lt: "i < nextToSend s + 1 \<longleftrightarrow> i < nextToSend s \<or> i = nextToSend s" for i
    using unat_succ[OF go(2)] by (auto simp: word_less_nat_alt word_unat_eq_iff)
  have w: "inFlight s + 1 = word_of_int (?d + 1)" using inv by (simp add: send_inv_def)
  have "int (length (filter (is_chunk_of i) (sc_log w @ [Wrote (FileChunkMsg fc)]))) \<le>
      retries s i + (if i < nextToSend s + 1 then 1 else 0)" for i
  proof -
    have "int (length (filter (is_chunk_of i) (sc_log w))) \<le> retries s i + (if i < nextToSend s then 1 else 0)"
      using inv by (simp add: send_inv_def)
    then show ?thesis using fc by (auto simp: lt split: if_splits)
  qed
  with inv d \<open>?d < 8\<close> w show ?thesis
    unfolding send_inv_def by (auto simp: outstanding_snoc intro: window_ok_snoc)
qed

lemma fill_window_script:
  "\<lbrakk> send_inv c s w; fill_window sha (script_io cn wr fsf) c tree s w = (w', s', r) \<rbrakk> \<Longrightarrow>
     log_ok w' \<and> sc_in w' = sc_in w \<and>
     (r = Inr () \<longrightarrow> send_inv c s' w' \<and> \<not> (inFlight s' < WindowSize \<and> nextToSend s' < total c))"
proof (induction sha "script_io cn wr fsf" c tree s w rule: fill_window.induct)
  case (1 sha c tree s w)
  show ?case
  proof (cases "inFlight s < WindowSize \<and> nextToSend s < total c")
    case False
    with "1.prems" show ?thesis by (subst (asm) fill_window.simps) (auto intro: send_inv_log_ok)
  next
    case go: True
    show ?thesis
    proof (cases "nextToSend s \<in> set (acked s)")
      case True
      have lt: "i < nextToSend s \<Longrightarrow> i < nextToSend s + 1" for i
        using unat_succ[of "nextToSend s" "total c"] go by (simp add: word_less_nat_alt)
      have "int (length (filter (is_chunk_of i) (sc_log w))) \<le>
          retries s i + (if i < nextToSend s + 1 then 1 else 0)" for i
      proof -
        have "int (length (filter (is_chunk_of i) (sc_log w))) \<le> retries s i + (if i < nextToSend s then 1 else 0)"
          using "1.prems"(1) by (simp add: send_inv_def)
        then show ?thesis using lt[of i] by (auto split: if_splits)
      qed
      then have "send_inv c (s\<lparr>nextToSend := nextToSend s + 1\<rparr>) w"
        using "1.prems"(1) go by (simp add: send_inv_def)
      with "1.hyps"(1)[OF go True] "1.prems"(2) go True show ?thesis
        by (subst (asm) fill_window.simps) simp
    next
      case False
      obtain w1 r1 where one: "sendOneChunk sha (script_io cn wr fsf) c tree (xf_ID (s_xfer s)) (nextToSend s) w = (w1, r1)"
        by fastforce
      from sendOneChunk_script[OF one] show ?thesis
      proof (elim disjE exE conjE)
        fix e assume "w1 = w" "r1 = Inl e"
        with "1.prems" go False one send_inv_log_ok[OF "1.prems"(1)] show ?thesis
          by (subst (asm) fill_window.simps) auto
      next
        fix fc assume fc: "fc_Index fc = nextToSend s" "w1 = w\<lparr>sc_log := sc_log w @ [Wrote (FileChunkMsg fc)]\<rparr>"
        have inv: "send_inv c (s\<lparr>inFlight := inFlight s + 1, nextToSend := nextToSend s + 1\<rparr>) w1"
          unfolding fc(2) using send_inv_sent[OF "1.prems"(1)] go fc(1) by blast
        show ?thesis
        proof (cases r1)
          case (Inl e)
          with "1.prems" go False one send_inv_log_ok[OF inv] fc(2) show ?thesis
            by (subst (asm) fill_window.simps) auto
        next
          case (Inr u)
          then have "r1 = Inr ()" by simp
          with "1.hyps"(2)[OF go False one[symmetric] _ inv] "1.prems"(2) go False one fc(2) show ?thesis
            by (subst (asm) fill_window.simps) simp
        qed
      qed
    qed
  qed
qed

lemma send_inv_got:
  assumes inv: "send_inv c s w" and full: "\<not> (inFlight s < WindowSize \<and> nextToSend s < total c)"
  shows "send_inv c (s\<lparr>inFlight := inFlight s - 1\<rparr>) \<lparr>sc_log = sc_log w @ [Got], sc_in = ms\<rparr>"
proof -
  let ?d = "outstanding (sc_log w)"
  have "\<not> nextToSend s < total c" if "?d - 1 < 0"
  proof (cases "?d < 0")
    case True
    with inv show ?thesis by (simp add: send_inv_def)
  next
    case False
    with that have "?d = 0" by simp
    then have "inFlight s < WindowSize" using inv by (simp add: send_inv_def WindowSize_def)
    with full show ?thesis by simp
  qed
  moreover have "filter (is_chunk_of i) [Got] = []" for i by simp
  ultimately show ?thesis
    using inv by (auto simp: send_inv_def outstanding_snoc intro!: window_ok_snoc)
qed

lemma send_inv_resent:
  assumes inv: "send_inv c s w" and neg: "outstanding (sc_log w) < 8" and fc: "fc_Index fc = i"
    and r: "retries s i + 1 \<le> MaxRetries"
  shows "send_inv c (s\<lparr>retries := (retries s)(i := retries s i + 1), inFlight := inFlight s + 1\<rparr>)
    (w\<lparr>sc_log := sc_log w @ [Wrote (FileChunkMsg fc)]\<rparr>)"
proof -
  have "int (length (filter (is_chunk_of j) (sc_log w @ [Wrote (FileChunkMsg fc)]))) \<le>
      ((retries s)(i := retries s i + 1)) j + (if j < nextToSend s then 1 else 0)" for j
  proof -
    have "int (length (filter (is_chunk_of j) (sc_log w))) \<le> retries s j + (if j < nextToSend s then 1 else 0)"
      using inv by (simp add: send_inv_def)
    then show ?thesis using fc by (auto split: if_splits)
  qed
  moreover have "0 \<le> ((retries s)(i := retries s i + 1)) j \<and> ((retries s)(i := retries s i + 1)) j \<le> MaxRetries" for j
  proof -
    have "0 \<le> retries s i" "0 \<le> retries s j \<and> retries s j \<le> MaxRetries" using inv by (simp_all add: send_inv_def)
    then show ?thesis using r by simp
  qed
  ultimately show ?thesis using inv neg
    by (auto simp: send_inv_def outstanding_snoc intro!: window_ok_snoc)
qed

lemma send_inv_frame:
  "send_inv c (take_ack c s i) w = send_inv c s w"
  by (simp add: send_inv_def take_ack_def Let_def)

lemma log_ok_Got: "log_ok w \<Longrightarrow> log_ok \<lparr>sc_log = sc_log w @ [Got], sc_in = ms\<rparr>"
proof -
  assume ok: "log_ok w"
  have "outstanding (take (length (sc_log w)) (sc_log w)) \<le> 8" using ok by (simp only: log_ok_def window_ok_def)
  then have "outstanding (sc_log w @ [Got]) \<le> 8" by (simp add: outstanding_snoc)
  with ok show ?thesis by (auto simp: log_ok_def intro: window_ok_snoc)
qed

lemma log_ok_Complete: "log_ok w \<Longrightarrow> log_ok (w\<lparr>sc_log := sc_log w @ [Wrote (FileComplete t)]\<rparr>)"
proof -
  assume ok: "log_ok w"
  have "outstanding (take (length (sc_log w)) (sc_log w)) \<le> 8" using ok by (simp only: log_ok_def window_ok_def)
  then have "outstanding (sc_log w @ [Wrote (FileComplete t)]) \<le> 8" by (simp add: outstanding_snoc)
  with ok show ?thesis by (auto simp: log_ok_def intro: window_ok_snoc)
qed

lemma log_ok_resent:
  assumes "send_inv c s w" "outstanding (sc_log w) < 8" "retries s (fc_Index fc) + 1 \<le> MaxRetries"
  shows "log_ok (w\<lparr>sc_log := sc_log w @ [Wrote (FileChunkMsg fc)]\<rparr>)"
  using send_inv_resent[OF assms(1,2) refl assms(3)] by (rule send_inv_log_ok)

lemma handle_ack_script:
  assumes inv: "send_inv c s w" "\<not> (inFlight s < WindowSize \<and> nextToSend s < total c)"
    and ack: "handle_ack sha (script_io cn wr fsf) c tree s i valid \<lparr>sc_log = sc_log w @ [Got], sc_in = ms\<rparr> = (w', s', r)"
  shows "log_ok w' \<and> sc_in w' = ms \<and> (r = Inr () \<longrightarrow> send_inv c s' w')"
proof -
  let ?io = "script_io cn wr fsf" and ?w2 = "\<lparr>sc_log = sc_log w @ [Got], sc_in = ms\<rparr>"
  let ?s2 = "s\<lparr>inFlight := inFlight s - 1\<rparr>"
  let ?s3 = "?s2\<lparr>retries := (retries ?s2)(i := retries ?s2 i + 1)\<rparr>"
  have inv2: "send_inv c ?s2 ?w2" by (rule send_inv_got[OF inv])
  note ok2 = send_inv_log_ok[OF inv2]
  consider (ok) valid | (give_up) "\<not> valid" "retries ?s3 i > MaxRetries" | (again) "\<not> valid" "retries ?s3 i \<le> MaxRetries"
    by linarith
  then show ?thesis
  proof cases
    case ok
    then show ?thesis using ack inv2 ok2 send_inv_frame[of c ?s2 i ?w2] by (auto simp: handle_ack_def Let_def)
  next
    case give_up
    then show ?thesis using ack ok2 by (auto simp: handle_ack_def Let_def)
  next
    case again
    obtain w3 r3 where one: "sendOneChunk sha ?io c tree (xf_ID (s_xfer ?s3)) i ?w2 = (w3, r3)" by fastforce
    have res: "w' = w3" "r = Inr () \<longrightarrow> r3 = Inr () \<and> s' = ?s3\<lparr>inFlight := inFlight ?s3 + 1\<rparr>"
      using ack again one by (auto simp: handle_ack_def Let_def split: sum.splits)
    have lt: "outstanding (sc_log ?w2) < 8" using inv(1) by (simp add: outstanding_snoc send_inv_def)
    from sendOneChunk_script[OF one] show ?thesis
    proof (elim disjE exE conjE)
      fix e assume "w3 = ?w2" "r3 = Inl e"
      then show ?thesis using res ok2 by simp
    next
      fix fc assume fc: "fc_Index fc = i" "w3 = ?w2\<lparr>sc_log := sc_log ?w2 @ [Wrote (FileChunkMsg fc)]\<rparr>"
      have "send_inv c (?s3\<lparr>inFlight := inFlight ?s3 + 1\<rparr>) w3"
        unfolding fc(2) using send_inv_resent[OF inv2 lt fc(1)] again by simp
      then show ?thesis using res fc(2) send_inv_log_ok by auto
    qed
  qed
qed

lemma send_loop_script:
  "\<lbrakk> send_inv c s w; length (sc_in w) < fuel \<rbrakk> \<Longrightarrow>
     \<exists>w' s' r. send_loop fuel sha (script_io cn wr fsf) c tree s w = Some (w', s', r) \<and> log_ok w' \<and>
       (r = Inr () \<longrightarrow> unat (total c) \<le> length (acked s') \<and> distinct (acked s'))"
proof (induction fuel arbitrary: s w)
  case (Suc fuel)
  let ?io = "script_io cn wr fsf"
  obtain w1 s1 r1 where fw: "fill_window sha ?io c tree s w = (w1, s1, r1)" by (metis prod_cases3)
  note f = fill_window_script[OF Suc.prems(1) fw]
  show ?case
  proof (cases "ctx_cancelled ?io w \<or> (\<exists>e. r1 = Inl e)")
    case True
    then show ?thesis using f fw send_inv_log_ok[OF Suc.prems(1)] by auto
  next
    case False
    then have go: "\<not> ctx_cancelled ?io w" "r1 = Inr ()" by (cases r1; auto)+
    then have inv: "send_inv c s1 w1" "\<not> (inFlight s1 < WindowSize \<and> nextToSend s1 < total c)" "sc_in w1 = sc_in w"
      using f by auto
    note ok1 = send_inv_log_ok[OF inv(1)]
    show ?thesis
    proof (cases "unat (total c) \<le> length (acked s1) \<or> sc_in w1 = []")
      case True
      moreover have "distinct (acked s1)" using inv(1) by (simp add: send_inv_def)
      ultimately show ?thesis using fw go ok1 log_ok_Complete[OF ok1, of "xf_ID (s_xfer s1)"]
        by (cases "wr w1") (auto simp: script_io_def)
    next
      case more: False
      then obtain m ms where ms: "sc_in w1 = m # ms" by (cases "sc_in w1") auto
      let ?w2 = "\<lparr>sc_log = sc_log w1 @ [Got], sc_in = ms\<rparr>"
      have rd: "st_read ?io w1 = (?w2, m)" using ms by (simp add: script_io_def)
      have len: "length ms < fuel" using Suc.prems(2) inv(3)[symmetric] ms by simp
      show ?thesis
      proof (cases "\<exists>t i valid. m = Inr (FileChunkAck t i valid)")
        case False
        then show ?thesis using go fw more rd log_ok_Got[OF ok1, of ms] by (cases m) (auto split: file_msg.splits)
      next
        case True
        then obtain t i valid where m: "m = Inr (FileChunkAck t i valid)" by blast
        obtain w3 s3 r3 where ack: "handle_ack sha ?io c tree s1 i valid ?w2 = (w3, s3, r3)" by (metis prod_cases3)
        note h = handle_ack_script[OF inv(1,2) ack]
        show ?thesis
        proof (cases r3)
          case (Inl e)
          then show ?thesis using go fw more rd m ack h by simp
        next
          case (Inr u)
          then have "send_inv c s3 w3" "length (sc_in w3) < fuel" using h len by auto
          from Suc.IH[OF this] go fw more rd m ack Inr show ?thesis by simp
        qed
      qed
    qed
  qed
qed simp

section \<open>The receiver against an arbitrary sender\<close>

text \<open>\<open>D\<close> holds of every chunk message the stream may deliver.\<close>

definition delivers :: "'w stream_io \<Rightarrow> (file_chunk \<Rightarrow> bool) \<Rightarrow> bool" where
  "delivers io D \<longleftrightarrow> (\<forall>w w' fc. st_read io w = (w', Inr (FileChunkMsg fc)) \<longrightarrow> D fc)"

definition recv_inv :: "(bytes \<Rightarrow> bytes) \<Rightarrow> (file_chunk \<Rightarrow> bool) \<Rightarrow> bytes \<Rightarrow> chunk_map \<Rightarrow> bool" where
  "recv_inv sha D root cs \<longleftrightarrow>
     (\<forall>i d. map_of cs i = Some d \<longrightarrow>
        (\<exists>fc. D fc \<and> chunk_valid sha root fc \<and> fc_Index fc = i \<and> fc_Data fc = d))"

lemma recv_inv_store:
  "\<lbrakk> recv_inv sha D root (chunks r); D fc; chunk_valid sha root fc \<rbrakk> \<Longrightarrow>
     recv_inv sha D root (chunks (store_chunk r fc))"
  by (auto simp: recv_inv_def store_chunk_def Let_def update_conv')

lemma store_chunk_xfer [simp]:
  "xf_RootHash (r_xfer (store_chunk r fc)) = xf_RootHash (r_xfer r)"
  "xf_Total (r_xfer (store_chunk r fc)) = xf_Total (r_xfer r)"
  "xf_Filename (r_xfer (store_chunk r fc)) = xf_Filename (r_xfer r)"
  by (simp_all add: store_chunk_def Let_def)

lemma write_chunks_ok:
  "write_chunks dk cs is out = (res, Inr ()) \<Longrightarrow>
     \<exists>ds. list_all2 (\<lambda>i d. map_of cs (of_nat i) = Some d) is ds \<and> res = out @ concat ds"
proof (induction "is" arbitrary: out)
  case (Cons i "is")
  then obtain d where d: "map_of cs (of_nat i) = Some d" "write_chunks dk cs is (out @ d) = (res, Inr ())"
    by (auto split: option.splits sum.splits)
  from Cons.IH[OF d(2)] obtain ds where "list_all2 (\<lambda>i d. map_of cs (of_nat i) = Some d) is ds"
    "res = (out @ d) @ concat ds" by blast
  with d(1) show ?case by (intro exI[of _ "d # ds"]) simp
qed simp

lemma reassemble_ok:
  assumes "reassemble dk x cs sd = (Some (path, out), Inr ())" and "recv_inv sha D root cs"
  shows "path = Join sd (xf_Filename x) \<and>
    (\<exists>fcs. length fcs = unat (xf_Total x) \<and> out = concat (map fc_Data fcs) \<and>
      (\<forall>i < length fcs. D (fcs ! i) \<and> chunk_valid sha root (fcs ! i) \<and> fc_Index (fcs ! i) = of_nat i))"
proof -
  let ?n = "unat (xf_Total x)"
  have path: "path = Join sd (xf_Filename x)" and "write_chunks dk cs [0..<?n] [] = (out, Inr ())"
    using assms(1) by (auto simp: reassemble_def Let_def split: if_splits sum.splits prod.splits)
  then obtain ds where ds: "list_all2 (\<lambda>i d. map_of cs (of_nat i) = Some d) [0..<?n] ds" "out = concat ds"
    using write_chunks_ok by fastforce
  have len: "length ds = ?n" using list_all2_lengthD[OF ds(1)] by simp
  have "\<forall>i < ?n. \<exists>fc. D fc \<and> chunk_valid sha root fc \<and> fc_Index fc = of_nat i \<and> fc_Data fc = ds ! i"
    using assms(2) list_all2_nthD[OF ds(1)] by (simp add: recv_inv_def)
  then obtain f where f: "\<And>i. i < ?n \<Longrightarrow> D (f i) \<and> chunk_valid sha root (f i) \<and> fc_Index (f i) = of_nat i \<and> fc_Data (f i) = ds ! i"
    by metis
  have "map fc_Data (map f [0..<?n]) = ds" using f len by (intro nth_equalityI) auto
  then show ?thesis using path f ds(2) by (intro conjI exI[of _ "map f [0..<?n]"]) auto
qed

lemma receiveChunks_ok:
  assumes "delivers io D"
  shows "\<lbrakk> receiveChunks n sha io dk sd r w = Some (w', r', Some (path, out), Inr ());
       recv_inv sha D (xf_RootHash (r_xfer r)) (chunks r) \<rbrakk> \<Longrightarrow>
     path = Join sd (xf_Filename (r_xfer r)) \<and>
     (\<exists>fcs. length fcs = unat (xf_Total (r_xfer r)) \<and> out = concat (map fc_Data fcs) \<and>
       (\<forall>i < length fcs. D (fcs ! i) \<and> chunk_valid sha (xf_RootHash (r_xfer r)) (fcs ! i) \<and>
          fc_Index (fcs ! i) = of_nat i))"
proof (induction n arbitrary: r w)
  case (Suc n)
  obtain w1 x where rd: "st_read io w = (w1, x)" by fastforce
  then obtain m where m: "x = Inr m" using Suc.prems(1) by (cases x) auto
  show ?case
  proof (cases "\<exists>fc. m = FileChunkMsg fc")
    case False
    then have "reassemble dk (r_xfer r) (chunks r) sd = (Some (path, out), Inr ())"
      using Suc.prems(1) rd m by (cases m) (auto simp: recv_msg_def)
    from reassemble_ok[OF this Suc.prems(2)] show ?thesis .
  next
    case True
    then obtain fc where fc: "m = FileChunkMsg fc" by blast
    define r1 where "r1 = (if chunk_valid sha (xf_RootHash (r_xfer r)) fc then store_chunk r fc else r)"
    have x: "xf_RootHash (r_xfer r1) = xf_RootHash (r_xfer r)" "xf_Total (r_xfer r1) = xf_Total (r_xfer r)"
      "xf_Filename (r_xfer r1) = xf_Filename (r_xfer r)" by (simp_all add: r1_def)
    obtain w2 where go: "receiveChunks n sha io dk sd r1 w2 = Some (w', r', Some (path, out), Inr ())"
      using Suc.prems(1) rd m fc by (auto simp: recv_msg_def Let_def r1_def split: prod.splits sum.splits)
    have "D fc" using assms rd m fc by (simp add: delivers_def)
    then have "recv_inv sha D (xf_RootHash (r_xfer r1)) (chunks r1)"
      using Suc.prems(2) recv_inv_store by (simp add: r1_def)
    from Suc.IH[OF go this] show ?thesis unfolding x .
  qed
qed simp

text \<open>
  A chunk message that cannot deceive the verifier: its proof is as long as the tree is deep and none
  of the strings it makes the receiver hash collides with one hashed for the tree.
\<close>

definition undeceiving ::
  "(bytes \<Rightarrow> bytes) \<Rightarrow> chunker \<Rightarrow> bytes \<Rightarrow> merkle_tree \<Rightarrow> file_chunk \<Rightarrow> bool" where
  "undeceiving sha c content tree fc \<longleftrightarrow>
     leafStart tree = 2 ^ length (fc_Proof fc) \<and> length (fc_Proof fc) \<le> 61 \<and>
     \<not> collides sha (tree_inputs tree)
         (climb_inputs sha (leafStart tree + unat (fc_Index fc)) (fc_Hash fc) (fc_Proof fc)) \<and>
     (\<forall>i < unat (total c). sha (fc_Data fc) = sha (nth_piece c content i) \<longrightarrow> fc_Data fc = nth_piece c content i)"

lemma valid_chunk_is_piece:
  assumes off: "offered sha fs c content tree" and valid: "chunk_valid sha (Root tree) fc"
    and und: "undeceiving sha c content tree fc" and i: "fc_Index fc = of_nat i" "i < unat (total c)"
  shows "fc_Data fc = nth_piece c content i"
proof -
  let ?hs = "map (\<lambda>i. sha (nth_piece c content i)) [0..<unat (total c)]"
  note o = offeredD[OF off]
  have hash: "fc_Hash fc = sha (fc_Data fc)" "VerifyProof sha (fc_Hash fc) (uint (fc_Index fc)) (fc_Proof fc) (Root tree)"
    using valid by (auto simp: chunk_valid_def Let_def)
  have len: "length ?hs \<le> leafStart tree" using BuildMerkleTree_shape[OF o(2)] by metis
  have ui: "unat (fc_Index fc) = i" "uint (fc_Index fc) = int i"
    using i total_bound[OF i(2)] by (simp_all add: unat_of_nat_small uint_of_nat32)
  have "fc_Hash fc = padded ?hs (leafStart tree) ! i \<or>
      collides sha (tree_inputs tree) (climb_inputs sha (leafStart tree + i) (fc_Hash fc) (fc_Proof fc))"
    using und len i(2) hash ui o(3) by (intro VerifyProof_sound[OF o(2)]) (auto simp: undeceiving_def)
  then have "fc_Hash fc = ?hs ! i" using und ui i(2) by (auto simp: undeceiving_def padded_nth)
  then show ?thesis using und i(2) hash(1) by (auto simp: undeceiving_def)
qed

section \<open>Concrete transfers\<close>

definition demo_content :: bytes where "demo_content = [1, 2, 9]"

definition demo_files :: filesystem where
  "demo_files = (\<lambda>_. Missing)(''f'' := Regular demo_content)"

definition demo_chunker :: chunker where
  "demo_chunker = \<lparr>c_path = ''f'', fileSize = 3, chunkSize = 2, total = 2\<rparr>"

definition demo_ftree :: merkle_tree where
  "demo_ftree = projr (BuildMerkleTree demo_sha [demo_sha [1, 2], demo_sha [9]])"

definition demo_disk :: disk where
  "demo_disk = \<lparr>disk_mkdir = Inr (), disk_create = Inr (), disk_write = (\<lambda>_. Inr ())\<rparr>"

definition demo_xfer :: transfer where
  "demo_xfer = \<lparr>xf_ID = ''t'', xf_Filename = ''f'', xf_FileSize = 3, xf_ChunkSize = 2, xf_Total = 2,
     xf_RootHash = Root demo_ftree, xf_PeerAddr = '''', xf_Direction = ''receive'', xf_acked = 0, xf_failed = False\<rparr>"

definition demo_chunk_io :: "nat stream_io" where
  "demo_chunk_io =
     \<lparr>ctx_cancelled = (\<lambda>w. False), st_write = (\<lambda>w m. (w, Inr ())),
      st_read = (\<lambda>w. (Suc w, Inr (if w < 2
         then FileChunkMsg (honest_chunk demo_sha demo_chunker demo_ftree demo_content ''t'' w)
         else FileComplete ''t''))),
      st_files = (\<lambda>w. demo_files)\<rparr>"

lemma demo_hashes_eq: "AllChunkHashes demo_sha demo_files demo_chunker = Inr [demo_sha [1, 2], demo_sha [9]]"
  by code_simp

lemma demo_offered: "offered demo_sha demo_files demo_chunker demo_content demo_ftree"
proof -
  have "chunks_of demo_files demo_chunker demo_content"
    by (simp add: chunks_of_def demo_files_def demo_chunker_def demo_content_def pieces_def)
  moreover have "BuildMerkleTree demo_sha [demo_sha [1, 2], demo_sha [9]] = Inr demo_ftree"
    by (simp add: demo_ftree_def BuildMerkleTree_def Let_def)
  ultimately show ?thesis using demo_hashes_eq by (auto simp: offered_def)
qed

section \<open>Properties\<close>

text \<open>C9: Delivery. For any non-empty file with fewer than 2^32 chunks and a receiver that accepted the
  offer of its Merkle root over a reliable stream with a working disk, the sender's loop returns without
  error after at most one round per chunk plus one, and the receiver has written exactly the bytes of the
  file to the offered name under its save directory.\<close>

theorem transfer_delivers_file:
  assumes "fs path = Regular content" and "content \<noteq> []" and "0 < cs"
    and "int (length content) + cs \<le> 2 ^ 63" and "pieces (nat cs) content < 2 ^ 32"
    and "\<And>x. length (sha x) = 32"
    and "disk_mkdir dk = Inr ()" and "disk_create dk = Inr ()" and "\<And>i. disk_write dk i = Inr ()"
  shows "\<exists>c hs tree. NewChunkerWithSize fs path cs = Inr c \<and> AllChunkHashes sha fs c = Inr hs \<and>
    BuildMerkleTree sha hs = Inr tree \<and>
    (\<forall>x. xf_RootHash x = Root tree \<and> xf_Total x = TotalChunks c \<longrightarrow>
      (\<exists>w' s'. sendChunks (Suc (unat (TotalChunks c))) sha (link_io sha fs dk saveDir) c tree x
           \<lparr>lk_recv = \<lparr>chunks = [], r_xfer = x, r_progress = []\<rparr>, lk_acks = [], lk_out = None\<rparr> =
             Some (w', s', Inr ()) \<and>
         lk_out w' = Some (Some (Join saveDir (xf_Filename x), content), Inr ())))"
proof -
  obtain c where c: "NewChunkerWithSize fs path cs = Inr c" "chunks_of fs c content"
    using NewChunker_chunks_of[of fs path content cs] assms by blast
  define hs where "hs = map (\<lambda>i. sha (piece (nat (chunkSize c)) content i)) [0..<unat (total c)]"
  have hs: "AllChunkHashes sha fs c = Inr hs" using AllChunkHashes_pieces[OF c(2)] by (simp add: hs_def)
  have "hs \<noteq> []" using c(2) pieces_pos[of "nat (chunkSize c)" content] by (simp add: hs_def chunks_of_def)
  then obtain tree where tree: "BuildMerkleTree sha hs = Inr tree" using BuildMerkleTree_ok by blast
  have off: "offered sha fs c content tree" using c(2) hs tree assms(6) by (auto simp: offered_def)
  show ?thesis
  proof (intro exI[of _ c] exI[of _ hs] exI[of _ tree] conjI allI impI)
    fix x :: transfer assume x: "xf_RootHash x = Root tree \<and> xf_Total x = TotalChunks c"
    let ?s = "\<lparr>retries = (\<lambda>_. 0), nextToSend = 0, inFlight = 0, acked = [], s_xfer = x, s_progress = []\<rparr>"
    let ?w = "\<lparr>lk_recv = \<lparr>chunks = [], r_xfer = x, r_progress = []\<rparr>, lk_acks = [], lk_out = None\<rparr>"
    have "link_inv sha c tree content x 0 0 ?s ?w" using x by (simp add: link_inv_def TotalChunks_def)
    from send_loop_link[OF off assms(7,8,9) this, of "Suc (unat (total c))" "xf_Filename x" saveDir]
    show "\<exists>w' s'. sendChunks (Suc (unat (TotalChunks c))) sha (link_io sha fs dk saveDir) c tree x ?w =
        Some (w', s', Inr ()) \<and> lk_out w' = Some (Some (Join saveDir (xf_Filename x), content), Inr ())"
      unfolding sendChunks_def TotalChunks_def by force
  qed (use c(1) hs tree in auto)
qed

theorem transfer_delivers_file_witness:
  "\<exists>c hs tree. NewChunkerWithSize demo_files ''f'' 2 = Inr c \<and> AllChunkHashes demo_sha demo_files c = Inr hs \<and>
    BuildMerkleTree demo_sha hs = Inr tree"
proof -
  have "\<exists>c hs tree. NewChunkerWithSize demo_files ''f'' 2 = Inr c \<and> AllChunkHashes demo_sha demo_files c = Inr hs \<and>
    BuildMerkleTree demo_sha hs = Inr tree \<and>
    (\<forall>x. xf_RootHash x = Root tree \<and> xf_Total x = TotalChunks c \<longrightarrow>
      (\<exists>w' s'. sendChunks (Suc (unat (TotalChunks c))) demo_sha (link_io demo_sha demo_files demo_disk ''d'') c tree x
           \<lparr>lk_recv = \<lparr>chunks = [], r_xfer = x, r_progress = []\<rparr>, lk_acks = [], lk_out = None\<rparr> =
             Some (w', s', Inr ()) \<and>
         lk_out w' = Some (Some (Join ''d'' (xf_Filename x), demo_content), Inr ())))"
    by (rule transfer_delivers_file)
      (simp_all add: demo_files_def demo_content_def demo_disk_def pieces_def)
  then show ?thesis by blast
qed



text \<open>Integrity. Whatever the sender sends and however the stream behaves, a transfer that the receiver
  completes has written, to the offered name under the save directory, exactly the bytes of the file whose
  tree was offered, provided every delivered proof has the depth of the tree and makes the receiver hash
  no string that collides with one of the tree or of the file.\<close>

theorem received_file_intact:
  assumes "offered sha fs c content tree" and "xf_RootHash x = Root tree" and "xf_Total x = TotalChunks c"
    and "delivers io (undeceiving sha c content tree)"
    and "receiveChunks n sha io dk saveDir \<lparr>chunks = [], r_xfer = x, r_progress = []\<rparr> w =
           Some (w', r', Some (path, out), Inr ())"
  shows "path = Join saveDir (xf_Filename x) \<and> out = content"
proof -
  let ?r = "\<lparr>chunks = [], r_xfer = x, r_progress = []\<rparr>"
  have "recv_inv sha (undeceiving sha c content tree) (xf_RootHash (r_xfer ?r)) (chunks ?r)"
    by (simp add: recv_inv_def)
  from receiveChunks_ok[OF assms(4,5) this] obtain fcs where path: "path = Join saveDir (xf_Filename x)"
    and fcs: "length fcs = unat (total c)" "out = concat (map fc_Data fcs)"
      "\<And>i. i < length fcs \<Longrightarrow> undeceiving sha c content tree (fcs ! i) \<and>
         chunk_valid sha (Root tree) (fcs ! i) \<and> fc_Index (fcs ! i) = of_nat i"
    using assms(2,3) by (auto simp: TotalChunks_def)
  have "map fc_Data fcs = map (nth_piece c content) [0..<unat (total c)]"
  proof (rule nth_equalityI)
    fix i assume i: "i < length (map fc_Data fcs)"
    then have "fc_Data (fcs ! i) = nth_piece c content i"
      using fcs(3)[of i] fcs(1) by (intro valid_chunk_is_piece[OF assms(1)]) auto
    with i fcs(1) show "map fc_Data fcs ! i = map (nth_piece c content) [0..<unat (total c)] ! i" by simp
  qed (simp add: fcs(1))
  also have "concat (map (nth_piece c content) [0..<unat (total c)]) = content"
    using offeredD(1)[OF assms(1)] concat_pieces[of "nat (chunkSize c)" content]
    by (simp add: chunks_of_def nth_piece_def[abs_def])
  finally show ?thesis using path fcs(2) by simp
qed

lemma demo_undeceiving:
  assumes "w < 2"
  shows "undeceiving demo_sha demo_chunker demo_content demo_ftree
    (honest_chunk demo_sha demo_chunker demo_ftree demo_content ''t'' w)"
proof -
  let ?fc = "honest_chunk demo_sha demo_chunker demo_ftree demo_content ''t''"
  have w: "w = 0 \<or> w = Suc 0" using assms by auto
  have start: "leafStart demo_ftree = 2" by code_simp
  have "fc_Proof (?fc 0) = [nodes demo_ftree ! 3]" "fc_Hash (?fc 0) = nodes demo_ftree ! 2"
    "fc_Proof (?fc 1) = [nodes demo_ftree ! 2]" "fc_Hash (?fc 1) = nodes demo_ftree ! 3" by code_simp+
  moreover have "{1..<2 :: nat} = {1}" by auto
  moreover have "unat (fc_Index (?fc w)) = w" using w by (auto simp: honest_chunk_def)
  moreover have "fc_Data (?fc w) = nth_piece demo_chunker demo_content i"
    if "i < unat (total demo_chunker)" "demo_sha (fc_Data (?fc w)) = demo_sha (nth_piece demo_chunker demo_content i)" for i
  proof -
    have "i = 0 \<or> i = 1" using that(1) by (auto simp: demo_chunker_def)
    then show ?thesis using that(2) w
      by (auto simp: honest_chunk_def nth_piece_def piece_def demo_chunker_def demo_content_def demo_sha_def)
  qed
  ultimately show ?thesis using w
    by (auto simp: undeceiving_def start collides_def tree_inputs_def numeral_3_eq_3)
qed

theorem received_file_intact_witness:
  "\<exists>w' r' path out. receiveChunks 3 demo_sha demo_chunk_io demo_disk ''d''
      \<lparr>chunks = [], r_xfer = demo_xfer, r_progress = []\<rparr> 0 = Some (w', r', Some (path, out), Inr ()) \<and>
    out = demo_content"
proof -
  have "map_option (\<lambda>(w', r', p, q). (p \<noteq> None, q)) (receiveChunks 3 demo_sha demo_chunk_io demo_disk ''d''
      \<lparr>chunks = [], r_xfer = demo_xfer, r_progress = []\<rparr> 0) = Some (True, Inr ())"
    by code_simp
  then obtain w' r' path out where run: "receiveChunks 3 demo_sha demo_chunk_io demo_disk ''d''
      \<lparr>chunks = [], r_xfer = demo_xfer, r_progress = []\<rparr> 0 = Some (w', r', Some (path, out), Inr ())"
    by auto
  have "delivers demo_chunk_io (undeceiving demo_sha demo_chunker demo_content demo_ftree)"
    by (auto simp: delivers_def demo_chunk_io_def demo_undeceiving split: if_splits)
  from received_file_intact[OF demo_offered _ _ this run] run show ?thesis
    by (auto simp: demo_xfer_def demo_chunker_def TotalChunks_def)
qed

end
