(* ===== verification/Registry_Props.thy ===== *)
theory Registry_Props
  imports Registry
begin

text \<open>
  Correctness of the registry: the two maps agree and every registered service has its onion
  running (\<open>reg_inv\<close>), a failed registration leaves no trace, every registered service is
  advertised once a discovery layer is wired, and \<open>List\<close> is sorted whatever order the map is
  walked in. The discovery layer enters through the locale \<open>discovery\<close>, interpreted on the
  local identities of the DHT.
\<close>

section \<open>The discovery interface\<close>

locale discovery =
  fixes add :: "'d \<Rightarrow> string \<Rightarrow> string \<Rightarrow> 'd res" and remove :: "'d \<Rightarrow> string \<Rightarrow> 'd"
    and advertised :: "'d \<Rightarrow> string \<Rightarrow> bool" and home :: "'d \<Rightarrow> string"
    and ok :: "'d \<Rightarrow> bool" and valid :: "string \<Rightarrow> bool"
  assumes add_valid: "valid a \<Longrightarrow> \<exists>d'. add d a onion = Inr d'"
    and add_adv: "\<lbrakk> ok d; add d a onion = Inr d' \<rbrakk> \<Longrightarrow>
      ok d' \<and> (\<forall>b. advertised d' b \<longleftrightarrow> b = a \<or> advertised d b)"
    and remove_adv: "ok d \<Longrightarrow>
      ok (remove d a) \<and> (\<forall>b. advertised (remove d a) b \<longleftrightarrow> advertised d b \<and> (b \<noteq> a \<or> b = home d))"
begin

lemma advertise_all_adv:
  "\<lbrakk> ok d; \<forall>s \<in> set ss. valid (svc_Address s) \<rbrakk> \<Longrightarrow>
     ok (advertise_all add d ss) \<and>
     (\<forall>b. advertised (advertise_all add d ss) b \<longleftrightarrow> b \<in> svc_Address ` set ss \<or> advertised d b)"
proof (induction ss arbitrary: d)
  case (Cons s ss)
  obtain d' where d': "add d (svc_Address s) (svc_OnionAddr s) = Inr d'"
    using add_valid Cons.prems(2) by fastforce
  from add_adv[OF Cons.prems(1) d'] Cons.IH[of d'] Cons.prems(2) show ?case by (auto simp: d')
qed simp

end

definition advertised :: "dht \<Rightarrow> string \<Rightarrow> bool" where
  "advertised d a \<longleftrightarrow> a = Address (localPeer d) \<or> a \<in> set (map Address (localIdentities d))"

definition home :: "dht \<Rightarrow> string" where
  "home d = Address (localPeer d)"

definition valid_address :: "hashes \<Rightarrow> string \<Rightarrow> bool" where
  "valid_address h a \<longleftrightarrow> (\<exists>i. NodeIDFromAddress h a = Inr i)"

definition distinct_idents :: "dht \<Rightarrow> bool" where
  "distinct_idents d \<longleftrightarrow> distinct (map Address (localIdentities d)) \<and>
     Address (localPeer d) \<notin> set (map Address (localIdentities d))"

lemma Address_update_first:
  "Address p = k \<Longrightarrow> map Address (update_first (\<lambda>q. Address q = k) (\<lambda>_. p) ps) = map Address ps"
  by (induction ps) auto

lemma list_ex_Address: "list_ex (\<lambda>q. Address q = a) ps \<longleftrightarrow> a \<in> set (map Address ps)"
  by (auto simp: list_ex_iff)

lemma AddLocalIdentity_adv:
  assumes "distinct_idents d" "AddLocalIdentity h now d a onion = Inr d'"
  shows "distinct_idents d' \<and> (\<forall>b. advertised d' b \<longleftrightarrow> b = a \<or> advertised d b)"
  using assms
  by (auto simp: AddLocalIdentity_def Let_def distinct_idents_def advertised_def list_ex_Address
      Address_update_first simp del: set_map split: if_splits sum.splits)

lemma RemoveLocalIdentity_adv:
  assumes "distinct_idents d"
  shows "distinct_idents (fst (RemoveLocalIdentity d a)) \<and>
    (\<forall>b. advertised (fst (RemoveLocalIdentity d a)) b \<longleftrightarrow> advertised d b \<and> (b \<noteq> a \<or> b = home d))"
proof -
  have "remove_first (\<lambda>q. Address q = a) (localIdentities d) = filter (\<lambda>q. Address q \<noteq> a) (localIdentities d)"
    using assms by (intro remove_first_unique) (simp add: distinct_idents_def)
  with assms show ?thesis
    by (auto simp: RemoveLocalIdentity_def Let_def distinct_idents_def advertised_def home_def
        distinct_map_filter)
qed

interpretation dht_disc: discovery "AddLocalIdentity h now" "\<lambda>d a. fst (RemoveLocalIdentity d a)"
  advertised home distinct_idents "valid_address h" for h now
proof
  fix a onion and d :: dht assume "valid_address h a"
  then show "\<exists>d'. AddLocalIdentity h now d a onion = Inr d'"
    by (auto simp: valid_address_def AddLocalIdentity_def Let_def)
qed (use AddLocalIdentity_adv RemoveLocalIdentity_adv in blast)+

section \<open>Invariant of the maps\<close>

definition reg_inv :: "('d, 'k) registry \<Rightarrow> bool" where
  "reg_inv r \<longleftrightarrow>
     distinct (map fst (byName r)) \<and>
     (\<forall>n s. Get r n = Some s \<longrightarrow>
        Name s = n \<and> LookupByOnion r (svc_OnionAddr s) = Some s \<and>
        engine_OnionAddr (te r) n = Some (svc_OnionAddr s)) \<and>
     (\<forall>onion s. LookupByOnion r onion = Some s \<longrightarrow> svc_OnionAddr s = onion \<and> Get r (Name s) = Some s)"

text \<open>What the model of a run relies on: the onion a registration is given is not in use.\<close>

definition fresh_onion :: "('d, 'k) reg_env \<Rightarrow> ('d, 'k) registry \<Rightarrow> string \<Rightarrow> bool" where
  "fresh_onion env r name \<longleftrightarrow>
     (\<forall>e onion. AddOnion (te_listen env) (te_saved env) (te r) name None = (e, Inr onion) \<longrightarrow>
        LookupByOnion r onion = None)"

lemma Get_update_simps [simp]:
  "Get (r\<lparr>te := e\<rparr>) = Get r" "Get (r\<lparr>disc := d\<rparr>) = Get r" "Get (r\<lparr>hook_calls := c\<rparr>) = Get r"
  "Get (r\<lparr>onRegister := cb\<rparr>) = Get r" "Get (r\<lparr>onUnregister := b\<rparr>) = Get r"
  "Get (drop_service r n onion) = (Get r)(n := None)"
  by (auto simp: Get_def fun_eq_iff drop_service_def delete_conv')

lemma LookupByOnion_update_simps [simp]:
  "LookupByOnion (r\<lparr>te := e\<rparr>) = LookupByOnion r" "LookupByOnion (r\<lparr>disc := d\<rparr>) = LookupByOnion r"
  "LookupByOnion (r\<lparr>hook_calls := c\<rparr>) = LookupByOnion r"
  "LookupByOnion (drop_service r n onion) = (LookupByOnion r)(onion := None)"
  by (auto simp: LookupByOnion_def fun_eq_iff drop_service_def delete_conv')

lemma drop_service_frame [simp]:
  "te (drop_service r n onion) = te r" "disc (drop_service r n onion) = disc r"
  "onUnregister (drop_service r n onion) = onUnregister r"
  "hook_calls (drop_service r n onion) = hook_calls r"
  "byName (drop_service r n onion) = AList.delete n (byName r)"
  by (simp_all add: drop_service_def)

lemma rollback_onion_frame:
  assumes "rollback_onion env r name = (r', b)"
  shows "Get r' = Get r" "LookupByOnion r' = LookupByOnion r" "byName r' = byName r" "disc r' = disc r"
    "onions (te r') = (onions (te r))(name := None)" "hook_calls r' = hook_calls r"
proof -
  have "\<exists>e. r' = r\<lparr>te := e\<rparr> \<and> onions e = (onions (te r))(name := None)"
    using assms RemoveOnion_onions[of "te_closed env" "te r" name]
    by (auto simp: rollback_onion_def split: prod.splits sum.splits)
  then show "Get r' = Get r" "LookupByOnion r' = LookupByOnion r" "byName r' = byName r" "disc r' = disc r"
    "onions (te r') = (onions (te r))(name := None)" "hook_calls r' = hook_calls r" by auto
qed

section \<open>The stages of a registration\<close>

definition kept :: "('d, 'k) registry \<Rightarrow> ('d, 'k) registry \<Rightarrow> bool" where
  "kept r r' \<longleftrightarrow> byName r' = byName r \<and> byOnion r' = byOnion r \<and> te r' = te r"

definition undone :: "service \<Rightarrow> ('d, 'k) registry \<Rightarrow> ('d, 'k) registry \<Rightarrow> bool" where
  "undone svc r r' \<longleftrightarrow>
     Get r' = (Get r)(Name svc := None) \<and>
     LookupByOnion r' = (LookupByOnion r)(svc_OnionAddr svc := None) \<and>
     onions (te r') = (onions (te r))(Name svc := None) \<and>
     byName r' = AList.delete (Name svc) (byName r)"

definition entered :: "service \<Rightarrow> ('d, 'k) registry \<Rightarrow> ('d, 'k) registry \<Rightarrow> bool" where
  "entered svc r r' \<longleftrightarrow>
     Get r' = (Get r)(Name svc \<mapsto> svc) \<and>
     LookupByOnion r' = (LookupByOnion r)(svc_OnionAddr svc \<mapsto> svc) \<and>
     byName r' = AList.update (Name svc) svc (byName r)"

lemma undone_rollback:
  "rollback_onion env (drop_service r (Name svc) (svc_OnionAddr svc)\<lparr>disc := d\<rparr>) (Name svc) = (r', b) \<Longrightarrow>
     undone svc r r'"
  using rollback_onion_frame[of env "drop_service r (Name svc) (svc_OnionAddr svc)\<lparr>disc := d\<rparr>" "Name svc" r' b]
  by (simp add: undone_def)

lemma undone_hook_calls [simp]: "undone svc (r\<lparr>hook_calls := c\<rparr>) r' = undone svc r r'"
  by (simp add: undone_def)

lemma register_insert_outcome:
  "Get r (Name svc) = None \<Longrightarrow>
     \<exists>r'. register_insert env r svc = (r', Inr ()) \<and> entered svc r r' \<and> te r' = te r \<and> disc r' = disc r \<and>
       hook_calls r' = hook_calls r \<and> onRegister r' = onRegister r"
  by (auto simp: register_insert_def entered_def Get_def LookupByOnion_def fun_eq_iff update_conv')

lemma register_advertise_outcome:
  assumes "register_advertise env r svc = (r', res)"
  shows "case res of
      Inr _ \<Rightarrow> kept r r' \<and> hook_calls r' = hook_calls r \<and> onRegister r' = onRegister r \<and>
        (\<forall>d. disc r = Some d \<longrightarrow>
           (\<exists>d'. disc_add env d (svc_Address svc) (svc_OnionAddr svc) = Inr d' \<and> disc r' = Some d')) \<and>
        (disc r = None \<longrightarrow> disc r' = None)
    | Inl _ \<Rightarrow> undone svc r r' \<and> disc r' = disc r"
proof (cases "disc r")
  case None
  with assms show ?thesis by (auto simp: register_advertise_def kept_def)
next
  case (Some d)
  have "undone svc r r'" "disc r' = disc r"
    if "rollback_onion env (drop_service r (Name svc) (svc_OnionAddr svc)) (Name svc) = (r', b)" for r' b
    using that undone_rollback[of env "disc r" r svc r' b] rollback_onion_frame[OF that]
    by (simp_all add: drop_service_def)
  with Some assms show ?thesis
    by (auto simp: register_advertise_def kept_def split: sum.splits prod.splits bool.splits)
qed

lemma register_hook_outcome:
  assumes "register_hook env r svc = (r', res)"
  shows "case res of
      Inr _ \<Rightarrow> kept r r' \<and> disc r' = disc r \<and>
        hook_calls r' = hook_calls r @ (if onRegister r = None then [] else [Registered svc])
    | Inl _ \<Rightarrow> undone svc r r' \<and>
        disc r' = map_option (\<lambda>d. disc_remove env d (svc_Address svc)) (disc r)"
proof (cases "onRegister r")
  case None
  with assms show ?thesis by (auto simp: register_hook_def kept_def)
next
  case (Some cb)
  let ?r1 = "r\<lparr>hook_calls := hook_calls r @ [Registered svc]\<rparr>"
  let ?d = "map_option (\<lambda>d. disc_remove env d (svc_Address svc)) (disc r)"
  have "undone svc r r'" "disc r' = ?d"
    if "rollback_onion env (drop_service ?r1 (Name svc) (svc_OnionAddr svc)\<lparr>disc := ?d\<rparr>) (Name svc) = (r', b)"
    for r' b
    using that undone_rollback[of env ?d ?r1 svc r' b] rollback_onion_frame[OF that] by simp_all
  with Some assms show ?thesis
    by (auto simp: register_hook_def kept_def Let_def split: sum.splits prod.splits bool.splits)
qed

lemma undone_entered:
  "\<lbrakk> entered svc r r1; undone svc r1 r2; Get r (Name svc) = None; LookupByOnion r (svc_OnionAddr svc) = None \<rbrakk> \<Longrightarrow>
     Get r2 = Get r \<and> LookupByOnion r2 = LookupByOnion r"
  by (auto simp: entered_def undone_def)

lemma kept_maps: "kept r r' \<Longrightarrow> Get r' = Get r \<and> LookupByOnion r' = LookupByOnion r"
  by (simp add: kept_def Get_def LookupByOnion_def fun_eq_iff)

text \<open>The outcome of a whole registration, in terms of the two lookups and the running onions.\<close>

lemma Register_outcome:
  assumes inv: "reg_inv r" and fresh: "fresh_onion env r name"
    and reg: "Register env r name m hs = (r', res)"
  shows "case res of
      Inl _ \<Rightarrow> Get r' = Get r \<and> LookupByOnion r' = LookupByOnion r \<and> onions (te r') = onions (te r) \<and>
        (byName r' = byName r \<or> (\<exists>s. byName r' = AList.delete name (AList.update name s (byName r))))
    | Inr svc \<Rightarrow> entered svc r r' \<and> Name svc = name \<and> Get r name = None \<and>
        LookupByOnion r (svc_OnionAddr svc) = None \<and>
        (\<exists>i k. svc_OnionAddr svc = onion_host i \<and>
           onions (te r') = (onions (te r))(name \<mapsto> \<lparr>svc_ID = i, svc_Key = k\<rparr>)) \<and>
        hook_calls r' = hook_calls r @ (if onRegister r = None then [] else [Registered svc]) \<and>
        GetOrGenerate env name = Inr (svc_Identity svc) \<and>
        svc_Address svc = DeriveAddress (H env) (PublicKey (svc_Identity svc)) \<and>
        (\<forall>d. disc r = Some d \<longrightarrow>
           (\<exists>d'. disc_add env d (svc_Address svc) (svc_OnionAddr svc) = Inr d' \<and> disc r' = Some d')) \<and>
        (disc r = None \<longrightarrow> disc r' = None)"
proof -
  consider (early) err where "res = Inl err" "r' = r"
    | (onion) e err where "AddOnion (te_listen env) (te_saved env) (te r) name None = (e, Inl err)"
        "res = Inl ''publishing onion''" "r' = r\<lparr>te := e\<rparr>"
    | (go) kp e onion where "Get r name = None" "GetOrGenerate env name = Inr kp"
        "AddOnion (te_listen env) (te_saved env) (te r) name None = (e, Inr onion)"
    using reg by (fastforce simp: Register_def Get_def split: if_splits sum.splits prod.splits)
  then show ?thesis
  proof cases
    case early
    then show ?thesis by simp
  next
    case onion
    with AddOnion_error[OF onion(1)] show ?thesis by simp
  next
    case go
    define svc where "svc = new_service env name kp onion m hs"
    have svc: "Name svc = name" "svc_OnionAddr svc = onion" by (simp_all add: svc_def new_service_def)
    have free: "LookupByOnion r onion = None" using fresh go(3) by (simp add: fresh_onion_def)
    obtain i k where add: "onions (te r) name = None" "onion = onion_host i"
      "onions e = (onions (te r))(name \<mapsto> \<lparr>svc_ID = i, svc_Key = k\<rparr>)"
      using AddOnion_ok[OF go(3)] by blast
    obtain r1 where r1: "register_insert env (r\<lparr>te := e\<rparr>) svc = (r1, Inr ())" "entered svc r r1" "te r1 = e"
      "disc r1 = disc r" "hook_calls r1 = hook_calls r" "onRegister r1 = onRegister r"
      using register_insert_outcome[of "r\<lparr>te := e\<rparr>" svc env] go(1) svc(1) by (auto simp: entered_def)
    obtain r2 res2 where r2: "register_advertise env r1 svc = (r2, res2)" by fastforce
    note out2 = register_advertise_outcome[OF r2]
    show ?thesis
    proof (cases res2)
      case (Inl err)
      then have "r' = r2" "res = Inl err" "undone svc r1 r2"
        using reg go r1 r2 out2 by (auto simp: Register_def Get_def svc_def Let_def)
      moreover from this have "Get r2 = Get r \<and> LookupByOnion r2 = LookupByOnion r"
        using undone_entered[OF r1(2)] go(1) free svc by simp
      ultimately show ?thesis using add r1 svc by (auto simp: undone_def entered_def)
    next
      case (Inr u)
      obtain r3 res3 where r3: "register_hook env r2 svc = (r3, res3)" by fastforce
      note out3 = register_hook_outcome[OF r3]
      have k12: "kept r1 r2" "Get r2 = Get r1" "LookupByOnion r2 = LookupByOnion r1"
        using out2 Inr kept_maps by auto
      have r': "r' = r3" "res = map_sum id (\<lambda>_. svc) res3"
        using reg go r1 r2 r3 Inr by (auto simp: Register_def Get_def svc_def Let_def split: sum.splits)
      show ?thesis
      proof (cases res3)
        case (Inl err)
        then have un: "undone svc r2 r3" using out3 by simp
        moreover have "entered svc r r2" using r1(2) k12 by (auto simp: entered_def kept_def)
        ultimately have "Get r3 = Get r \<and> LookupByOnion r3 = LookupByOnion r"
          using undone_entered go(1) free svc by metis
        then show ?thesis using r' Inl un k12(1) add r1(2,3) svc
          by (auto simp: undone_def kept_def entered_def)
      next
        case (Inr v)
        then have "kept r2 r3" "disc r3 = disc r2" using out3 by auto
        then have "entered svc r r3" "onions (te r3) = onions e"
          using r1 k12 kept_maps[of r2 r3] by (auto simp: entered_def kept_def)
        then show ?thesis
          using r' Inr \<open>res2 = Inr u\<close> out2 out3 r1 add svc go free
          by (auto simp: svc_def new_service_def)
      qed
    qed
  qed
qed

lemma engine_OnionAddr_cong: "onions e n = onions e' n \<Longrightarrow> engine_OnionAddr e n = engine_OnionAddr e' n"
  by (simp add: engine_OnionAddr_def)

lemma reg_invD:
  assumes "reg_inv r"
  shows "Get r n = Some s \<Longrightarrow> Name s = n"
    and "Get r n = Some s \<Longrightarrow> LookupByOnion r (svc_OnionAddr s) = Some s"
    and "Get r n = Some s \<Longrightarrow> engine_OnionAddr (te r) n = Some (svc_OnionAddr s)"
    and "LookupByOnion r onion = Some s \<Longrightarrow> svc_OnionAddr s = onion"
    and "LookupByOnion r onion = Some s \<Longrightarrow> Get r (Name s) = Some s"
    and "distinct (map fst (byName r))"
  using assms by (auto simp: reg_inv_def)

lemma reg_inv_Register:
  assumes "reg_inv r" "fresh_onion env r name"
  shows "reg_inv (fst (Register env r name m hs))"
proof -
  obtain r' res where reg: "Register env r name m hs = (r', res)" by fastforce
  note out = Register_outcome[OF assms reg]
  show ?thesis
  proof (cases res)
    case (Inl err)
    then have "distinct (map fst (byName r'))"
      using out assms(1) by (auto simp: reg_inv_def distinct_delete distinct_update)
    with Inl out assms(1) reg show ?thesis
      by (auto simp: reg_inv_def cong: engine_OnionAddr_cong)
  next
    case (Inr svc)
    with out obtain i k where *: "entered svc r r'" "Name svc = name" "Get r name = None"
      "LookupByOnion r (svc_OnionAddr svc) = None" "svc_OnionAddr svc = onion_host i"
      "onions (te r') = (onions (te r))(name \<mapsto> \<lparr>svc_ID = i, svc_Key = k\<rparr>)" by auto
    have eng: "engine_OnionAddr (te r') n = (if n = name then Some (svc_OnionAddr svc) else engine_OnionAddr (te r) n)"
      for n using *(5,6) by (simp add: engine_OnionAddr_def)
    have "distinct (map fst (byName r'))" using *(1) assms(1) by (simp add: entered_def reg_inv_def distinct_update)
    moreover have "Name s = n \<and> LookupByOnion r' (svc_OnionAddr s) = Some s \<and>
        engine_OnionAddr (te r') n = Some (svc_OnionAddr s)" if "Get r' n = Some s" for n s
      using that * eng[of n] reg_invD(1-3)[OF assms(1), of n s]
      by (auto simp: entered_def split: if_splits)
    moreover have "svc_OnionAddr s = onion \<and> Get r' (Name s) = Some s" if "LookupByOnion r' onion = Some s" for onion s
      using that * reg_invD(4,5)[OF assms(1), of onion s] by (auto simp: entered_def split: if_splits)
    ultimately show ?thesis using reg by (auto simp: reg_inv_def)
  qed
qed

lemma Unregister_outcome:
  assumes "Unregister env r name = (r', res)"
  shows "case Get r name of
      None \<Rightarrow> r' = r \<and> res = Inl ErrNotRegistered
    | Some svc \<Rightarrow> Get r' = (Get r)(name := None) \<and>
        LookupByOnion r' = (LookupByOnion r)(svc_OnionAddr svc := None) \<and>
        onions (te r') = (onions (te r))(name := None) \<and> byName r' = AList.delete name (byName r) \<and>
        disc r' = map_option (\<lambda>d. disc_remove env d (svc_Address svc)) (disc r)"
proof (cases "Get r name")
  case None
  with assms show ?thesis by (simp add: Unregister_def Get_def)
next
  case (Some svc)
  define r2 where "r2 = (if onUnregister r then (drop_service r name (svc_OnionAddr svc))
      \<lparr>hook_calls := hook_calls r @ [Unregistered svc]\<rparr> else drop_service r name (svc_OnionAddr svc))"
  define r3 where "r3 = r2\<lparr>disc := map_option (\<lambda>d. disc_remove env d (svc_Address svc)) (disc r2)\<rparr>"
  have "\<exists>b. rollback_onion env r3 name = (r', b)"
    using assms Some by (auto simp: Unregister_def Get_def Let_def r2_def r3_def
        split: prod.splits bool.splits if_splits)
  then obtain b where "rollback_onion env r3 name = (r', b)" ..
  from rollback_onion_frame[OF this] Some show ?thesis by (simp add: r3_def r2_def)
qed

lemma reg_inv_Unregister:
  assumes "reg_inv r"
  shows "reg_inv (fst (Unregister env r name))"
proof -
  obtain r' res where reg: "Unregister env r name = (r', res)" by fastforce
  note out = Unregister_outcome[OF reg]
  show ?thesis
  proof (cases "Get r name")
    case None
    with out assms reg show ?thesis by simp
  next
    case (Some svc)
    note * = out[unfolded Some option.case]
    have other: "svc_OnionAddr s \<noteq> svc_OnionAddr svc" if "Get r n = Some s" "n \<noteq> name" for n s
      using that Some reg_invD(1,2)[OF assms] by (metis option.inject)
    have "distinct (map fst (byName r'))" using * reg_invD(6)[OF assms] by (simp add: distinct_delete)
    moreover have "Name s = n \<and> LookupByOnion r' (svc_OnionAddr s) = Some s \<and>
        engine_OnionAddr (te r') n = Some (svc_OnionAddr s)" if "Get r' n = Some s" for n s
      using that * other[of n s] reg_invD(1-3)[OF assms, of n s]
      by (auto simp: engine_OnionAddr_def split: if_splits)
    moreover have "svc_OnionAddr s = onion \<and> Get r' (Name s) = Some s" if "LookupByOnion r' onion = Some s" for onion s
    proof -
      have "LookupByOnion r onion = Some s" "onion \<noteq> svc_OnionAddr svc" using that * by (auto split: if_splits)
      then show ?thesis using * reg_invD(4,5)[OF assms, of onion s] Some by (metis fun_upd_other option.inject)
    qed
    ultimately show ?thesis using reg by (auto simp: reg_inv_def)
  qed
qed

section \<open>Advertising\<close>

definition addresses_ok :: "hashes \<Rightarrow> (string \<rightharpoonup> service) \<Rightarrow> bool" where
  "addresses_ok h g \<longleftrightarrow>
     (\<forall>n s. g n = Some s \<longrightarrow> valid_address h (svc_Address s)) \<and>
     (\<forall>n s n' s'. g n = Some s \<and> g n' = Some s' \<and> svc_Address s = svc_Address s' \<longrightarrow> n = n')"

definition services_advertised :: "hashes \<Rightarrow> (dht, 'k) registry \<Rightarrow> bool" where
  "services_advertised h r \<longleftrightarrow> addresses_ok h (Get r) \<and>
     (\<forall>d. disc r = Some d \<longrightarrow> distinct_idents d \<and> (\<forall>n s. Get r n = Some s \<longrightarrow> advertised d (svc_Address s)))"

lemma addresses_okD:
  assumes "addresses_ok h g" "g n = Some s"
  shows "valid_address h (svc_Address s)"
    and "g n' = Some s' \<Longrightarrow> svc_Address s = svc_Address s' \<Longrightarrow> n = n'"
  using assms unfolding addresses_ok_def by metis+

lemma addresses_ok_upd:
  assumes "addresses_ok h g" "valid_address h (svc_Address svc)"
    and "\<And>n s. g n = Some s \<Longrightarrow> svc_Address s \<noteq> svc_Address svc"
  shows "addresses_ok h (g(name \<mapsto> svc))"
  using assms unfolding addresses_ok_def by (metis map_upd_Some_iff)

lemma addresses_ok_delete: "addresses_ok h g \<Longrightarrow> addresses_ok h (g(name := None))"
  unfolding addresses_ok_def by (metis fun_upd_other fun_upd_same option.distinct(1))

definition fresh_address :: "('d, 'k) reg_env \<Rightarrow> ('d, 'k) registry \<Rightarrow> string \<Rightarrow> bool" where
  "fresh_address env r name \<longleftrightarrow>
     (\<forall>kp n s. GetOrGenerate env name = Inr kp \<and> Get r n = Some s \<longrightarrow>
        svc_Address s \<noteq> DeriveAddress (H env) (PublicKey kp))"

text \<open>The environment of a daemon: hashes, and the DHT as the discovery layer.\<close>

definition dht_env :: "hashes \<Rightarrow> time \<Rightarrow> (dht, 'k) reg_env \<Rightarrow> bool" where
  "dht_env h now env \<longleftrightarrow> H env = h \<and> disc_add env = AddLocalIdentity h now \<and>
     disc_remove env = (\<lambda>d a. fst (RemoveLocalIdentity d a))"

lemma Register_error_disc:
  assumes "Register env r name m hs = (r', Inl err)" and "reg_inv r" and "fresh_onion env r name"
    and "disc r = Some d"
  shows "disc r' = Some d \<or>
    (\<exists>kp onion d1. GetOrGenerate env name = Inr kp \<and>
       disc_add env d (DeriveAddress (H env) (PublicKey kp)) onion = Inr d1 \<and>
       disc r' = Some (disc_remove env d1 (DeriveAddress (H env) (PublicKey kp))))"
proof -
  have "disc r' = disc r \<or> (\<exists>kp e onion. Get r name = None \<and> GetOrGenerate env name = Inr kp \<and>
      AddOnion (te_listen env) (te_saved env) (te r) name None = (e, Inr onion))"
    using assms(1) by (fastforce simp: Register_def Get_def split: if_splits sum.splits prod.splits)
  then show ?thesis
  proof (elim disjE exE conjE)
    fix kp e onion assume go: "Get r name = None" "GetOrGenerate env name = Inr kp"
      "AddOnion (te_listen env) (te_saved env) (te r) name None = (e, Inr onion)"
    define svc where "svc = new_service env name kp onion m hs"
    have svc: "Name svc = name" "svc_Address svc = DeriveAddress (H env) (PublicKey kp)"
      by (simp_all add: svc_def new_service_def)
    obtain r1 where r1: "register_insert env (r\<lparr>te := e\<rparr>) svc = (r1, Inr ())" "disc r1 = disc r"
      using register_insert_outcome[of "r\<lparr>te := e\<rparr>" svc env] go(1) svc(1) by auto
    obtain r2 res2 where r2: "register_advertise env r1 svc = (r2, res2)" by fastforce
    obtain r3 res3 where r3: "register_hook env r2 svc = (r3, res3)" by fastforce
    note outs = register_advertise_outcome[OF r2] register_hook_outcome[OF r3]
    have reg: "(case res2 of Inl err \<Rightarrow> r' = r2 | Inr _ \<Rightarrow> r' = r3 \<and> (\<exists>err. res3 = Inl err))"
      using assms(1) go r1(1) r2 r3
      by (auto simp: Register_def Get_def svc_def[symmetric] Let_def split: sum.splits)
    then show ?thesis using outs r1(2) assms(4) svc(2) go(2)
      by (auto split: sum.splits)
  qed (use assms(4) in auto)
qed

lemma services_advertised_Register:
  assumes adv: "services_advertised h r" and inv: "reg_inv r" and env: "dht_env h now env"
    and fresh: "fresh_onion env r name" "fresh_address env r name"
    and h: "hash_widths h" "base58_inverse h"
  shows "services_advertised h (fst (Register env r name m hs))"
proof -
  obtain r' res where reg: "Register env r name m hs = (r', res)" by fastforce
  note out = Register_outcome[OF inv fresh(1) reg]
  have valid: "valid_address h (DeriveAddress h pk)" for pk
    using NodeIDFromAddress_DeriveAddress[OF h] by (auto simp: valid_address_def)
  show ?thesis
  proof (cases res)
    case (Inr svc)
    with out have svc: "entered svc r r'" "Name svc = name" "Get r name = None"
      "GetOrGenerate env name = Inr (svc_Identity svc)"
      "svc_Address svc = DeriveAddress (H env) (PublicKey (svc_Identity svc))" by auto
    have addr: "svc_Address svc = DeriveAddress h (PublicKey (svc_Identity svc))"
      using svc(5) env by (simp add: dht_env_def)
    have new: "svc_Address s \<noteq> svc_Address svc" if "Get r n = Some s" for n s
      using that fresh(2) svc(4) env addr by (auto simp: fresh_address_def dht_env_def)
    have get: "Get r' = (Get r)(name \<mapsto> svc)" using svc by (simp add: entered_def)
    have "distinct_idents d' \<and> (\<forall>n s. Get r' n = Some s \<longrightarrow> advertised d' (svc_Address s))" if dd: "disc r' = Some d'" for d'
    proof -
      obtain d where d: "disc r = Some d" "AddLocalIdentity h now d (svc_Address svc) (svc_OnionAddr svc) = Inr d'"
        using out Inr env dd by (cases "disc r") (auto simp: dht_env_def)
      with adv dht_disc.add_adv[OF _ d(2)] show ?thesis by (auto simp: services_advertised_def get)
    qed
    moreover have "addresses_ok h (Get r')"
      unfolding get using adv new addr valid by (intro addresses_ok_upd) (auto simp: services_advertised_def)
    ultimately show ?thesis using reg by (simp add: services_advertised_def)
  next
    case (Inl err)
    have get: "Get r' = Get r" using out Inl by simp
    have "distinct_idents d' \<and> (\<forall>n s. Get r' n = Some s \<longrightarrow> advertised d' (svc_Address s))" if d': "disc r' = Some d'" for d'
    proof (cases "disc r")
      case None
      have "disc r' = None"
        using reg None by (auto simp: Register_def register_insert_def register_advertise_def register_hook_def
            Let_def rollback_onion_def split: if_splits sum.splits prod.splits option.splits bool.splits)
      with d' show ?thesis by simp
    next
      case (Some d)
      have ok: "distinct_idents d" "\<forall>n s. Get r n = Some s \<longrightarrow> advertised d (svc_Address s)"
        using adv Some by (auto simp: services_advertised_def)
      from Register_error_disc[OF _ inv fresh(1) Some] reg Inl
      consider "disc r' = Some d" | (undo) kp onion d1 where "GetOrGenerate env name = Inr kp"
        "AddLocalIdentity h now d (DeriveAddress h (PublicKey kp)) onion = Inr d1"
        "disc r' = Some (fst (RemoveLocalIdentity d1 (DeriveAddress h (PublicKey kp))))"
        using env by (fastforce simp: dht_env_def)
      then show ?thesis
      proof cases
        case undo
        note a = dht_disc.add_adv[OF ok(1) undo(2)]
        note b = dht_disc.remove_adv[OF conjunct1[OF a], of "DeriveAddress h (PublicKey kp)"]
        have "svc_Address s \<noteq> DeriveAddress h (PublicKey kp)" if "Get r n = Some s" for n s
          using that fresh(2) undo(1) env by (auto simp: fresh_address_def dht_env_def)
        with a b ok undo(3) d' get show ?thesis by auto
      qed (use ok d' get in auto)
    qed
    with adv reg get show ?thesis by (simp add: services_advertised_def)
  qed
qed

lemma services_advertised_Unregister:
  assumes adv: "services_advertised h r" and inv: "reg_inv r" and env: "dht_env h now env"
  shows "services_advertised h (fst (Unregister env r name))"
proof -
  obtain r' res where reg: "Unregister env r name = (r', res)" by fastforce
  note out = Unregister_outcome[OF reg]
  show ?thesis
  proof (cases "Get r name")
    case None
    with out adv reg show ?thesis by simp
  next
    case (Some svc)
    note * = out[unfolded Some option.case]
    have "distinct_idents d' \<and> (\<forall>n s. Get r' n = Some s \<longrightarrow> advertised d' (svc_Address s))" if dd: "disc r' = Some d'" for d'
    proof -
      obtain d where d: "disc r = Some d" "d' = fst (RemoveLocalIdentity d (svc_Address svc))"
        using dd * env by (auto simp: dht_env_def)
      have ok: "distinct_idents d" "\<forall>n s. Get r n = Some s \<longrightarrow> advertised d (svc_Address s)"
        using adv d(1) by (auto simp: services_advertised_def)
      have "svc_Address s \<noteq> svc_Address svc" if "Get r n = Some s" "n \<noteq> name" for n s
        using that Some adv addresses_okD(2)[of h "Get r" n s name svc] by (auto simp: services_advertised_def)
      with dht_disc.remove_adv[OF ok(1), of "svc_Address svc"] ok * d(2) show ?thesis
        by (auto split: if_splits)
    qed
    moreover have "addresses_ok h (Get r')" using * adv by (simp add: services_advertised_def addresses_ok_delete)
    ultimately show ?thesis using reg by (simp add: services_advertised_def)
  qed
qed

lemma services_advertised_SetDiscovery:
  assumes adv: "services_advertised h r" and inv: "reg_inv r" and env: "dht_env h now env"
    and d: "\<forall>d0. d = Some d0 \<longrightarrow> distinct_idents d0"
  shows "services_advertised h (SetDiscovery env r d)"
proof -
  have get: "Get (SetDiscovery env r d) = Get r" by (simp add: SetDiscovery_def)
  have mem: "s \<in> set (map snd (byName r)) \<longleftrightarrow> (\<exists>n. Get r n = Some s)" for s
    using reg_invD(6)[OF inv] by (force simp: Get_def)
  have "distinct_idents d' \<and> (\<forall>n s. Get r n = Some s \<longrightarrow> advertised d' (svc_Address s))"
    if d': "disc (SetDiscovery env r d) = Some d'" for d'
  proof -
    obtain d0 where d0: "d = Some d0" "d' = advertise_all (AddLocalIdentity h now) d0 (map snd (byName r))"
      using d' env by (auto simp: SetDiscovery_def dht_env_def)
    have valid: "\<forall>s \<in> set (map snd (byName r)). valid_address h (svc_Address s)"
      using adv mem addresses_okD(1) unfolding services_advertised_def by metis
    from dht_disc.advertise_all_adv[OF _ valid, of d0 now] d d0 mem show ?thesis
      by (auto simp del: set_map)
  qed
  with adv get show ?thesis by (simp add: services_advertised_def)
qed

section \<open>Listing\<close>

interpretation by_name: slice_less name_less
  by unfold_locales (auto simp: name_less_def)

lemma mem_byName: "reg_inv r \<Longrightarrow> s \<in> set (map snd (byName r)) \<longleftrightarrow> Get r (Name s) = Some s"
proof
  assume inv: "reg_inv r" and "s \<in> set (map snd (byName r))"
  then obtain n where n: "(n, s) \<in> set (byName r)" by auto
  then have "Get r n = Some s" using reg_invD(6)[OF inv] by (simp add: Get_def)
  with reg_invD(1)[OF inv this] show "Get r (Name s) = Some s" by simp
next
  assume "Get r (Name s) = Some s"
  then show "s \<in> set (map snd (byName r))" by (force simp: Get_def dest: map_of_SomeD)
qed

section \<open>Reachable registries\<close>

inductive reg_reach :: "hashes \<Rightarrow> (dht, 'k) registry \<Rightarrow> bool" for h where
  reach_new: "reg_reach h (registry_New e)"
| reach_register: "\<lbrakk> reg_reach h r; dht_env h now env; fresh_onion env r name; fresh_address env r name \<rbrakk> \<Longrightarrow>
    reg_reach h (fst (Register env r name m hs))"
| reach_unregister: "\<lbrakk> reg_reach h r; dht_env h now env \<rbrakk> \<Longrightarrow> reg_reach h (fst (Unregister env r name))"
| reach_hook: "reg_reach h r \<Longrightarrow> reg_reach h (SetOnRegister r cb)"
| reach_unhook: "reg_reach h r \<Longrightarrow> reg_reach h (SetOnUnregister r b)"
| reach_discovery: "\<lbrakk> reg_reach h r; dht_env h now env; \<forall>d0. d = Some d0 \<longrightarrow> distinct_idents d0 \<rbrakk> \<Longrightarrow>
    reg_reach h (SetDiscovery env r d)"
| reach_dht: "\<lbrakk> reg_reach h r; disc r = Some d; localIdentities d' = localIdentities d;
    Address (localPeer d') = Address (localPeer d) \<rbrakk> \<Longrightarrow> reg_reach h (r\<lparr>disc := Some d'\<rparr>)"

lemma reg_inv_frame:
  "\<lbrakk> byName r' = byName r; byOnion r' = byOnion r; te r' = te r \<rbrakk> \<Longrightarrow> reg_inv r' = reg_inv r"
  by (simp add: reg_inv_def Get_def LookupByOnion_def)

lemma reg_reach_inv: "reg_reach h r \<Longrightarrow> reg_inv r"
proof (induction rule: reg_reach.induct)
  case (reach_new e)
  show ?case by (simp add: reg_inv_def registry_New_def Get_def LookupByOnion_def)
qed (simp_all add: reg_inv_Register reg_inv_Unregister SetOnRegister_def SetOnUnregister_def
      SetDiscovery_def cong: reg_inv_frame)

lemma reg_reach_advertised:
  assumes "reg_reach h r" "hash_widths h" "base58_inverse h"
  shows "services_advertised h r"
  using assms(1)
proof (induction rule: reg_reach.induct)
  case (reach_new e)
  show ?case by (simp add: services_advertised_def addresses_ok_def registry_New_def Get_def)
next
  case (reach_register r now env name m hs)
  then show ?case using assms(2,3) by (intro services_advertised_Register) (auto intro: reg_reach_inv)
next
  case (reach_unregister r now env name)
  then show ?case by (intro services_advertised_Unregister) (auto intro: reg_reach_inv)
next
  case (reach_discovery r now env d)
  then show ?case by (intro services_advertised_SetDiscovery) (auto intro: reg_reach_inv)
next
  case (reach_dht r d d')
  then show ?case by (auto simp: services_advertised_def distinct_idents_def advertised_def)
qed (simp_all add: services_advertised_def SetOnRegister_def SetOnUnregister_def)

section \<open>A concrete daemon\<close>

definition demo_reg_env :: "nat \<Rightarrow> (dht, nat) reg_env" where
  "demo_reg_env k =
     \<lparr>H = demo_hashes,
      GetOrGenerate = (\<lambda>n. Inr \<lparr>pub = replicate 32 (of_nat (length n)), priv = replicate 64 0\<rparr>),
      te_listen = demo_listen k, te_saved = Inr (), te_closed = Inr (),
      disc_add = AddLocalIdentity demo_hashes 0, disc_remove = (\<lambda>d a. fst (RemoveLocalIdentity d a))\<rparr>"

definition demo_manifest :: manifest where
  "demo_manifest = \<lparr>Description = ''node'', acl = ACLContacts, Allowlist = []\<rparr>"

definition demo_reg0 :: "(dht, nat) registry" where
  "demo_reg0 = registry_New demo_engine"

definition demo_registry :: "(dht, nat) registry" where
  "demo_registry = fst (Register (demo_reg_env 3) demo_reg0 ''node'' demo_manifest None)"

lemma demo_reach0: "reg_reach demo_hashes demo_reg0"
  unfolding demo_reg0_def by (rule reach_new)

lemma demo_fresh0: "fresh_onion (demo_reg_env k) demo_reg0 n" "fresh_address (demo_reg_env k) demo_reg0 n"
  by (simp_all add: fresh_onion_def fresh_address_def demo_reg0_def registry_New_def Get_def LookupByOnion_def)

lemma demo_dht_env: "dht_env demo_hashes 0 (demo_reg_env k)"
  by (simp add: dht_env_def demo_reg_env_def)

lemma demo_reach: "reg_reach demo_hashes demo_registry"
  unfolding demo_registry_def by (rule reach_register[OF demo_reach0 demo_dht_env demo_fresh0])

lemma demo_registered: "\<exists>s. byName demo_registry = [(''node'', s)] \<and> Name s = ''node''"
  by (simp add: demo_registry_def Register_def demo_reg_env_def demo_reg0_def registry_New_def demo_engine_def
      AddOnion_def add_prepare_def add_commit_def demo_listen_def register_insert_def register_advertise_def
      register_hook_def new_service_def Let_def)

section \<open>Properties\<close>

text \<open>C12: Registration is all or nothing. Whatever step fails (identity, onion, advertising, the daemon's
  hook, even the rollback itself), a failed \<open>Register\<close> leaves both lookups and the set of running
  onions as they were; a successful one adds exactly the new service under its name and its onion, with
  the address of its key, its onion running, its address advertised and the hook called once.\<close>

theorem register_all_or_nothing:
  assumes "reg_reach h r" and "fresh_onion env r name" and "Register env r name m hs = (r', res)"
  shows "case res of
      Inl _ \<Rightarrow> Get r' = Get r \<and> LookupByOnion r' = LookupByOnion r \<and> onions (te r') = onions (te r)
    | Inr svc \<Rightarrow> Get r name = None \<and> Get r' = (Get r)(name \<mapsto> svc) \<and>
        LookupByOnion r' = (LookupByOnion r)(svc_OnionAddr svc \<mapsto> svc) \<and>
        engine_OnionAddr (te r') name = Some (svc_OnionAddr svc) \<and>
        svc_Address svc = DeriveAddress (H env) (PublicKey (svc_Identity svc)) \<and>
        GetOrGenerate env name = Inr (svc_Identity svc) \<and>
        (\<forall>d. disc r = Some d \<longrightarrow>
           (\<exists>d'. disc_add env d (svc_Address svc) (svc_OnionAddr svc) = Inr d' \<and> disc r' = Some d')) \<and>
        hook_calls r' = hook_calls r @ (if onRegister r = None then [] else [Registered svc])"
  using Register_outcome[OF reg_reach_inv[OF assms(1)] assms(2,3)]
  by (auto simp: entered_def engine_OnionAddr_def split: sum.splits)

theorem register_all_or_nothing_witness:
  "\<exists>svc. snd (Register (demo_reg_env 3) demo_reg0 ''node'' demo_manifest None) = Inr svc \<and>
     Get demo_registry ''node'' = Some svc \<and> LookupByOnion demo_registry (svc_OnionAddr svc) = Some svc"
proof -
  obtain res where res: "Register (demo_reg_env 3) demo_reg0 ''node'' demo_manifest None = (demo_registry, res)"
    by (metis demo_registry_def prod.collapse)
  have "Get demo_reg0 ''node'' = None" by (simp add: demo_reg0_def registry_New_def Get_def)
  moreover have "Get demo_registry ''node'' \<noteq> None" using demo_registered by (auto simp: Get_def)
  ultimately show ?thesis
    using register_all_or_nothing[OF demo_reach0 demo_fresh0(1) res] res by (cases res) auto
qed



text \<open>\<open>List\<close> returns every registered service exactly once, in strictly increasing order of name,
  and this is the only list \<open>sort.Slice\<close> may return whatever order the Go map was walked in.\<close>

theorem List_sorted_by_name:
  assumes "reg_reach h r"
  shows "sorted_wrt (\<lambda>s t. Name s < Name t) (List r) \<and>
    (\<forall>s. s \<in> set (List r) \<longleftrightarrow> Get r (Name s) = Some s) \<and>
    (\<forall>walk ys. mset walk = mset (map snd (byName r)) \<and> go_sorted name_less walk ys \<longrightarrow> ys = List r)"
proof -
  note inv = reg_reach_inv[OF assms]
  have names: "map Name (map snd (byName r)) = map fst (byName r)"
    using reg_invD(1,6)[OF inv] by (auto simp: Get_def)
  have "distinct (map Name (map snd (byName r)))" unfolding names by (rule reg_invD(6)[OF inv])
  then have inj: "inj_on Name (set (map snd (byName r)))" by (metis distinct_map)
  have dist: "distinct (map Name (List r))"
    using \<open>distinct (map Name (map snd (byName r)))\<close>
    unfolding List_def by (metis mset_map mset_sort_slice mset_eq_imp_distinct_iff)
  have "sorted (map Name (List r))"
    using by_name.go_sorted_sort_slice[of "map snd (byName r)"]
    by (simp add: go_sorted_def List_def name_less_def sorted_wrt_map not_less)
  with dist have "sorted_wrt (<) (map Name (List r))" by (simp add: strict_sorted_iff)
  then have srt: "sorted_wrt (\<lambda>s t. Name s < Name t) (List r)" by (simp add: sorted_wrt_map)
  have mem: "s \<in> set (List r) \<longleftrightarrow> Get r (Name s) = Some s" for s
    using mem_byName[OF inv, of s] by (simp add: List_def)
  have "ys = List r" if "mset walk = mset (map snd (byName r))" "go_sorted name_less walk ys" for walk ys
  proof -
    have "go_sorted name_less (map snd (byName r)) ys" using that by (simp add: go_sorted_def)
    moreover have "\<forall>a \<in> set (map snd (byName r)). \<forall>b \<in> set (map snd (byName r)). a \<noteq> b \<longrightarrow> name_less a b \<or> name_less b a"
      using inj unfolding name_less_def inj_on_def by (metis neq_iff)
    ultimately show ?thesis unfolding List_def by (rule by_name.go_sorted_unique)
  qed
  with srt mem show ?thesis by blast
qed

theorem List_sorted_by_name_witness: "\<exists>s. List demo_registry = [s] \<and> Get demo_registry ''node'' = Some s"
proof -
  obtain s where s: "List demo_registry = [s]" "Name s = ''node''" using demo_registered by (auto simp: List_def)
  have "s \<in> set (List demo_registry) \<longleftrightarrow> Get demo_registry (Name s) = Some s"
    using List_sorted_by_name[OF demo_reach] by blast
  with s show ?thesis by simp
qed

end
