(* ===== verification/Handshake.thy ===== *)
theory Handshake
  imports Codec
begin

text \<open>
  The three-step signaling handshake (\<open>src/internal/signaling/handshake.go\<close>): the replay cache and
  the construction and validation of the request, the response and the confirmation. Random bytes and
  clock readings are arguments; a message is an argument as \<open>proto.Unmarshal\<close> decoded it,
  \<open>None\<close> when it did not decode.
\<close>

definition NonceSize :: nat where "NonceSize = 32"
definition TimestampFreshness :: duration where "TimestampFreshness = 5 * minute"
definition NonceCacheTTL :: duration where "NonceCacheTTL = 10 * minute"

record conn_request =
  FromAddress :: string
  TargetAddress :: string
  rq_Nonce :: bytes
  rq_Timestamp :: i64

record conn_response =
  Accepted :: bool
  rs_PubKey :: bytes
  rs_Signature :: bytes
  rs_Nonce :: bytes
  Reason :: string

record conn_confirm =
  cf_PubKey :: bytes
  cf_Signature :: bytes

section \<open>The replay cache\<close>

type_synonym nonce_cache = "bytes \<rightharpoonup> time"

definition NewNonceCache :: nonce_cache where "NewNonceCache = Map.empty"

definition prune :: "time \<Rightarrow> nonce_cache \<Rightarrow> nonce_cache" where
  "prune now nc = (\<lambda>k. case nc k of
     None \<Rightarrow> None | Some t \<Rightarrow> if time_sub now t > NonceCacheTTL then None else Some t)"

definition Check :: "time \<Rightarrow> nonce_cache \<Rightarrow> bytes \<Rightarrow> nonce_cache \<times> bool" where
  "Check now nc nonce =
     (if length nonce \<noteq> NonceSize then (nc, False)
      else (let nc' = prune now nc
            in if nc' nonce \<noteq> None then (nc', False) else (nc'(nonce \<mapsto> now), True)))"

section \<open>The messages\<close>

definition GenerateNonce :: "bytes res \<Rightarrow> bytes res" where
  "GenerateNonce rand = (case rand of Inl e \<Rightarrow> Inl ''generating nonce'' | Inr b \<Rightarrow> Inr b)"

definition CreateConnRequest ::
  "time \<Rightarrow> bytes res \<Rightarrow> string \<Rightarrow> string \<Rightarrow> (conn_request \<times> bytes) res" where
  "CreateConnRequest now rand fromAddr targetAddr =
     (case GenerateNonce rand of
        Inl e \<Rightarrow> Inl e
      | Inr nonce \<Rightarrow>
          Inr (\<lparr>FromAddress = fromAddr, TargetAddress = targetAddr, rq_Nonce = nonce,
                rq_Timestamp = unix_millis now\<rparr>, nonce))"

text \<open>The three clock readings of \<open>ValidateConnRequest\<close>, in the order the code makes them.\<close>

definition ValidateConnRequest ::
  "time \<Rightarrow> time \<Rightarrow> time \<Rightarrow> nonce_cache \<Rightarrow> conn_request option \<Rightarrow> nonce_cache \<times> conn_request res" where
  "ValidateConnRequest t1 t2 t3 nc decoded =
     (case decoded of
        None \<Rightarrow> (nc, Inl ''unmarshalling ConnRequest'')
      | Some msg \<Rightarrow>
          (let ts = time_of_millis (rq_Timestamp msg)
           in if time_sub t1 ts > TimestampFreshness then (nc, Inl ''request too old'')
              else if ts > t2 + TimestampFreshness then (nc, Inl ''request timestamp in the future'')
              else if length (rq_Nonce msg) \<noteq> NonceSize then (nc, Inl ''invalid nonce length'')
              else (case Check t3 nc (rq_Nonce msg) of
                      (nc', False) \<Rightarrow> (nc', Inl ''replayed nonce'')
                    | (nc', True) \<Rightarrow> (nc', Inr msg))))"

definition CreateConnResponse ::
  "ed25519 \<Rightarrow> bytes res \<Rightarrow> bool \<Rightarrow> keypair \<Rightarrow> bytes \<Rightarrow> string \<Rightarrow> (conn_response \<times> bytes) res" where
  "CreateConnResponse E rand accepted kp requestNonce reason =
     (if accepted then
        (case GenerateNonce rand of
           Inl e \<Rightarrow> Inl e
         | Inr respNonce \<Rightarrow>
             Inr (\<lparr>Accepted = True, rs_PubKey = PublicKey kp, rs_Signature = Sign E kp requestNonce,
                   rs_Nonce = respNonce, Reason = ''''\<rparr>, respNonce))
      else Inr (\<lparr>Accepted = False, rs_PubKey = [], rs_Signature = [], rs_Nonce = [], Reason = reason\<rparr>, []))"

definition ValidateConnResponse ::
  "hashes \<Rightarrow> ed25519 \<Rightarrow> conn_response option \<Rightarrow> bytes \<Rightarrow> string \<Rightarrow> conn_response res" where
  "ValidateConnResponse H E decoded requestNonce targetAddr =
     (case decoded of
        None \<Rightarrow> Inl ''unmarshalling ConnResponse''
      | Some msg \<Rightarrow>
          if \<not> Accepted msg then Inr msg
          else if \<not> MatchesPublicKey H targetAddr (rs_PubKey msg)
          then Inl ''public key does not match target address''
          else (case FromPublicKey (rs_PubKey msg) of
                  Inl e \<Rightarrow> Inl ''invalid public key''
                | Inr verifier \<Rightarrow>
                    if \<not> Verify E verifier requestNonce (rs_Signature msg)
                    then Inl ''invalid signature on request nonce''
                    else if length (rs_Nonce msg) \<noteq> NonceSize then Inl ''invalid responder nonce length''
                    else Inr msg))"

definition CreateConnConfirm :: "ed25519 \<Rightarrow> keypair \<Rightarrow> bytes \<Rightarrow> conn_confirm" where
  "CreateConnConfirm E kp responderNonce =
     \<lparr>cf_PubKey = PublicKey kp, cf_Signature = Sign E kp responderNonce\<rparr>"

definition ValidateConnConfirm ::
  "hashes \<Rightarrow> ed25519 \<Rightarrow> conn_confirm option \<Rightarrow> bytes \<Rightarrow> string \<Rightarrow> conn_confirm res" where
  "ValidateConnConfirm H E decoded responderNonce fromAddr =
     (case decoded of
        None \<Rightarrow> Inl ''unmarshalling ConnConfirm''
      | Some msg \<Rightarrow>
          if \<not> MatchesPublicKey H fromAddr (cf_PubKey msg)
          then Inl ''public key does not match from address''
          else (case FromPublicKey (cf_PubKey msg) of
                  Inl e \<Rightarrow> Inl ''invalid public key''
                | Inr verifier \<Rightarrow>
                    if \<not> Verify E verifier responderNonce (cf_Signature msg)
                    then Inl ''invalid signature on responder nonce''
                    else Inr msg))"

section \<open>What validation establishes\<close>

text \<open>A key that proves ownership of an address by a signature.\<close>

definition proves :: "hashes \<Rightarrow> ed25519 \<Rightarrow> bytes \<Rightarrow> bytes \<Rightarrow> string \<Rightarrow> bytes \<Rightarrow> bool" where
  "proves H E pk sig addr nonce \<longleftrightarrow>
     length pk = 32 \<and> MatchesPublicKey H addr pk \<and> ed_verify E pk nonce sig"

lemma ValidateConnResponse_ok:
  "ValidateConnResponse H E (Some msg) nonce target = Inr r \<longleftrightarrow>
     r = msg \<and> (Accepted msg \<longrightarrow>
       proves H E (rs_PubKey msg) (rs_Signature msg) target nonce \<and> length (rs_Nonce msg) = 32)"
  by (auto simp: ValidateConnResponse_def FromPublicKey_def PublicKeySize_def Verify_def NonceSize_def proves_def
      split: if_splits)

lemma ValidateConnConfirm_ok:
  "ValidateConnConfirm H E (Some msg) nonce from_addr = Inr r \<longleftrightarrow>
     r = msg \<and> proves H E (cf_PubKey msg) (cf_Signature msg) from_addr nonce"
  by (auto simp: ValidateConnConfirm_def FromPublicKey_def PublicKeySize_def Verify_def proves_def split: if_splits)

text \<open>The keys of an honest party and their address.\<close>

lemma FromSeed_proves:
  assumes "ed25519_keys E" "ed25519_correct E" "FromSeed E seed = Inr kp" "hash_widths H" "base58_inverse H"
  shows "proves H E (PublicKey kp) (Sign E kp m) (DeriveAddress H (PublicKey kp)) m"
proof -
  have s: "length seed = 32" "priv kp = ed_new_key E seed" "pub kp = ed_public (ed_new_key E seed)"
    using assms(3) by (auto simp: FromSeed_def SeedSize_def Let_def split: if_splits)
  then have "length (pub kp) = 32" using assms(1) by (simp add: ed25519_keys_def ed_public_def)
  then show ?thesis using s assms(2)
    by (simp add: proves_def PublicKey_def Sign_def MatchesPublicKey_def ed25519_correct_def
        Validate_DeriveAddress[OF assms(4,5)])
qed

lemma ValidateConnRequest_ok:
  assumes "ValidateConnRequest t1 t2 t3 nc d = (nc', Inr msg)"
  shows "d = Some msg" and "length (rq_Nonce msg) = 32" and "prune t3 nc (rq_Nonce msg) = None"
    and "nc' = (prune t3 nc)(rq_Nonce msg \<mapsto> t3)"
    and "t1 - time_of_millis (rq_Timestamp msg) \<le> TimestampFreshness"
    and "time_of_millis (rq_Timestamp msg) \<le> t2 + TimestampFreshness"
proof -
  have fr: "0 \<le> TimestampFreshness" "TimestampFreshness < 2 ^ 63 - 1" by (simp_all add: TimestampFreshness_def go_time)
  from assms show "d = Some msg" "length (rq_Nonce msg) = 32" "prune t3 nc (rq_Nonce msg) = None"
    "nc' = (prune t3 nc)(rq_Nonce msg \<mapsto> t3)" "time_of_millis (rq_Timestamp msg) \<le> t2 + TimestampFreshness"
    by (auto simp: ValidateConnRequest_def Check_def NonceSize_def Let_def split: option.splits if_splits)
  have "\<not> time_sub t1 (time_of_millis (rq_Timestamp msg)) > TimestampFreshness"
    using assms by (auto simp: ValidateConnRequest_def Let_def split: option.splits if_splits prod.splits bool.splits)
  then show "t1 - time_of_millis (rq_Timestamp msg) \<le> TimestampFreshness" using time_sub_gt[OF fr] by (simp add: not_less)
qed

section \<open>Runs of a responder\<close>

text \<open>Requests validated one after another at the given instants; the results in order.\<close>

fun validate_all :: "nonce_cache \<Rightarrow> (time \<times> conn_request option) list \<Rightarrow> conn_request res list" where
  "validate_all nc [] = []"
| "validate_all nc ((t, d) # rs) =
     (case ValidateConnRequest t t t nc d of (nc', r) \<Rightarrow> r # validate_all nc' rs)"

text \<open>Every request accepted in the past is still in the cache, or too old to be accepted again.\<close>

definition remembers :: "time \<Rightarrow> nonce_cache \<Rightarrow> conn_request set \<Rightarrow> bool" where
  "remembers now nc seen \<longleftrightarrow>
     (\<forall>m \<in> seen. (\<exists>t. nc (rq_Nonce m) = Some t \<and>
          time_of_millis (rq_Timestamp m) \<le> t + TimestampFreshness \<and> t \<le> now) \<or>
        now - time_of_millis (rq_Timestamp m) > TimestampFreshness)"

lemma prune_keeps:
  "nc k = Some t \<Longrightarrow> now - t \<le> NonceCacheTTL \<Longrightarrow> prune now nc k = Some t"
  using time_sub_gt[of NonceCacheTTL now t] by (auto simp: prune_def NonceCacheTTL_def go_time)

lemma remembers_later: "remembers now nc seen \<Longrightarrow> now \<le> now' \<Longrightarrow> remembers now' nc seen"
  by (fastforce simp: remembers_def)

lemma remembers_prune:
  assumes "remembers now nc seen"
  shows "remembers now (prune now nc) seen"
  unfolding remembers_def
proof (rule ballI)
  fix m assume "m \<in> seen"
  with assms consider (old) "now - time_of_millis (rq_Timestamp m) > TimestampFreshness"
    | (kept) t where "nc (rq_Nonce m) = Some t" "time_of_millis (rq_Timestamp m) \<le> t + TimestampFreshness" "t \<le> now"
    by (auto simp: remembers_def)
  then show "(\<exists>t. prune now nc (rq_Nonce m) = Some t \<and> time_of_millis (rq_Timestamp m) \<le> t + TimestampFreshness \<and> t \<le> now) \<or>
      now - time_of_millis (rq_Timestamp m) > TimestampFreshness"
  proof cases
    case kept
    show ?thesis
    proof (cases "now - t \<le> NonceCacheTTL")
      case True
      with prune_keeps[of nc "rq_Nonce m" t now] kept show ?thesis by blast
    next
      case False
      with kept(2) show ?thesis by (simp add: NonceCacheTTL_def TimestampFreshness_def)
    qed
  qed simp
qed

lemma remembers_add:
  assumes "remembers now nc seen" "\<forall>m \<in> seen. nc (rq_Nonce m) = None \<or> rq_Nonce m \<noteq> k"
  shows "remembers now (nc(k \<mapsto> now)) seen"
  using assms by (fastforce simp: remembers_def)

lemma validate_step:
  assumes "remembers now nc seen" "now \<le> t" "ValidateConnRequest t t t nc d = (nc', r)"
  shows "case r of
      Inl e \<Rightarrow> remembers t nc' seen
    | Inr msg \<Rightarrow> remembers t nc' (insert msg seen) \<and> msg \<notin> seen"
proof -
  have rem: "remembers t (prune t nc) seen" "remembers t nc seen"
    using remembers_prune remembers_later[OF assms(1,2)] by auto
  show ?thesis
  proof (cases r)
    case (Inl e)
    then have "nc' = nc \<or> nc' = prune t nc"
      using assms(3) by (auto simp: ValidateConnRequest_def Check_def Let_def split: option.splits if_splits)
    with Inl rem show ?thesis by auto
  next
    case (Inr msg)
    note ok = ValidateConnRequest_ok[OF assms(3)[unfolded Inr]]
    have new: "msg \<notin> seen" using rem(1) ok(3,5) by (fastforce simp: remembers_def)
    have "remembers t nc' seen"
      unfolding ok(4) using rem(1) ok(3) by (intro remembers_add) auto
    then have "remembers t nc' (insert msg seen)" using ok(4,6) by (auto simp: remembers_def)
    with Inr new show ?thesis by simp
  qed
qed

lemma validate_all_fresh:
  "\<lbrakk> remembers now nc seen; sorted (now # map fst rs) \<rbrakk> \<Longrightarrow>
     distinct [m. Inr m \<leftarrow> validate_all nc rs] \<and> set [m. Inr m \<leftarrow> validate_all nc rs] \<inter> seen = {}"
proof (induction rs arbitrary: now nc seen)
  case (Cons p rs)
  obtain t d where p: "p = (t, d)" by fastforce
  obtain nc' r where v: "ValidateConnRequest t t t nc d = (nc', r)" by fastforce
  have le: "now \<le> t" "sorted (t # map fst rs)" using Cons.prems(2) p by auto
  note step = validate_step[OF Cons.prems(1) le(1) v]
  show ?case
  proof (cases r)
    case (Inl e)
    with step Cons.IH[of t nc' seen] le(2) show ?thesis by (simp add: p v)
  next
    case (Inr msg)
    with step Cons.IH[of t nc' "insert msg seen"] le(2) show ?thesis by (simp add: p v)
  qed
qed simp

end
