(* ===== verification/Signaling.thy ===== *)
theory Signaling
  imports Handshake "HOL-Library.AList"
begin

text \<open>
  The signaling server and client (\<open>src/internal/signaling/server.go\<close>, \<open>client.go\<close>): the
  per-service demultiplexer with its lifecycle, the responder's side of the handshake with the consent of
  the contact list or the user, and the initiator with its retries. What the network, the user, the clock
  and the random source do in one run is a record argument of the handler.
\<close>

section \<open>Server state\<close>

definition ErrServiceExists :: string where "ErrServiceExists = ''signaling: service already added''"
definition ErrServiceNotFound :: string where "ErrServiceNotFound = ''signaling: service not found''"

record conn_decision =
  dec_Accepted :: bool
  dec_Reason :: string

text \<open>The contact store is asked whether it has an address; the callback and the listener matter only
  by being there.\<close>

record service_config =
  cfg_Name :: string
  cfg_Keypair :: "keypair option"
  cfg_Address :: string
  cfg_Contacts :: "(string \<Rightarrow> bool) option"
  cfg_OnRequest :: bool
  cfg_Listener :: bool
  cfg_LocalAddrs :: "string list option"

text \<open>\<open>accept\<close> is the identity of the context of the service's accept loop, once launched;
  \<open>cancelled\<close> lists the contexts that have been cancelled.\<close>

record service_state =
  cfg :: service_config
  accept :: "nat option"

record server =
  nc :: nonce_cache
  srv_started :: bool
  srv_stopped :: bool
  services :: "(string \<times> service_state) list"
  other :: bool
  next_ctx :: nat
  cancelled :: "nat list"

definition NewServer :: server where
  "NewServer = \<lparr>nc = NewNonceCache, srv_started = False, srv_stopped = False, services = [], other = False,
     next_ctx = 0, cancelled = []\<rparr>"

section \<open>Lifecycle\<close>

definition SetEnvelopeHandler :: "server \<Rightarrow> bool \<Rightarrow> server" where
  "SetEnvelopeHandler s h = s\<lparr>other := h\<rparr>"

definition startAcceptLocked :: "server \<Rightarrow> string \<Rightarrow> service_state \<Rightarrow> server" where
  "startAcceptLocked s name st =
     s\<lparr>services := AList.update name (st\<lparr>accept := Some (next_ctx s)\<rparr>) (services s),
       next_ctx := Suc (next_ctx s)\<rparr>"

definition server_Start :: "server \<Rightarrow> server \<times> unit res" where
  "server_Start s =
     (if srv_started s then (s, Inr ())
      else if srv_stopped s then (s, Inl ''signaling: server already stopped'')
      else (foldl (\<lambda>s (name, st). startAcceptLocked s name st) (s\<lparr>srv_started := True\<rparr>) (services s), Inr ()))"

definition AddService :: "server \<Rightarrow> service_config \<Rightarrow> server \<times> unit res" where
  "AddService s c =
     (if cfg_Name c = '''' then (s, Inl ''signaling: AddService requires Name'')
      else if cfg_Keypair c = None then (s, Inl ''signaling: AddService requires Keypair'')
      else if cfg_Address c = '''' then (s, Inl ''signaling: AddService requires Address'')
      else if \<not> cfg_Listener c then (s, Inl ''signaling: AddService requires Listener'')
      else if srv_stopped s then (s, Inl ''signaling: server stopped'')
      else if map_of (services s) (cfg_Name c) \<noteq> None then (s, Inl ErrServiceExists)
      else (let st = \<lparr>cfg = c, accept = None\<rparr>;
                s1 = s\<lparr>services := AList.update (cfg_Name c) st (services s)\<rparr>
            in (if srv_started s then startAcceptLocked s1 (cfg_Name c) st else s1, Inr ())))"

definition cancel :: "nat option \<Rightarrow> server \<Rightarrow> server" where
  "cancel a s = (case a of None \<Rightarrow> s | Some i \<Rightarrow> s\<lparr>cancelled := i # cancelled s\<rparr>)"

definition RemoveService :: "server \<Rightarrow> string \<Rightarrow> server \<times> unit res" where
  "RemoveService s name =
     (case map_of (services s) name of
        None \<Rightarrow> (s, Inl ErrServiceNotFound)
      | Some st \<Rightarrow> (cancel (accept st) (s\<lparr>services := AList.delete name (services s)\<rparr>), Inr ()))"

definition SetOnConnectionRequest :: "server \<Rightarrow> string \<Rightarrow> bool \<Rightarrow> server \<times> unit res" where
  "SetOnConnectionRequest s name cb =
     (case map_of (services s) name of
        None \<Rightarrow> (s, Inl ErrServiceNotFound)
      | Some st \<Rightarrow>
          (s\<lparr>services := AList.update name (st\<lparr>cfg := (cfg st)\<lparr>cfg_OnRequest := cb\<rparr>\<rparr>) (services s)\<rparr>, Inr ()))"

definition server_Stop :: "server \<Rightarrow> server" where
  "server_Stop s =
     (if srv_stopped s then s
      else (foldl (\<lambda>s st. cancel (accept st) s) (s\<lparr>srv_stopped := True\<rparr>) (map snd (services s)))\<lparr>services := []\<rparr>)"

section \<open>The responder\<close>

text \<open>What one run of the responder meets: three clock readings, the user's decision (\<open>None\<close> when the
  context ended first), the random nonce, the outcome of writing the response, and the confirmation read.\<close>

record responder_io =
  rq_times :: "time \<times> time \<times> time"
  user_decision :: "conn_decision option"
  rsp_rand :: "bytes res"
  rsp_write :: "unit res"
  confirm_read :: "(msg_type \<times> conn_confirm option) res"

datatype hs_outcome =
    HIgnored | HInvalid string | HNotForUs | HNoResponse | HRejected | HNoConfirm
  | HBadConfirm string | HConfirmed bytes | HExchange bytes

definition askUser :: "service_config \<Rightarrow> conn_decision option \<Rightarrow> conn_decision" where
  "askUser c d =
     (if \<not> cfg_OnRequest c then \<lparr>dec_Accepted = False, dec_Reason = ''no handler''\<rparr>
      else (case d of Some dd \<Rightarrow> dd | None \<Rightarrow> \<lparr>dec_Accepted = False, dec_Reason = ''timeout''\<rparr>))"

text \<open>The decision: known contacts are accepted, everyone else is put to the user.\<close>

definition decide :: "service_config \<Rightarrow> responder_io \<Rightarrow> string \<Rightarrow> conn_decision" where
  "decide c io from_addr =
     (if (case cfg_Contacts c of None \<Rightarrow> False | Some known \<Rightarrow> known from_addr)
      then \<lparr>dec_Accepted = True, dec_Reason = ''''\<rparr>
      else askUser c (user_decision io))"

text \<open>After a written acceptance: the confirmation, and whether the IP exchange is entered.\<close>

definition await_confirm ::
  "hashes \<Rightarrow> ed25519 \<Rightarrow> service_config \<Rightarrow> responder_io \<Rightarrow> conn_request \<Rightarrow> bytes \<Rightarrow> hs_outcome" where
  "await_confirm H E c io req respNonce =
     (case confirm_read io of
        Inl e \<Rightarrow> HNoConfirm
      | Inr (t, m) \<Rightarrow>
          if t \<noteq> CONN_CONFIRM then HNoConfirm
          else (case ValidateConnConfirm H E m respNonce (FromAddress req) of
                  Inl e \<Rightarrow> HBadConfirm e
                | Inr cf \<Rightarrow>
                    if cfg_LocalAddrs c = None \<or> cf_PubKey cf = [] then HConfirmed (cf_PubKey cf)
                    else HExchange (cf_PubKey cf)))"

definition handleEnvelopeForService ::
  "hashes \<Rightarrow> ed25519 \<Rightarrow> server \<Rightarrow> service_config \<Rightarrow> keypair \<Rightarrow> responder_io \<Rightarrow> msg_type \<Rightarrow> conn_request option \<Rightarrow>
     server \<times> conn_response list \<times> hs_outcome" where
  "handleEnvelopeForService H E s c kp io t decoded =
     (if t \<noteq> CONN_REQUEST then (s, [], HIgnored)
      else (case rq_times io of (t1, t2, t3) \<Rightarrow>
        (case ValidateConnRequest t1 t2 t3 (nc s) decoded of
           (nc', Inl e) \<Rightarrow> (s\<lparr>nc := nc'\<rparr>, [], HInvalid e)
         | (nc', Inr req) \<Rightarrow>
             (let s1 = s\<lparr>nc := nc'\<rparr>
              in if TargetAddress req \<noteq> cfg_Address c then (s1, [], HNotForUs)
                 else (let d = decide c io (FromAddress req)
                       in if dec_Accepted d then
                            (case CreateConnResponse E (rsp_rand io) True kp (rq_Nonce req) '''' of
                               Inl e \<Rightarrow> (s1, [], HNoResponse)
                             | Inr (resp, respNonce) \<Rightarrow>
                                 (case rsp_write io of
                                    Inl e \<Rightarrow> (s1, [], HNoResponse)
                                  | Inr _ \<Rightarrow> (s1, [resp], await_confirm H E c io req respNonce)))
                          else
                            (case CreateConnResponse E (rsp_rand io) False kp [] (dec_Reason d) of
                               Inl e \<Rightarrow> (s1, [], HNoResponse)
                             | Inr (resp, _) \<Rightarrow> (s1, [resp], HRejected)))))))"

text \<open>The named entry used by the per-onion mux, and the one used by the accept loop.\<close>

definition HandleEnvelope_for ::
  "hashes \<Rightarrow> ed25519 \<Rightarrow> server \<Rightarrow> responder_io \<Rightarrow> msg_type \<Rightarrow> conn_request option \<Rightarrow> string \<Rightarrow>
     server \<times> conn_response list \<times> hs_outcome" where
  "HandleEnvelope_for H E s io t decoded name =
     (case map_of (services s) name of
        None \<Rightarrow> (s, [], HIgnored)
      | Some st \<Rightarrow>
          (case cfg_Keypair (cfg st) of
             None \<Rightarrow> (s, [], HIgnored)
           | Some kp \<Rightarrow> handleEnvelopeForService H E s (cfg st) kp io t decoded))"

datatype conn_route = Closed | ToHandshake | ToOther

definition handleConn_route :: "server \<Rightarrow> msg_type res \<Rightarrow> conn_route" where
  "handleConn_route s first =
     (case first of
        Inl e \<Rightarrow> Closed
      | Inr t \<Rightarrow> if t = CONN_REQUEST then ToHandshake else if other s then ToOther else Closed)"

section \<open>The initiator\<close>

definition client_MaxRetries :: nat where "client_MaxRetries = 3"
definition RetryBackoff :: duration where "RetryBackoff = 2 * second"

record handshake_result =
  PeerPubKey :: bytes
  PeerAddr :: string

datatype attempt_error = Rejected string | Transient string

record client =
  cl_keypair :: keypair
  cl_address :: string

record initiator_io =
  in_dial :: "unit res"
  in_now :: time
  in_rand :: "bytes res"
  in_write1 :: "unit res"
  resp_read :: "(msg_type \<times> conn_response option) res"
  in_write2 :: "unit res"

datatype initiator_msg = SentRequest conn_request | SentConfirm conn_confirm

definition attemptHandshake ::
  "hashes \<Rightarrow> ed25519 \<Rightarrow> client \<Rightarrow> initiator_io \<Rightarrow> string \<Rightarrow>
     initiator_msg list \<times> (attempt_error + handshake_result)" where
  "attemptHandshake H E c io targetAddr =
     (case in_dial io of
        Inl e \<Rightarrow> ([], Inl (Transient ''dialing''))
      | Inr _ \<Rightarrow>
          (case CreateConnRequest (in_now io) (in_rand io) (cl_address c) targetAddr of
             Inl e \<Rightarrow> ([], Inl (Transient ''creating request''))
           | Inr (req, reqNonce) \<Rightarrow>
               (case in_write1 io of
                  Inl e \<Rightarrow> ([], Inl (Transient ''sending request''))
                | Inr _ \<Rightarrow>
                    (case resp_read io of
                       Inl e \<Rightarrow> ([SentRequest req], Inl (Transient ''reading response''))
                     | Inr (t, m) \<Rightarrow>
                         if t \<noteq> CONN_RESPONSE
                         then ([SentRequest req], Inl (Transient ''unexpected message type''))
                         else (case ValidateConnResponse H E m reqNonce targetAddr of
                                 Inl e \<Rightarrow> ([SentRequest req], Inl (Transient ''validating response''))
                               | Inr resp \<Rightarrow>
                                   if \<not> Accepted resp
                                   then ([SentRequest req],
                                         Inl (Rejected (if Reason resp = '''' then ''rejected'' else Reason resp)))
                                   else (let cf = CreateConnConfirm E (cl_keypair c) (rs_Nonce resp)
                                         in case in_write2 io of
                                              Inl e \<Rightarrow> ([SentRequest req], Inl (Transient ''sending confirm''))
                                            | Inr _ \<Rightarrow> ([SentRequest req, SentConfirm cf],
                                                Inr \<lparr>PeerPubKey = rs_PubKey resp, PeerAddr = targetAddr\<rparr>)))))))"

text \<open>\<open>RequestConnection\<close>: the outcome of each attempt, whether the context is done after it, and
  whether it ends during the backoff; the result with the number of attempts and the waits begun.\<close>

fun request_loop ::
  "(nat \<Rightarrow> attempt_error + handshake_result) \<Rightarrow> (nat \<Rightarrow> bool) \<Rightarrow> (nat \<Rightarrow> bool) \<Rightarrow> nat list \<Rightarrow> attempt_error \<Rightarrow>
     nat \<times> duration list \<times> (attempt_error + handshake_result)" where
  "request_loop att ctx_err woken [] last_err = (0, [], Inl last_err)"
| "request_loop att ctx_err woken (k # ks) last_err =
     (case att k of
        Inr r \<Rightarrow> (1, [], Inr r)
      | Inl (Rejected why) \<Rightarrow> (1, [], Inl (Rejected why))
      | Inl err \<Rightarrow>
          if ctx_err k then (1, [], Inl err)
          else (let backoff = RetryBackoff * 2 ^ k
                in if woken k then (1, [backoff], Inl err)
                   else (case request_loop att ctx_err woken ks err of
                           (n, ws, res) \<Rightarrow> (Suc n, backoff # ws, res))))"

definition RequestConnection ::
  "(nat \<Rightarrow> attempt_error + handshake_result) \<Rightarrow> (nat \<Rightarrow> bool) \<Rightarrow> (nat \<Rightarrow> bool) \<Rightarrow>
     nat \<times> duration list \<times> (attempt_error + handshake_result)" where
  "RequestConnection att ctx_err woken =
     request_loop att ctx_err woken [0..<client_MaxRetries] (Transient '''')"

end
