(* ===== verification/Signaling_Lifecycle.thy ===== *)
theory Signaling_Lifecycle
  imports Signaling
begin

text \<open>
  The lifecycle of the signaling server (\<open>src/internal/signaling/server.go\<close>): the states reachable
  by its operations, and where the contexts of its accept loops are in each of them.
\<close>

section \<open>Reachable servers\<close>

inductive server_reach :: "server \<Rightarrow> bool" where
  new: "server_reach NewServer"
| start: "server_reach s \<Longrightarrow> server_reach (fst (server_Start s))"
| stop: "server_reach s \<Longrightarrow> server_reach (server_Stop s)"
| add: "server_reach s \<Longrightarrow> server_reach (fst (AddService s c))"
| remove: "server_reach s \<Longrightarrow> server_reach (fst (RemoveService s name))"
| set_request: "server_reach s \<Longrightarrow> server_reach (fst (SetOnConnectionRequest s name cb))"
| set_handler: "server_reach s \<Longrightarrow> server_reach (SetEnvelopeHandler s h)"
| handle: "server_reach s \<Longrightarrow> server_reach (fst (HandleEnvelope_for H E s io t d name))"

section \<open>Running accept loops\<close>

definition running :: "(string \<times> service_state) list \<Rightarrow> nat list" where
  "running svcs = [i. (_, st) \<leftarrow> svcs, Some i \<leftarrow> [accept st]]"

lemma running_simps [simp]:
  "running [] = []"
  "running ((n, st) # svcs) = (case accept st of Some i \<Rightarrow> i # running svcs | None \<Rightarrow> running svcs)"
  "running (xs @ ys) = running xs @ running ys"
  by (auto simp: running_def split: option.splits)

lemma split_entry:
  assumes "map_of al k = Some st" "distinct (map fst al)"
  obtains xs ys where "al = xs @ (k, st) # ys" "k \<notin> fst ` set xs" "k \<notin> fst ` set ys"
proof -
  obtain xs ys where al: "al = xs @ (k, st) # ys" using map_of_SomeD[OF assms(1)] split_list by fastforce
  moreover have "k \<notin> fst ` set xs" "k \<notin> fst ` set ys" using assms(2) al by auto
  ultimately show thesis using that by blast
qed

lemma delete_middle:
  "k \<notin> fst ` set xs \<Longrightarrow> k \<notin> fst ` set ys \<Longrightarrow> AList.delete k (xs @ (k, w) # ys) = xs @ ys"
  by (force simp: AList.delete_eq intro!: arg_cong2[where f = append] filter_True)

section \<open>The invariant\<close>

text \<open>A registered service is the one \<open>AddService\<close> validated.\<close>

definition wf_entry :: "string \<times> service_state \<Rightarrow> bool" where
  "wf_entry e \<longleftrightarrow> (let c = cfg (snd e) in cfg_Name c = fst e \<and> fst e \<noteq> '''' \<and> cfg_Keypair c \<noteq> None \<and>
     cfg_Address c \<noteq> '''' \<and> cfg_Listener c)"

text \<open>Every context ever launched is the running loop of one registered service or was cancelled exactly
  once; the running services are all or none, by whether the server has been started.\<close>

definition lifecycle_inv :: "server \<Rightarrow> bool" where
  "lifecycle_inv s \<longleftrightarrow>
     distinct (map fst (services s)) \<and> list_all wf_entry (services s) \<and>
     mset (cancelled s @ running (services s)) = mset [0..<next_ctx s] \<and>
     list_all (\<lambda>(n, st). (accept st \<noteq> None) = srv_started s) (services s) \<and>
     (srv_stopped s \<longrightarrow> services s = [])"

lemma lifecycle_frame:
  assumes "lifecycle_inv s" "services s' = services s" "cancelled s' = cancelled s" "next_ctx s' = next_ctx s"
    "srv_started s' = srv_started s" "srv_stopped s' = srv_stopped s"
  shows "lifecycle_inv s'"
  using assms by (simp add: lifecycle_inv_def)

lemma lifecycle_new [inv_intros]: "lifecycle_inv NewServer"
  by (simp add: lifecycle_inv_def NewServer_def)

text \<open>Starting launches the services one after another.\<close>

lemma start_fold:
  "\<lbrakk> services s = ys @ xs; distinct (map fst (ys @ xs)); list_all (\<lambda>(n, st). accept st = None) xs;
     foldl (\<lambda>s (name, st). startAcceptLocked s name st) s xs = s' \<rbrakk> \<Longrightarrow>
   \<exists>zs. services s' = ys @ zs \<and> map fst zs = map fst xs \<and> next_ctx s' = next_ctx s + length xs \<and>
     running zs = [next_ctx s..<next_ctx s + length xs] \<and> map (\<lambda>e. cfg (snd e)) zs = map (\<lambda>e. cfg (snd e)) xs \<and>
     list_all (\<lambda>(n, st). accept st \<noteq> None) zs \<and>
     cancelled s' = cancelled s \<and> srv_started s' = srv_started s \<and> srv_stopped s' = srv_stopped s"
proof (induction xs arbitrary: s ys)
  case (Cons x xs)
  obtain n st where x: "x = (n, st)" by fastforce
  define s1 where "s1 = startAcceptLocked s n st"
  have new: "n \<notin> fst ` set ys" using Cons.prems(2) x by auto
  have s1: "services s1 = (ys @ [(n, st\<lparr>accept := Some (next_ctx s)\<rparr>)]) @ xs"
    unfolding s1_def startAcceptLocked_def using Cons.prems(1) x alist_update_middle[OF new] by simp
  have fl: "foldl (\<lambda>s (name, st). startAcceptLocked s name st) s1 xs = s'" using Cons.prems(4) x s1_def by simp
  obtain zs where zs: "services s' = (ys @ [(n, st\<lparr>accept := Some (next_ctx s)\<rparr>)]) @ zs" "map fst zs = map fst xs"
    "next_ctx s' = next_ctx s1 + length xs" "running zs = [next_ctx s1..<next_ctx s1 + length xs]"
    "map (\<lambda>e. cfg (snd e)) zs = map (\<lambda>e. cfg (snd e)) xs" "list_all (\<lambda>(n, st). accept st \<noteq> None) zs"
    "cancelled s' = cancelled s1" "srv_started s' = srv_started s1" "srv_stopped s' = srv_stopped s1"
    using Cons.IH[OF s1 _ _ fl] Cons.prems(2,3) x by auto
  have n1: "next_ctx s1 = Suc (next_ctx s)" "cancelled s1 = cancelled s" "srv_started s1 = srv_started s" "srv_stopped s1 = srv_stopped s"
    by (simp_all add: s1_def startAcceptLocked_def)
  have "running ((n, st\<lparr>accept := Some (next_ctx s)\<rparr>) # zs) = [next_ctx s..<next_ctx s + length (x # xs)]"
    using zs(4) n1(1) by (simp add: upt_conv_Cons del: upt_Suc)
  then show ?case
    using zs n1 x by (intro exI[of _ "(n, st\<lparr>accept := Some (next_ctx s)\<rparr>) # zs"]) simp
qed simp

lemma wf_entries_cfg:
  assumes "map fst zs = map fst xs" "map (\<lambda>e. cfg (snd e)) zs = map (\<lambda>e. cfg (snd e)) xs" "list_all wf_entry xs"
  shows "list_all wf_entry zs"
proof -
  have len: "length zs = length xs" using assms(1) by (metis length_map)
  have "wf_entry (zs ! i)" if "i < length zs" for i
  proof -
    have "fst (zs ! i) = fst (xs ! i)" "cfg (snd (zs ! i)) = cfg (snd (xs ! i))"
      using that len assms(1,2) by (metis nth_map)+
    moreover have "wf_entry (xs ! i)" using that len assms(3) by (simp add: list_all_length)
    ultimately show ?thesis by (simp add: wf_entry_def)
  qed
  then show ?thesis by (simp add: list_all_length)
qed

lemma lifecycle_start [inv_intros]: "lifecycle_inv s \<Longrightarrow> lifecycle_inv (fst (server_Start s))"
proof (cases "srv_started s \<or> srv_stopped s")
  case False
  assume inv: "lifecycle_inv s"
  define s' where "s' = foldl (\<lambda>s (name, st). startAcceptLocked s name st) (s\<lparr>srv_started := True\<rparr>) (services s)"
  have idle: "list_all (\<lambda>(n, st). accept st = None) (services s)" "running (services s) = []"
    using inv False by (auto simp: lifecycle_inv_def list_all_iff running_def split: prod.splits)
  obtain zs where "services s' = zs" "map fst zs = map fst (services s)" "next_ctx s' = next_ctx s + length (services s)"
    "running zs = [next_ctx s..<next_ctx s + length (services s)]" "map (\<lambda>e. cfg (snd e)) zs = map (\<lambda>e. cfg (snd e)) (services s)"
    "list_all (\<lambda>(n, st). accept st \<noteq> None) zs" "cancelled s' = cancelled s" "srv_started s'" "srv_stopped s' = srv_stopped s"
    using start_fold[of "s\<lparr>srv_started := True\<rparr>" "[]" "services s" s'] inv idle s'_def by (auto simp: lifecycle_inv_def)
  with inv False idle(2) wf_entries_cfg[of zs "services s"] have "lifecycle_inv s'"
    by (simp add: lifecycle_inv_def upt_add_eq_append[of 0 "next_ctx s"])
  then show ?thesis using False by (simp add: server_Start_def s'_def)
qed (auto simp: server_Start_def)

lemma lifecycle_add [inv_intros]: "lifecycle_inv s \<Longrightarrow> lifecycle_inv (fst (AddService s c))"
proof (cases "snd (AddService s c) = Inr ()")
  case True
  assume inv: "lifecycle_inv s"
  have ok: "map_of (services s) (cfg_Name c) = None" "\<not> srv_stopped s" "wf_entry (cfg_Name c, \<lparr>cfg = c, accept = a\<rparr>)"
    and res: "fst (AddService s c) =
       (let s1 = s\<lparr>services := services s @ [(cfg_Name c, \<lparr>cfg = c, accept = None\<rparr>)]\<rparr>
        in if srv_started s then startAcceptLocked s1 (cfg_Name c) \<lparr>cfg = c, accept = None\<rparr> else s1)" for a
    using True by (auto simp: AddService_def wf_entry_def Let_def alist_update_append map_of_eq_None_iff split: if_splits)
  have new: "cfg_Name c \<notin> fst ` set (services s)" using ok(1) by (simp add: map_of_eq_None_iff)
  show ?thesis
    using inv ok(2) ok(3)[of None] ok(3)[of "Some (next_ctx s)"] new
    by (auto simp: res lifecycle_inv_def startAcceptLocked_def Let_def alist_update_middle[where ys = "[]"] atLeast0_lessThan_Suc)
next
  case False
  assume "lifecycle_inv s"
  moreover have "fst (AddService s c) = s" using False by (auto simp: AddService_def Let_def split: if_splits)
  ultimately show ?thesis by simp
qed

lemma lifecycle_remove [inv_intros]: "lifecycle_inv s \<Longrightarrow> lifecycle_inv (fst (RemoveService s name))"
proof (cases "map_of (services s) name")
  case (Some st)
  assume inv: "lifecycle_inv s"
  obtain xs ys where "services s = xs @ (name, st) # ys" "name \<notin> fst ` set xs" "name \<notin> fst ` set ys"
    using split_entry[OF Some] inv by (auto simp: lifecycle_inv_def)
  with inv Some show ?thesis
    by (auto simp: RemoveService_def cancel_def lifecycle_inv_def delete_middle split: option.splits)
qed (simp add: RemoveService_def)

lemma lifecycle_set_request [inv_intros]:
  "lifecycle_inv s \<Longrightarrow> lifecycle_inv (fst (SetOnConnectionRequest s name cb))"
proof (cases "map_of (services s) name")
  case (Some st)
  assume inv: "lifecycle_inv s"
  obtain xs ys where "services s = xs @ (name, st) # ys" "name \<notin> fst ` set xs" "name \<notin> fst ` set ys"
    using split_entry[OF Some] inv by (auto simp: lifecycle_inv_def)
  with inv Some show ?thesis
    by (auto simp: SetOnConnectionRequest_def lifecycle_inv_def alist_update_middle wf_entry_def)
qed (simp add: SetOnConnectionRequest_def)

lemma stop_fold:
  "foldl (\<lambda>s st. cancel (accept st) s) s (map snd svcs) = s\<lparr>cancelled := rev (running svcs) @ cancelled s\<rparr>"
  by (induction svcs arbitrary: s) (auto simp: cancel_def split: option.splits)

lemma lifecycle_stop [inv_intros]: "lifecycle_inv s \<Longrightarrow> lifecycle_inv (server_Stop s)"
  by (auto simp: server_Stop_def stop_fold lifecycle_inv_def add.commute)

lemma lifecycle_handler [inv_intros]: "lifecycle_inv s \<Longrightarrow> lifecycle_inv (SetEnvelopeHandler s h)"
  by (erule lifecycle_frame) (simp_all add: SetEnvelopeHandler_def)

lemma handle_only_nonces: "\<exists>nc'. fst (HandleEnvelope_for H E s io t d name) = s\<lparr>nc := nc'\<rparr>"
proof -
  have same: "\<exists>nc'. s = s\<lparr>nc := nc'\<rparr>" by (rule exI[of _ "nc s"]) simp
  show ?thesis
    by (auto simp: HandleEnvelope_for_def handleEnvelopeForService_def Let_def same
        split: option.splits prod.splits sum.splits if_splits)
qed

lemma lifecycle_handle [inv_intros]: "lifecycle_inv s \<Longrightarrow> lifecycle_inv (fst (HandleEnvelope_for H E s io t d name))"
  using handle_only_nonces[of H E s io t d name] by (auto elim!: lifecycle_frame)

lemma server_reach_inv: "server_reach s \<Longrightarrow> lifecycle_inv s"
  by (induction rule: server_reach.induct) (auto intro: inv_intros)

section \<open>Accept loops\<close>

lemma running_nth: "(n, st) \<in> set svcs \<Longrightarrow> accept st = Some i \<Longrightarrow> i \<in> set (running svcs)"
  by (induction svcs) (auto split: option.splits)

lemma upt_partition:
  assumes "mset (xs @ ys) = mset [0..<n]"
  shows "set xs \<inter> set ys = {}" and "set xs \<union> set ys = {..<n}"
proof -
  have "distinct (xs @ ys)" using assms by (metis distinct_upt mset_eq_imp_distinct_iff)
  then show "set xs \<inter> set ys = {}" by simp
  have "set (xs @ ys) = set [0..<n]" using assms by (rule mset_eq_setD)
  then show "set xs \<union> set ys = {..<n}" by (auto simp: atLeast0LessThan)
qed

text \<open>C23: Accept loops are accounted for. In every server reachable by any sequence of its operations, names
  are distinct and every context ever launched either is the one of a registered service or has been
  cancelled, never both and never twice. Once started, every registered service has a live accept loop. Once
  stopped, no service is left, every context is cancelled, and no service can be added.\<close>

theorem accept_loops_accounted:
  assumes "server_reach s"
  shows "distinct (map fst (services s)) \<and>
     mset (cancelled s @ running (services s)) = mset [0..<next_ctx s] \<and>
     (srv_started s \<longrightarrow> (\<forall>(n, st) \<in> set (services s). \<exists>i. accept st = Some i \<and> i \<notin> set (cancelled s))) \<and>
     (srv_stopped s \<longrightarrow> services s = [] \<and> set (cancelled s) = {..<next_ctx s} \<and>
        (\<forall>c. fst (AddService s c) = s \<and> snd (AddService s c) \<noteq> Inr ()))"
proof -
  have inv: "lifecycle_inv s" using server_reach_inv[OF assms] .
  have part: "set (cancelled s) \<inter> set (running (services s)) = {}" "set (cancelled s) \<union> set (running (services s)) = {..<next_ctx s}"
    using upt_partition[of "cancelled s" "running (services s)"] inv by (auto simp: lifecycle_inv_def)
  have live: "\<exists>i. accept st = Some i \<and> i \<notin> set (cancelled s)" if "srv_started s" "(n, st) \<in> set (services s)" for n st
  proof -
    have "accept st \<noteq> None" using that inv by (fastforce simp: lifecycle_inv_def list_all_iff)
    then obtain i where "accept st = Some i" by blast
    with running_nth[OF that(2)] part(1) show ?thesis by auto
  qed
  have "services s = [] \<and> set (cancelled s) = {..<next_ctx s}" if "srv_stopped s"
    using that inv part(2) by (auto simp: lifecycle_inv_def)
  moreover have "fst (AddService s c) = s \<and> snd (AddService s c) \<noteq> Inr ()" if "srv_stopped s" for c
    using that by (simp add: AddService_def)
  ultimately show ?thesis using inv live by (auto simp: lifecycle_inv_def)
qed

definition demo_service :: "string \<Rightarrow> service_config" where
  "demo_service name = \<lparr>cfg_Name = name, cfg_Keypair = Some \<lparr>pub = [], priv = []\<rparr>, cfg_Address = ''E1'', cfg_Contacts = None,
     cfg_OnRequest = True, cfg_Listener = True, cfg_LocalAddrs = None\<rparr>"

definition demo_lifecycle :: server where
  "demo_lifecycle = fst (RemoveService (fst (server_Start (fst (AddService (fst (AddService NewServer (demo_service ''a'')))
     (demo_service ''b''))))) ''a'')"

lemma demo_lifecycle_reach: "server_reach demo_lifecycle"
  unfolding demo_lifecycle_def by (intro server_reach.intros)

lemma demo_lifecycle_eval:
  "map fst (services demo_lifecycle) = [''b''] \<and> cancelled demo_lifecycle = [0] \<and> running (services demo_lifecycle) = [1] \<and>
   next_ctx demo_lifecycle = 2 \<and> srv_started demo_lifecycle \<and> \<not> srv_stopped demo_lifecycle"
  by (simp add: demo_lifecycle_def demo_service_def RemoveService_def server_Start_def AddService_def NewServer_def
      startAcceptLocked_def cancel_def Let_def)

theorem accept_loops_accounted_witness:
  "srv_started demo_lifecycle \<and> services demo_lifecycle \<noteq> [] \<and> cancelled demo_lifecycle = [0] \<and> running (services demo_lifecycle) = [1] \<and>
   cancelled (server_Stop demo_lifecycle) = [1, 0] \<and> set (cancelled (server_Stop demo_lifecycle)) = {..<2}"
proof -
  have "server_reach (server_Stop demo_lifecycle)" using demo_lifecycle_reach by (rule server_reach.stop)
  note stopped = accept_loops_accounted[OF this]
  have "srv_stopped (server_Stop demo_lifecycle)" "next_ctx (server_Stop demo_lifecycle) = 2"
    "cancelled (server_Stop demo_lifecycle) = [1, 0]"
    using demo_lifecycle_eval by (simp_all add: server_Stop_def stop_fold)
  with stopped demo_lifecycle_eval show ?thesis by auto
qed

end
