(* ===== verification/Ip_Exchange.thy ===== *)
theory Ip_Exchange
  imports Codec
begin

text \<open>
  The encrypted address exchange after a handshake (\<open>src/internal/signaling/ipexchange.go\<close>) and the
  conversion of Ed25519 keys to X25519 it rests on (\<open>src/internal/identity/x25519.go\<close>). SHA-512, the
  X25519 function, HKDF, AES-GCM and the protobuf encoding of the address list are parameters; the
  arithmetic of the conversion is that of \<open>math/big\<close>.
\<close>

unbundle bit_operations_syntax

section \<open>Parameters\<close>

record kex =
  sha512 :: "bytes \<Rightarrow> bytes"
  x25519 :: "bytes \<Rightarrow> bytes \<Rightarrow> bytes res"
  hkdf :: "bytes \<Rightarrow> bytes \<Rightarrow> bytes \<Rightarrow> bytes res"
  gcm_seal :: "bytes \<Rightarrow> bytes \<Rightarrow> bytes \<Rightarrow> bytes"
  gcm_open :: "bytes \<Rightarrow> bytes \<Rightarrow> bytes \<Rightarrow> bytes res"
  addrs_Marshal :: "string list \<Rightarrow> bytes res"
  addrs_Unmarshal :: "bytes \<Rightarrow> string list res"

section \<open>\<open>math/big\<close>\<close>

text \<open>\<open>SetBytes\<close> reads big-endian bytes; \<open>Bytes\<close> gives the big-endian bytes without leading zeros.\<close>

definition SetBytes :: "bytes \<Rightarrow> int" where
  "SetBytes b = int (be_value b)"

function le_digits :: "nat \<Rightarrow> bytes" where
  "le_digits n = (if n = 0 then [] else of_nat (n mod 256) # le_digits (n div 256))"
  by pat_completeness auto
termination by (relation "measure id") auto

declare le_digits.simps [simp del]

definition big_Bytes :: "int \<Rightarrow> bytes" where
  "big_Bytes u = rev (le_digits (nat u))"

text \<open>\<open>GCD\<close> with its first Bezout coefficient, and \<open>ModInverse\<close>, which is nil when the argument has
  no inverse.\<close>

function egcd :: "int \<Rightarrow> int \<Rightarrow> int \<times> int \<times> int" where
  "egcd a b = (if b \<le> 0 then (a, 1, 0) else (case egcd b (a mod b) of (g, x, y) \<Rightarrow> (g, y, x - (a div b) * y)))"
  by pat_completeness auto
termination by (relation "measure (\<lambda>(a, b). nat b)") auto

declare egcd.simps [simp del]

definition ModInverse :: "int \<Rightarrow> int \<Rightarrow> int option" where
  "ModInverse g n = (case egcd (g mod n) n of (d, x, y) \<Rightarrow> if d \<noteq> 1 then None else Some (x mod n))"

section \<open>Key conversion\<close>

definition fieldPrime :: int where
  "fieldPrime = 0x7fffffffffffffffffffffffffffffffffffffffffffffffffffffffffffffed"

definition ToX25519PrivateKey :: "kex \<Rightarrow> keypair \<Rightarrow> bytes" where
  "ToX25519PrivateKey X k =
     (let digest = sha512 X (Seed k);
          out0 = copy_fixed 32 (take 32 digest);
          out1 = out0[0 := out0 ! 0 AND 248];
          out2 = out1[31 := out1 ! 31 AND 127]
      in out2[31 := out2 ! 31 OR 64])"

definition Ed25519PublicKeyToX25519 :: "bytes \<Rightarrow> bytes res" where
  "Ed25519PublicKeyToX25519 pk =
     (if length pk \<noteq> PublicKeySize then Inl ''invalid public key length''
      else (let y0 = copy_fixed 32 pk;
                yBytes = y0[31 := y0 ! 31 AND 0x7f];
                y = SetBytes (rev yBytes);
                num = 1 + y;
                den = 1 - y
            in case ModInverse den fieldPrime of
                 None \<Rightarrow> Inl ''degenerate ed25519 public key''
               | Some denInv \<Rightarrow>
                   (let u = (num * denInv) mod fieldPrime
                    in Inr (copy_fixed 32 (rev (big_Bytes u))))))"

definition ToX25519PublicKey :: "keypair \<Rightarrow> bytes res" where
  "ToX25519PublicKey k = Ed25519PublicKeyToX25519 (pub k)"

section \<open>The shared key\<close>

definition hkdfInfo :: bytes where
  "hkdfInfo = map (\<lambda>c. of_nat (of_char c)) ''ensemble-ip-exchange-v1''"

text \<open>The comparison loop of \<open>sortedConcat\<close>: does the first difference put \<open>b\<close> first?\<close>

fun swap_needed :: "bytes \<Rightarrow> bytes \<Rightarrow> bool" where
  "swap_needed (x # xs) (y # ys) = (if x > y then True else if x < y then False else swap_needed xs ys)"
| "swap_needed _ _ = False"

definition sortedConcat :: "bytes \<Rightarrow> bytes \<Rightarrow> bytes" where
  "sortedConcat a b =
     (if length a > 0 \<and> length b > 0 \<and> a ! 0 > b ! 0 then b @ a
      else if length a > 0 \<and> length b > 0 \<and> a ! 0 = b ! 0
      then (if swap_needed a b then b @ a else a @ b)
      else a @ b)"

definition deriveSharedKey :: "kex \<Rightarrow> keypair \<Rightarrow> bytes \<Rightarrow> bytes res" where
  "deriveSharedKey X kp peerPub =
     (let xPriv = ToX25519PrivateKey X kp
      in case Ed25519PublicKeyToX25519 peerPub of
           Inl e \<Rightarrow> Inl ''converting peer public key''
         | Inr xPub \<Rightarrow>
             (case x25519 X xPriv xPub of
                Inl e \<Rightarrow> Inl ''X25519 ECDH''
              | Inr shared \<Rightarrow>
                  (let salt = sortedConcat (PublicKey kp) peerPub
                   in case hkdf X shared salt hkdfInfo of
                        Inl e \<Rightarrow> Inl ''HKDF''
                      | Inr key \<Rightarrow> Inr (take 32 key))))"

section \<open>Encryption\<close>

text \<open>\<open>aes.NewCipher\<close> accepts keys of 16, 24 and 32 bytes; the standard GCM nonce has 12.\<close>

definition NewCipher_ok :: "bytes \<Rightarrow> bool" where
  "NewCipher_ok key \<longleftrightarrow> length key \<in> {16, 24, 32}"

definition gcm_NonceSize :: nat where "gcm_NonceSize = 12"

definition encryptGCM :: "kex \<Rightarrow> bytes res \<Rightarrow> bytes \<Rightarrow> bytes \<Rightarrow> bytes res" where
  "encryptGCM X rand key plaintext =
     (if \<not> NewCipher_ok key then Inl ''creating AES cipher''
      else (case rand of
              Inl e \<Rightarrow> Inl ''generating nonce''
            | Inr nonce \<Rightarrow> Inr (nonce @ gcm_seal X key nonce plaintext)))"

definition decryptGCM :: "kex \<Rightarrow> bytes \<Rightarrow> bytes \<Rightarrow> bytes res" where
  "decryptGCM X key ciphertext =
     (if \<not> NewCipher_ok key then Inl ''creating AES cipher''
      else if length ciphertext < gcm_NonceSize then Inl ''ciphertext too short''
      else (case gcm_open X key (take gcm_NonceSize ciphertext) (drop gcm_NonceSize ciphertext) of
              Inl e \<Rightarrow> Inl ''decrypting''
            | Inr plaintext \<Rightarrow> Inr plaintext))"

definition EncryptIPInfo :: "kex \<Rightarrow> bytes res \<Rightarrow> string list \<Rightarrow> keypair \<Rightarrow> bytes \<Rightarrow> bytes res" where
  "EncryptIPInfo X rand addrs kp peerPub =
     (case deriveSharedKey X kp peerPub of
        Inl e \<Rightarrow> Inl e
      | Inr key \<Rightarrow>
          (case addrs_Marshal X addrs of
             Inl e \<Rightarrow> Inl ''marshaling IP info''
           | Inr plaintext \<Rightarrow> encryptGCM X rand key plaintext))"

definition DecryptIPInfo :: "kex \<Rightarrow> bytes \<Rightarrow> keypair \<Rightarrow> bytes \<Rightarrow> string list res" where
  "DecryptIPInfo X ciphertext kp peerPub =
     (case deriveSharedKey X kp peerPub of
        Inl e \<Rightarrow> Inl e
      | Inr key \<Rightarrow>
          (case decryptGCM X key ciphertext of
             Inl e \<Rightarrow> Inl e
           | Inr plaintext \<Rightarrow>
               (case addrs_Unmarshal X plaintext of
                  Inl e \<Rightarrow> Inl ''unmarshaling IP info''
                | Inr addrs \<Rightarrow> Inr addrs)))"

text \<open>One side of the exchange: what it writes, and its result from the outcome of the write, whether the
  context ended first, and what was read.\<close>

definition ExchangeIPs ::
  "kex \<Rightarrow> bytes res \<Rightarrow> string list \<Rightarrow> keypair \<Rightarrow> bytes \<Rightarrow> unit res \<Rightarrow> bool \<Rightarrow> (msg_type \<times> bytes) res \<Rightarrow>
     (msg_type \<times> bytes) list \<times> string list res" where
  "ExchangeIPs X rand ourInfo kp peerPub write ctx_done got =
     (case EncryptIPInfo X rand ourInfo kp peerPub of
        Inl e \<Rightarrow> ([], Inl ''encrypting IP info'')
      | Inr encrypted \<Rightarrow>
          (case write of
             Inl e \<Rightarrow> ([], Inl ''sending IP info'')
           | Inr _ \<Rightarrow>
               ([(IP_EXCHANGE, encrypted)],
                if ctx_done then Inl ''context''
                else (case got of
                        Inl e \<Rightarrow> Inl ''receiving IP info''
                      | Inr (t, payload) \<Rightarrow>
                          if t \<noteq> IP_EXCHANGE then Inl ''unexpected message type''
                          else DecryptIPInfo X payload kp peerPub))))"

section \<open>Arithmetic of the conversion\<close>

lemma egcd_correct:
  "\<lbrakk> egcd a b = (g, x, y); 0 \<le> a; 0 \<le> b \<rbrakk> \<Longrightarrow> g = gcd a b \<and> a * x + b * y = g"
proof (induction a b arbitrary: g x y rule: egcd.induct)
  case (1 a b)
  show ?case
  proof (cases "b = 0")
    case True
    with 1 show ?thesis by (simp add: egcd.simps)
  next
    case False
    obtain g' x' y' where r: "egcd b (a mod b) = (g', x', y')" by (metis prod_cases3)
    have "g' = gcd b (a mod b) \<and> b * x' + (a mod b) * y' = g'"
      using 1 False r by simp
    moreover have "g = g'" "x = y'" "y = x' - (a div b) * y'"
      using "1.prems" False r by (auto simp: egcd.simps[of a b])
    moreover have "a * y' + b * (x' - (a div b) * y') = b * x' + (a mod b) * y'"
      by (simp add: minus_div_mult_eq_mod [symmetric] algebra_simps)
    ultimately show ?thesis by (simp add: gcd_red_int [symmetric])
  qed
qed

lemma ModInverse_None: "n > 0 \<Longrightarrow> ModInverse g n = None \<longleftrightarrow> gcd g n \<noteq> 1"
  using egcd_correct[of "g mod n" n]
  by (auto simp: ModInverse_def gcd.commute gcd_red_int [symmetric] split: prod.splits)

lemma ModInverse_Some:
  assumes "n > 1" "ModInverse g n = Some x"
  shows "0 \<le> x" "x < n" "(g * x) mod n = 1"
proof -
  obtain x' y' where e: "egcd (g mod n) n = (1, x', y')" "x = x' mod n"
    using assms by (auto simp: ModInverse_def split: prod.splits if_splits)
  then have "(g mod n) * x' + n * y' = 1" using egcd_correct[OF e(1)] assms(1) by simp
  then have "((g mod n) * x' + n * y') mod n = 1" using assms(1) by simp
  then show "(g * x) mod n = 1" by (simp add: e(2) mod_simps)
  show "0 \<le> x" "x < n" using assms(1) e(2) by simp_all
qed

text \<open>The value of little-endian bytes.\<close>

definition le_value :: "bytes \<Rightarrow> int" where
  "le_value b = int (be_value (rev b))"

lemma be_value_le_digits: "be_value (rev (le_digits n)) = n"
proof (induction n rule: le_digits.induct)
  case (1 n)
  show ?case
  proof (cases "n = 0")
    case True
    then show ?thesis by (simp add: le_digits.simps[of 0])
  next
    case False
    then have "be_value (rev (le_digits n)) = (n div 256) * 256 + n mod 256"
      using 1 by (simp add: le_digits.simps[of n] be_value_snoc unat_of_nat)
    then show ?thesis by simp
  qed
qed

lemma length_le_digits: "n < 256 ^ k \<Longrightarrow> length (le_digits n) \<le> k"
proof (induction k arbitrary: n)
  case 0
  then show ?case by (subst le_digits.simps) simp
next
  case (Suc k)
  then have "n div 256 < 256 ^ k" by (simp add: less_mult_imp_div_less mult.commute)
  with Suc.IH[of "n div 256"] show ?case by (simp add: le_digits.simps[of n])
qed

lemma be_value_zeros: "be_value (replicate k 0 @ b) = be_value b"
proof (induction b rule: rev_induct)
  case Nil
  have "be_value (replicate k 0) = 0"
  proof (induction k)
    case (Suc k)
    then show ?case
      unfolding replicate_Suc by (subst replicate_append_same [symmetric]) (simp add: be_value_snoc)
  qed simp
  then show ?case by simp
next
  case (snoc x b)
  then show ?case by (simp add: be_value_snoc append_assoc [symmetric] del: append_assoc)
qed

lemma le_value_copy_fixed:
  assumes "length b \<le> n"
  shows "le_value (copy_fixed n b) = le_value b"
  using assms by (simp add: le_value_def copy_fixed_def be_value_zeros)

lemma Ed_conversion_bytes:
  assumes "0 \<le> u" "u < fieldPrime"
  shows "le_value (copy_fixed 32 (rev (big_Bytes u))) = u"
proof -
  have "nat u < 256 ^ 32" using assms by (simp add: fieldPrime_def)
  then have "length (le_digits (nat u)) \<le> 32" by (rule length_le_digits)
  then show ?thesis using assms(1) by (simp add: big_Bytes_def le_value_copy_fixed) (simp add: le_value_def be_value_le_digits)
qed

text \<open>The \<open>y\<close> coordinate in an Ed25519 public key: 255 bits, little-endian, the sign bit cleared.\<close>

definition ed_y :: "bytes \<Rightarrow> int" where
  "ed_y pk = le_value (pk[31 := pk ! 31 AND 0x7f])"

lemma Ed25519PublicKeyToX25519_eq:
  assumes "length pk = 32"
  shows "Ed25519PublicKeyToX25519 pk =
    (case ModInverse (1 - ed_y pk) fieldPrime of
       None \<Rightarrow> Inl ''degenerate ed25519 public key''
     | Some i \<Rightarrow> Inr (copy_fixed 32 (rev (big_Bytes (((1 + ed_y pk) * i) mod fieldPrime)))))"
  using assms
  by (auto simp: Ed25519PublicKeyToX25519_def PublicKeySize_def ed_y_def SetBytes_def le_value_def copy_fixed_exact Let_def
      split: option.splits)

lemma conversion_fails:
  "(\<exists>e. Ed25519PublicKeyToX25519 pk = Inl e) \<longleftrightarrow> length pk \<noteq> 32 \<or> gcd (1 - ed_y pk) fieldPrime \<noteq> 1"
proof (cases "length pk = 32")
  case True
  have "fieldPrime > 0" by (simp add: fieldPrime_def)
  note inv = ModInverse_None[OF this, of "1 - ed_y pk"]
  show ?thesis
    using True inv by (cases "ModInverse (1 - ed_y pk) fieldPrime") (simp_all add: Ed25519PublicKeyToX25519_eq)
qed (simp add: Ed25519PublicKeyToX25519_def PublicKeySize_def)

lemma conversion_value:
  assumes out: "Ed25519PublicKeyToX25519 pk = Inr out"
  shows "length out = 32 \<and> 0 \<le> le_value out \<and> le_value out < fieldPrime \<and>
     (le_value out * (1 - ed_y pk)) mod fieldPrime = (1 + ed_y pk) mod fieldPrime"
proof -
  have p: "fieldPrime > 1" by (simp add: fieldPrime_def)
  have len: "length pk = 32" using out by (auto simp: Ed25519PublicKeyToX25519_def PublicKeySize_def split: if_splits)
  obtain i where i: "ModInverse (1 - ed_y pk) fieldPrime = Some i"
    and o: "out = copy_fixed 32 (rev (big_Bytes (((1 + ed_y pk) * i) mod fieldPrime)))"
    using out by (auto simp: Ed25519PublicKeyToX25519_eq[OF len] split: option.splits)
  let ?u = "((1 + ed_y pk) * i) mod fieldPrime"
  have u: "0 \<le> ?u" "?u < fieldPrime" using p by simp_all
  have val: "le_value out = ?u" unfolding o by (rule Ed_conversion_bytes[OF u])
  have "(?u * (1 - ed_y pk)) mod fieldPrime = ((1 + ed_y pk) * i * (1 - ed_y pk)) mod fieldPrime"
    by (rule mod_mult_left_eq)
  also have "(1 + ed_y pk) * i * (1 - ed_y pk) = (1 + ed_y pk) * ((1 - ed_y pk) * i)" by (simp add: mult.assoc mult.commute[of i])
  also have "(\<dots>) mod fieldPrime = ((1 + ed_y pk) * ((1 - ed_y pk) * i mod fieldPrime)) mod fieldPrime"
    by (rule mod_mult_right_eq [symmetric])
  also have "\<dots> = (1 + ed_y pk) mod fieldPrime" by (simp add: ModInverse_Some(3)[OF p i])
  finally show ?thesis using val u by (simp add: o)
qed

text \<open>The key conversion is the birational map. For a 32-byte Ed25519 public key with coordinate y the
  result is 32 bytes that hold, little-endian, the u below p with u (1 - y) = 1 + y modulo p; the
  conversion fails exactly on a key of another length or one whose 1 - y has no inverse modulo p.\<close>

theorem x25519_conversion:
  "case Ed25519PublicKeyToX25519 pk of
     Inl e \<Rightarrow> \<not> (length pk = 32 \<and> gcd (1 - ed_y pk) fieldPrime = 1)
   | Inr out \<Rightarrow> length pk = 32 \<and> gcd (1 - ed_y pk) fieldPrime = 1 \<and> length out = 32 \<and>
       0 \<le> le_value out \<and> le_value out < fieldPrime \<and>
       (le_value out * (1 - ed_y pk)) mod fieldPrime = (1 + ed_y pk) mod fieldPrime"
  using conversion_fails[of pk] conversion_value[of pk] by (cases "Ed25519PublicKeyToX25519 pk") auto

section \<open>Both sides derive the same key\<close>

lemma swap_needed_flip:
  "length a = length b \<Longrightarrow> a \<noteq> b \<Longrightarrow> swap_needed a b \<longleftrightarrow> \<not> swap_needed b a"
  by (induction a b rule: swap_needed.induct) auto

lemma sortedConcat_sym:
  assumes "length a = length b"
  shows "sortedConcat a b = sortedConcat b a"
proof (cases "a = b \<or> a = []")
  case True
  with assms show ?thesis by auto
next
  case False
  with assms swap_needed_flip[of a b] show ?thesis
    by (cases "a ! 0" "b ! 0" rule: linorder_cases) (auto simp: sortedConcat_def)
qed

text \<open>What is relied on of the primitives: Diffie--Hellman agreement of X25519 over the scalar
  multiplication of the base point, that the converted public key is that multiple for the converted
  private key, and that GCM opens what it sealed.\<close>

definition kex_agree :: "kex \<Rightarrow> ed25519 \<Rightarrow> (bytes \<Rightarrow> bytes) \<Rightarrow> bool" where
  "kex_agree X E base \<longleftrightarrow>
     (\<forall>a b. x25519 X a (base b) = x25519 X b (base a)) \<and>
     (\<forall>seed k. FromSeed E seed = Inr k \<longrightarrow> ToX25519PublicKey k = Inr (base (ToX25519PrivateKey X k)))"

definition gcm_correct :: "kex \<Rightarrow> bool" where
  "gcm_correct X \<longleftrightarrow> (\<forall>k n p. gcm_open X k n (gcm_seal X k n p) = Inr p)"

definition addrs_correct :: "kex \<Rightarrow> bool" where
  "addrs_correct X \<longleftrightarrow> (\<forall>as b. addrs_Marshal X as = Inr b \<longrightarrow> addrs_Unmarshal X b = Inr as)"

lemma FromSeed_pub_length:
  "ed25519_keys E \<Longrightarrow> FromSeed E s = Inr k \<Longrightarrow> length (PublicKey k) = 32"
  by (auto simp: FromSeed_def ed25519_keys_def SeedSize_def ed_public_def PublicKey_def Let_def split: if_splits)

lemma shared_key_agrees:
  assumes "kex_agree X E base" "ed25519_keys E" "FromSeed E sa = Inr ka" "FromSeed E sb = Inr kb"
  shows "deriveSharedKey X ka (PublicKey kb) = deriveSharedKey X kb (PublicKey ka)"
proof -
  have conv: "Ed25519PublicKeyToX25519 (PublicKey k) = Inr (base (ToX25519PrivateKey X k))" if "FromSeed E s = Inr k" for s k
    using assms(1) that by (auto simp: kex_agree_def ToX25519PublicKey_def PublicKey_def)
  have "x25519 X (ToX25519PrivateKey X ka) (base (ToX25519PrivateKey X kb)) = x25519 X (ToX25519PrivateKey X kb) (base (ToX25519PrivateKey X ka))"
    using assms(1) by (simp add: kex_agree_def)
  moreover have "sortedConcat (PublicKey ka) (PublicKey kb) = sortedConcat (PublicKey kb) (PublicKey ka)"
    using FromSeed_pub_length[OF assms(2)] assms(3,4) by (intro sortedConcat_sym) simp
  ultimately show ?thesis unfolding deriveSharedKey_def Let_def conv[OF assms(3)] conv[OF assms(4)] sum.case by (simp cong: sum.case_cong)
qed

lemma decrypt_encrypt:
  "\<lbrakk> gcm_correct X; encryptGCM X (Inr nonce) key p = Inr c; length nonce = gcm_NonceSize \<rbrakk> \<Longrightarrow> decryptGCM X key c = Inr p"
  by (auto simp: encryptGCM_def decryptGCM_def gcm_correct_def split: if_splits)

lemma decrypt_encrypt_info:
  assumes "deriveSharedKey X ka pb = deriveSharedKey X kb pa" "gcm_correct X" "addrs_correct X"
    and "EncryptIPInfo X (Inr nonce) as ka pb = Inr c" "length nonce = gcm_NonceSize"
  shows "DecryptIPInfo X c kb pa = Inr as"
proof -
  obtain key p where kp: "deriveSharedKey X ka pb = Inr key" "addrs_Marshal X as = Inr p" "encryptGCM X (Inr nonce) key p = Inr c"
    using assms(4) by (auto simp: EncryptIPInfo_def split: sum.splits)
  have "deriveSharedKey X kb pa = Inr key" using kp(1) assms(1) by simp
  moreover have "decryptGCM X key c = Inr p" using decrypt_encrypt[OF assms(2) kp(3) assms(5)] .
  ultimately show ?thesis using kp(2) assms(3) by (simp add: DecryptIPInfo_def addrs_correct_def)
qed


section \<open>A concrete exchange\<close>

text \<open>Stand-ins at which the hypotheses hold: every key pair has the zero public key, the agreed secret is
  constant, and the seal is the first byte of the key in front of the plaintext.\<close>

definition demo_kex :: kex where
  "demo_kex = \<lparr>sha512 = copy_fixed 64, x25519 = (\<lambda>_ _. Inr (replicate 32 5)), hkdf = (\<lambda>s salt i. Inr (copy_fixed 32 (s @ salt))),
     gcm_seal = (\<lambda>k n p. hd k # p),
     gcm_open = (\<lambda>k n c. case c of t # p \<Rightarrow> if t = hd k then Inr p else Inl ''auth'' | [] \<Rightarrow> Inl ''auth''),
     addrs_Marshal = (\<lambda>as. case as of [a] \<Rightarrow> Inr (map (\<lambda>c. of_nat (of_char c)) a) | _ \<Rightarrow> Inl ''unsupported''),
     addrs_Unmarshal = (\<lambda>b. Inr [map (\<lambda>w. char_of (unat w)) b])\<rparr>"

lemma demo_kex_fields [simp]:
  "x25519 demo_kex a b = Inr (replicate 32 5)" "hkdf demo_kex s salt i = Inr (copy_fixed 32 (s @ salt))"
  "gcm_seal demo_kex k n p = hd k # p" "addrs_Marshal demo_kex [x] = Inr (map (\<lambda>c. of_nat (of_char c)) x)"
  "gcm_open demo_kex k n (t # p) = (if t = hd k then Inr p else Inl ''auth'')" "addrs_Unmarshal demo_kex q = Inr [map (\<lambda>w. char_of (unat w)) q]"
  by (simp_all add: demo_kex_def)

definition demo_zero_ed :: ed25519 where
  "demo_zero_ed = \<lparr>ed_new_key = (\<lambda>s. s @ replicate 32 0), ed_sign = (\<lambda>_ _. []), ed_verify = (\<lambda>_ _ _. True)\<rparr>"

definition demo_base :: "bytes \<Rightarrow> bytes" where
  "demo_base _ = projr (Ed25519PublicKeyToX25519 (replicate 32 0))"

lemma zero_key_converts: "Ed25519PublicKeyToX25519 (replicate 32 0) = Inr (demo_base b)"
proof -
  have "(replicate 32 (0 :: byte))[31 := replicate 32 0 ! 31 AND 0x7f] = replicate 32 0"
    by (rule nth_equalityI) (simp_all add: nth_list_update)
  then have "ed_y (replicate 32 0) = 0" using be_value_zeros[of 32 "[]"] by (simp add: ed_y_def le_value_def)
  then have "\<nexists>e. Ed25519PublicKeyToX25519 (replicate 32 0) = Inl e" using conversion_fails[of "replicate 32 0"] by simp
  then show ?thesis by (cases "Ed25519PublicKeyToX25519 (replicate 32 0)") (simp_all add: demo_base_def)
qed

lemma demo_zero_FromSeed: "length s = 32 \<Longrightarrow> FromSeed demo_zero_ed s = Inr \<lparr>pub = replicate 32 0, priv = s @ replicate 32 0\<rparr>"
  by (simp add: FromSeed_def SeedSize_def demo_zero_ed_def ed_public_def Let_def)

lemma demo_kex_agree: "kex_agree demo_kex demo_zero_ed demo_base"
proof -
  have "ToX25519PublicKey k = Inr (demo_base (ToX25519PrivateKey demo_kex k))" if "FromSeed demo_zero_ed s = Inr k" for s k
  proof -
    have "length s = 32" using that by (auto simp: FromSeed_def SeedSize_def split: if_splits)
    then show ?thesis using that demo_zero_FromSeed zero_key_converts by (auto simp: ToX25519PublicKey_def)
  qed
  then show ?thesis by (simp add: kex_agree_def)
qed

lemma char_byte_inverse: "char_of (unat (of_nat (of_char c) :: byte)) = c"
proof -
  have "of_char c < (256 :: nat)" using nat_of_char_less_256 .
  then have "unat (of_nat (of_char c) :: byte) = of_char c" by (simp add: unat_of_nat)
  then show ?thesis by simp
qed

lemma demo_kex_correct: "gcm_correct demo_kex" "addrs_correct demo_kex" "ed25519_keys demo_zero_ed"
proof -
  show "gcm_correct demo_kex" by (simp add: gcm_correct_def demo_kex_def Let_def)
  show "ed25519_keys demo_zero_ed" by (simp add: ed25519_keys_def demo_zero_ed_def ed_seed_def)
  show "addrs_correct demo_kex"
    by (auto simp: addrs_correct_def demo_kex_def comp_def char_byte_inverse split: list.splits)
qed

definition demo_side :: "byte \<Rightarrow> keypair" where
  "demo_side b = \<lparr>pub = replicate 32 0, priv = replicate 32 b @ replicate 32 0\<rparr>"

lemma demo_shared: "deriveSharedKey demo_kex k (replicate 32 0) = Inr (replicate 32 5)"
  by (simp add: deriveSharedKey_def zero_key_converts[of undefined] copy_fixed_def Let_def)

lemma demo_sends:
  "ExchangeIPs demo_kex (Inr n) [a] k (replicate 32 0) (Inr ()) False m =
     ([(IP_EXCHANGE, n @ 5 # map (\<lambda>c. of_nat (of_char c)) a)],
      snd (ExchangeIPs demo_kex (Inr n) [a] k (replicate 32 0) (Inr ()) False m))"
proof -
  have "EncryptIPInfo demo_kex (Inr n) [a] k (replicate 32 0) = Inr (n @ 5 # map (\<lambda>c. of_nat (of_char c)) a)"
    by (simp add: EncryptIPInfo_def demo_shared encryptGCM_def NewCipher_ok_def)
  then show ?thesis by (simp add: ExchangeIPs_def)
qed


end
