(* ===== verification/Keystore.thy ===== *)
theory Keystore
  imports Filepath Ip_Exchange "HOL-Library.Char_ord" "HOL-Library.List_Lexorder"
begin

text \<open>
  The encrypted keystore (\<open>src/internal/identity/keystore.go\<close>): one key file per service under
  \<open>services/\<close>, the legacy file moved there, and the cache in front of them. The disk is a map from paths
  to contents; what the operating system and the random source do during one call is a record argument.
  Argon2id and AES-GCM are parameters.
\<close>

section \<open>State\<close>

definition saltSize :: nat where "saltSize = 16"
definition nonceSize :: nat where "nonceSize = 12"
definition NodeService :: string where "NodeService = ''node''"
definition servicesDir :: string where "servicesDir = ''services''"
definition keyFileName :: string where "keyFileName = ''identity.key''"
definition legacyKey :: string where "legacyKey = ''identity.key''"
definition ErrNotFound :: string where "ErrNotFound = ''identity: service not found''"
definition ErrAlreadyExists :: string where "ErrAlreadyExists = ''identity: service already has a keypair''"

record keystore =
  ks_dir :: string
  passphrase :: string
  cache :: "string \<rightharpoonup> keypair"

type_synonym disk = "string \<rightharpoonup> bytes"

text \<open>A failed \<open>os.WriteFile\<close> has left the path alone, or truncated to some prefix of the data.\<close>

datatype write_out = WOk | WFail "nat option"

record ks_io =
  gen_seed :: "bytes res"
  salt_rand :: "bytes res"
  nonce_rand :: "bytes res"
  os_read :: "unit res"
  os_mkdir :: "unit res"
  os_write :: write_out
  os_rename :: "unit res"
  os_remove :: "unit res"

text \<open>The parameters: Argon2id with the fixed cost parameters, from passphrase and salt.\<close>

type_synonym argon = "string \<Rightarrow> bytes \<Rightarrow> bytes"

section \<open>Names and paths\<close>

definition alnum :: "char \<Rightarrow> bool" where
  "alnum c \<longleftrightarrow> (CHR ''a'' \<le> c \<and> c \<le> CHR ''z'') \<or> (CHR ''0'' \<le> c \<and> c \<le> CHR ''9'')"

definition slug_char :: "char \<Rightarrow> bool" where
  "slug_char c \<longleftrightarrow> alnum c \<or> c = CHR ''_'' \<or> c = CHR ''-''"

text \<open>\<open>^[a-z0-9]([a-z0-9_-]*[a-z0-9])?$\<close>\<close>

definition nameRegexp :: "string \<Rightarrow> bool" where
  "nameRegexp n \<longleftrightarrow> n \<noteq> '''' \<and> alnum (hd n) \<and> (length n > 1 \<longrightarrow> alnum (last n)) \<and> list_all slug_char n"

definition validateName :: "string \<Rightarrow> unit res" where
  "validateName name =
     (if name = '''' then Inl ''identity: service name must not be empty''
      else if \<not> nameRegexp name then Inl ''identity: invalid service name''
      else Inr ())"

definition keyPath :: "string \<Rightarrow> string \<Rightarrow> string" where
  "keyPath dir name = join_all [dir, servicesDir, name, keyFileName]"

definition existsOnDisk :: "disk \<Rightarrow> string \<Rightarrow> bool" where
  "existsOnDisk d path \<longleftrightarrow> d path \<noteq> None"

section \<open>Files\<close>

definition open_key_file :: "kex \<Rightarrow> argon \<Rightarrow> string \<Rightarrow> bytes \<Rightarrow> keypair res" where
  "open_key_file X argon pass data =
     (if length data < saltSize + nonceSize then Inl ''key file too short''
      else (let salt = take saltSize data;
                nonce = take nonceSize (drop saltSize data);
                ciphertext = drop (saltSize + nonceSize) data;
                aesKey = argon pass salt
            in if \<not> NewCipher_ok aesKey then Inl ''creating cipher''
               else (case gcm_open X aesKey nonce ciphertext of
                       Inl e \<Rightarrow> Inl ''decrypting key (wrong passphrase?)''
                     | Inr plaintext \<Rightarrow> UnmarshalPrivate plaintext)))"

definition loadFromDisk :: "kex \<Rightarrow> argon \<Rightarrow> ks_io \<Rightarrow> keystore \<Rightarrow> disk \<Rightarrow> string \<Rightarrow> keypair res" where
  "loadFromDisk X argon io ks d name =
     (case d (keyPath (ks_dir ks) name) of
        None \<Rightarrow> Inl ErrNotFound
      | Some data \<Rightarrow>
          (case os_read io of
             Inl e \<Rightarrow> Inl ''reading key file''
           | Inr _ \<Rightarrow> open_key_file X argon (passphrase ks) data))"

definition WriteFile :: "ks_io \<Rightarrow> disk \<Rightarrow> string \<Rightarrow> bytes \<Rightarrow> disk \<times> unit res" where
  "WriteFile io d path data =
     (case os_write io of
        WOk \<Rightarrow> (d(path \<mapsto> data), Inr ())
      | WFail None \<Rightarrow> (d, Inl ''writing key file'')
      | WFail (Some n) \<Rightarrow> (d(path \<mapsto> take n data), Inl ''writing key file''))"

definition saveToDisk :: "kex \<Rightarrow> argon \<Rightarrow> ks_io \<Rightarrow> keystore \<Rightarrow> disk \<Rightarrow> string \<Rightarrow> keypair \<Rightarrow> disk \<times> unit res" where
  "saveToDisk X argon io ks d name kp =
     (case salt_rand io of
        Inl e \<Rightarrow> (d, Inl ''generating salt'')
      | Inr salt \<Rightarrow>
          (case nonce_rand io of
             Inl e \<Rightarrow> (d, Inl ''generating nonce'')
           | Inr nonce \<Rightarrow>
               (let aesKey = argon (passphrase ks) salt
                in if \<not> NewCipher_ok aesKey then (d, Inl ''creating cipher'')
                   else (let out = salt @ nonce @ gcm_seal X aesKey nonce (MarshalPrivate kp)
                         in case os_mkdir io of
                              Inl e \<Rightarrow> (d, Inl ''creating directory'')
                            | Inr _ \<Rightarrow> WriteFile io d (keyPath (ks_dir ks) name) out))))"

definition migrateLegacy :: "ks_io \<Rightarrow> keystore \<Rightarrow> disk \<Rightarrow> disk \<times> unit res" where
  "migrateLegacy io ks d =
     (let legacy = join_all [ks_dir ks, legacyKey]; target = keyPath (ks_dir ks) NodeService
      in case d legacy of
           None \<Rightarrow> (d, Inr ())
         | Some data \<Rightarrow>
             if existsOnDisk d target then (d, Inr ())
             else (case os_mkdir io of
                     Inl e \<Rightarrow> (d, Inl ''creating services directory'')
                   | Inr _ \<Rightarrow>
                       (case os_rename io of
                          Inl e \<Rightarrow> (d, Inl ''renaming legacy key file'')
                        | Inr _ \<Rightarrow> ((d(target \<mapsto> data))(legacy := None), Inr ()))))"

section \<open>Operations\<close>

definition NewKeystore :: "ks_io \<Rightarrow> disk \<Rightarrow> string \<Rightarrow> string \<Rightarrow> disk \<times> keystore res" where
  "NewKeystore io d dir pass =
     (let ks = \<lparr>ks_dir = dir, passphrase = pass, cache = Map.empty\<rparr>
      in case migrateLegacy io ks d of
           (d', Inl e) \<Rightarrow> (d', Inl ''migrating legacy identity'')
         | (d', Inr _) \<Rightarrow> (d', Inr ks))"

definition ks_Get :: "kex \<Rightarrow> argon \<Rightarrow> ks_io \<Rightarrow> keystore \<Rightarrow> disk \<Rightarrow> string \<Rightarrow> keystore \<times> keypair res" where
  "ks_Get X argon io ks d name =
     (case validateName name of
        Inl e \<Rightarrow> (ks, Inl e)
      | Inr _ \<Rightarrow>
          (case cache ks name of
             Some kp \<Rightarrow> (ks, Inr kp)
           | None \<Rightarrow>
               (case loadFromDisk X argon io ks d name of
                  Inl e \<Rightarrow> (ks, Inl e)
                | Inr kp \<Rightarrow> (ks\<lparr>cache := (cache ks)(name \<mapsto> kp)\<rparr>, Inr kp))))"

text \<open>The part \<open>Generate\<close> and \<open>GetOrGenerate\<close> share: a new key pair, stored and cached.\<close>

definition generate_new ::
  "kex \<Rightarrow> argon \<Rightarrow> ed25519 \<Rightarrow> ks_io \<Rightarrow> keystore \<Rightarrow> disk \<Rightarrow> string \<Rightarrow> keystore \<times> disk \<times> keypair res" where
  "generate_new X argon E io ks d name =
     (case Generate E (gen_seed io) of
        Inl e \<Rightarrow> (ks, d, Inl e)
      | Inr kp \<Rightarrow>
          (case saveToDisk X argon io ks d name kp of
             (d', Inl e) \<Rightarrow> (ks, d', Inl e)
           | (d', Inr _) \<Rightarrow> (ks\<lparr>cache := (cache ks)(name \<mapsto> kp)\<rparr>, d', Inr kp)))"

definition ks_Generate ::
  "kex \<Rightarrow> argon \<Rightarrow> ed25519 \<Rightarrow> ks_io \<Rightarrow> keystore \<Rightarrow> disk \<Rightarrow> string \<Rightarrow> keystore \<times> disk \<times> keypair res" where
  "ks_Generate X argon E io ks d name =
     (case validateName name of
        Inl e \<Rightarrow> (ks, d, Inl e)
      | Inr _ \<Rightarrow>
          if cache ks name \<noteq> None then (ks, d, Inl ErrAlreadyExists)
          else if existsOnDisk d (keyPath (ks_dir ks) name) then (ks, d, Inl ErrAlreadyExists)
          else generate_new X argon E io ks d name)"

definition GetOrGenerate ::
  "kex \<Rightarrow> argon \<Rightarrow> ed25519 \<Rightarrow> ks_io \<Rightarrow> keystore \<Rightarrow> disk \<Rightarrow> string \<Rightarrow> keystore \<times> disk \<times> keypair res" where
  "GetOrGenerate X argon E io ks d name =
     (case validateName name of
        Inl e \<Rightarrow> (ks, d, Inl e)
      | Inr _ \<Rightarrow>
          (case cache ks name of
             Some kp \<Rightarrow> (ks, d, Inr kp)
           | None \<Rightarrow>
               if existsOnDisk d (keyPath (ks_dir ks) name)
               then (case loadFromDisk X argon io ks d name of
                       Inl e \<Rightarrow> (ks, d, Inl e)
                     | Inr kp \<Rightarrow> (ks\<lparr>cache := (cache ks)(name \<mapsto> kp)\<rparr>, d, Inr kp))
               else generate_new X argon E io ks d name))"

definition Has :: "keystore \<Rightarrow> disk \<Rightarrow> string \<Rightarrow> bool" where
  "Has ks d name =
     (case validateName name of
        Inl e \<Rightarrow> False
      | Inr _ \<Rightarrow> if cache ks name \<noteq> None then True else existsOnDisk d (keyPath (ks_dir ks) name))"

text \<open>\<open>List\<close> over the entries \<open>ReadDir\<close> returned, each with whether it is a directory.\<close>

definition ks_List :: "keystore \<Rightarrow> disk \<Rightarrow> (string \<times> bool) list res \<Rightarrow> string list" where
  "ks_List ks d entries =
     (case entries of
        Inl e \<Rightarrow> []
      | Inr es \<Rightarrow>
          sort_slice (<) (map fst (filter (\<lambda>(name, is_dir).
            is_dir \<and> validateName name = Inr () \<and>
            existsOnDisk d (join_all [join_all [ks_dir ks, servicesDir], name, keyFileName])) es)))"

definition ks_Remove :: "ks_io \<Rightarrow> keystore \<Rightarrow> disk \<Rightarrow> string \<Rightarrow> keystore \<times> disk \<times> unit res" where
  "ks_Remove io ks d name =
     (case validateName name of
        Inl e \<Rightarrow> (ks, d, Inl e)
      | Inr _ \<Rightarrow>
          (let path = keyPath (ks_dir ks) name
           in if \<not> existsOnDisk d path \<and> cache ks name = None then (ks, d, Inl ErrNotFound)
              else if existsOnDisk d path \<and> isl (os_remove io)
              then (ks, d, Inl ''removing key file'')
              else (ks\<lparr>cache := (cache ks)(name := None)\<rparr>, d(path := None), Inr ())))"

section \<open>Paths of distinct names\<close>

definition valid_name :: "string \<Rightarrow> bool" where
  "valid_name n \<longleftrightarrow> validateName n = Inr ()"

lemma validateName_Inr: "validateName n = Inr u \<longleftrightarrow> valid_name n"
  by (simp add: valid_name_def)

lemma slug_plain: "list_all slug_char n \<Longrightarrow> n \<noteq> '''' \<Longrightarrow> plain n"
proof -
  assume s: "list_all slug_char n" and ne: "n \<noteq> ''''"
  have "\<not> slug_char slash" "\<not> slug_char (CHR ''.'')" by (simp_all add: slug_char_def alnum_def slash_def less_eq_char_def)
  with s ne show ?thesis by (auto simp: plain_def list_all_iff)
qed

lemma valid_name_plain: "valid_name n \<Longrightarrow> plain n"
  by (auto simp: valid_name_def validateName_def nameRegexp_def intro: slug_plain split: if_splits)

lemma file_elems_plain: "plain servicesDir" "plain keyFileName" "plain legacyKey" "valid_name NodeService"
  by (simp_all add: plain_def servicesDir_def keyFileName_def legacyKey_def slash_def NodeService_def
      valid_name_def validateName_def nameRegexp_def slug_char_def alnum_def less_eq_char_def)

lemma keyPath_inj:
  assumes "valid_name m" "valid_name n"
  shows "keyPath dir m = keyPath dir n \<longleftrightarrow> m = n"
  unfolding keyPath_def using assms file_elems_plain valid_name_plain by (subst join_all_plain_inj) auto

lemma legacy_not_key:
  assumes "valid_name n"
  shows "join_all [dir, legacyKey] \<noteq> keyPath dir n"
  unfolding keyPath_def using assms file_elems_plain valid_name_plain by (subst join_all_plain_inj) auto

section \<open>A stored identity\<close>

text \<open>What is relied on of the random source: the lengths it is asked for.\<close>

definition rand_widths :: "ks_io \<Rightarrow> bool" where
  "rand_widths io \<longleftrightarrow>
     (\<forall>b. gen_seed io = Inr b \<longrightarrow> length b = SeedSize) \<and>
     (\<forall>b. salt_rand io = Inr b \<longrightarrow> length b = saltSize) \<and>
     (\<forall>b. nonce_rand io = Inr b \<longrightarrow> length b = nonceSize)"

definition stored :: "kex \<Rightarrow> argon \<Rightarrow> keystore \<Rightarrow> disk \<Rightarrow> string \<Rightarrow> keypair \<Rightarrow> bool" where
  "stored X argon ks d name kp \<longleftrightarrow>
     (\<exists>data. d (keyPath (ks_dir ks) name) = Some data \<and> open_key_file X argon (passphrase ks) data = Inr kp)"

definition keeps :: "kex \<Rightarrow> argon \<Rightarrow> keystore \<Rightarrow> disk \<Rightarrow> string \<Rightarrow> keypair \<Rightarrow> bool" where
  "keeps X argon ks d name kp \<longleftrightarrow> stored X argon ks d name kp \<and> cache ks name \<in> {None, Some kp}"

lemma storedD: "stored X argon ks d name kp \<Longrightarrow> existsOnDisk d (keyPath (ks_dir ks) name)"
  by (auto simp: stored_def existsOnDisk_def)

lemma stored_load:
  "stored X argon ks d name kp \<Longrightarrow> loadFromDisk X argon io ks d name = Inr kp' \<Longrightarrow> kp' = kp"
  by (auto simp: stored_def loadFromDisk_def split: sum.splits)

lemma stored_cong:
  "\<lbrakk> stored X argon ks d name kp; d' (keyPath (ks_dir ks) name) = d (keyPath (ks_dir ks) name);
     ks_dir ks' = ks_dir ks; passphrase ks' = passphrase ks \<rbrakk> \<Longrightarrow> stored X argon ks' d' name kp"
  by (simp add: stored_def)

lemma Generate_wf:
  "\<lbrakk> ed25519_keys E; length seed = SeedSize; Generate E (Inr seed) = Inr kp \<rbrakk> \<Longrightarrow> wf_keypair kp"
  by (auto simp: Generate_def wf_keypair_def ed25519_keys_def SeedSize_def PrivateKeySize_def Let_def)

lemma saveToDisk_stores:
  assumes "gcm_correct X" "wf_keypair kp" "rand_widths io" "saveToDisk X argon io ks d name kp = (d', Inr u)"
  shows "stored X argon ks d' name kp"
proof -
  obtain salt nonce where r: "salt_rand io = Inr salt" "nonce_rand io = Inr nonce"
    and ok: "NewCipher_ok (argon (passphrase ks) salt)"
    and d': "d' = d(keyPath (ks_dir ks) name \<mapsto> salt @ nonce @ gcm_seal X (argon (passphrase ks) salt) nonce (MarshalPrivate kp))"
    using assms(4)
    by (auto simp: saveToDisk_def WriteFile_def Let_def split: sum.splits if_splits write_out.splits option.splits)
  have "length salt = saltSize" "length nonce = nonceSize" using assms(3) r by (auto simp: rand_widths_def)
  then show ?thesis
    using ok assms(1) Unmarshal_Marshal_Private[OF assms(2)]
    by (simp add: stored_def d' open_key_file_def gcm_correct_def Let_def)
qed

lemma saveToDisk_frame:
  "saveToDisk X argon io ks d name kp = (d', r) \<Longrightarrow> p \<noteq> keyPath (ks_dir ks) name \<Longrightarrow> d' p = d p"
  by (auto simp: saveToDisk_def WriteFile_def Let_def split: sum.splits if_splits write_out.splits option.splits)

lemma generate_new_cases:
  assumes "generate_new X argon E io ks d name = (ks', d', r)"
  obtains (failed) e where "r = Inl e" "ks' = ks" "\<And>p. p \<noteq> keyPath (ks_dir ks) name \<Longrightarrow> d' p = d p"
  | (made) kp where "r = Inr kp" "ks' = ks\<lparr>cache := (cache ks)(name \<mapsto> kp)\<rparr>"
      "Generate E (gen_seed io) = Inr kp" "saveToDisk X argon io ks d name kp = (d', Inr ())"
      "\<And>p. p \<noteq> keyPath (ks_dir ks) name \<Longrightarrow> d' p = d p"
proof (cases "Generate E (gen_seed io)")
  case (Inl e)
  then show thesis using assms by (intro failed[of e]) (simp_all add: generate_new_def)
next
  case (Inr kp)
  obtain d1 r1 where s: "saveToDisk X argon io ks d name kp = (d1, r1)" by fastforce
  then show thesis using assms Inr failed made[of kp] saveToDisk_frame[OF s] by (cases r1) (auto simp: generate_new_def)
qed

section \<open>Runs\<close>

text \<open>Operations on one directory with one passphrase, restarts of the daemon among them. A restart that
  fails leaves the old keystore in use.\<close>

datatype ks_op =
    OGet ks_io string | OGenerate ks_io string | OGetOrGenerate ks_io string | ORemove ks_io string | ORestart ks_io

definition ks_step :: "kex \<Rightarrow> argon \<Rightarrow> ed25519 \<Rightarrow> keystore \<times> disk \<Rightarrow> ks_op \<Rightarrow> keystore \<times> disk" where
  "ks_step X argon E = (\<lambda>(ks, d) oper. case oper of
       OGet io n \<Rightarrow> (fst (ks_Get X argon io ks d n), d)
     | OGenerate io n \<Rightarrow> (case ks_Generate X argon E io ks d n of (ks', d', _) \<Rightarrow> (ks', d'))
     | OGetOrGenerate io n \<Rightarrow> (case GetOrGenerate X argon E io ks d n of (ks', d', _) \<Rightarrow> (ks', d'))
     | ORemove io n \<Rightarrow> (case ks_Remove io ks d n of (ks', d', _) \<Rightarrow> (ks', d'))
     | ORestart io \<Rightarrow> (case NewKeystore io d (ks_dir ks) (passphrase ks) of
           (d', Inl e) \<Rightarrow> (ks, d') | (d', Inr ks') \<Rightarrow> (ks', d')))"

fun removes :: "string \<Rightarrow> ks_op \<Rightarrow> bool" where
  "removes name (ORemove io n) = (n = name)"
| "removes name _ = False"

lemma keeps_generate:
  assumes "keeps X argon ks d name kp" "valid_name name" "valid_name n" "n \<noteq> name"
    and "generate_new X argon E io ks d n = (ks', d', r)"
  shows "keeps X argon ks' d' name kp"
  using assms(5)
proof (cases rule: generate_new_cases)
  case (failed e)
  then have "d' (keyPath (ks_dir ks) name) = d (keyPath (ks_dir ks) name)" using assms(2-4) keyPath_inj by metis
  with failed(2) assms(1) show ?thesis by (auto simp: keeps_def intro: stored_cong)
next
  case (made k)
  then have "d' (keyPath (ks_dir ks) name) = d (keyPath (ks_dir ks) name)" using assms(2-4) keyPath_inj by metis
  with made(2) assms(1,4) show ?thesis by (auto simp: keeps_def intro: stored_cong)
qed

lemma keeps_Get: "keeps X argon ks d name kp \<Longrightarrow> keeps X argon (fst (ks_Get X argon io ks d n)) d name kp"
  by (auto simp: keeps_def ks_Get_def intro: stored_cong dest: stored_load split: sum.splits option.splits)

lemma keeps_Generate:
  assumes "keeps X argon ks d name kp" "valid_name name" "ks_Generate X argon E io ks d n = (ks', d', r)"
  shows "keeps X argon ks' d' name kp"
proof (cases "ks' = ks \<and> d' = d")
  case False
  then have new: "generate_new X argon E io ks d n = (ks', d', r)" "valid_name n" "\<not> existsOnDisk d (keyPath (ks_dir ks) n)"
    using assms(3) by (auto simp: ks_Generate_def validateName_Inr split: sum.splits if_splits)
  then have "n \<noteq> name" using assms(1) storedD by (auto simp: keeps_def)
  with keeps_generate[OF assms(1,2)] new show ?thesis by blast
qed (use assms(1) in simp)

lemma keeps_GetOrGenerate:
  assumes "keeps X argon ks d name kp" "valid_name name" "GetOrGenerate X argon E io ks d n = (ks', d', r)"
  shows "keeps X argon ks' d' name kp"
proof -
  consider (same) "ks' = ks" "d' = d"
    | (loaded) k where "loadFromDisk X argon io ks d n = Inr k" "ks' = ks\<lparr>cache := (cache ks)(n \<mapsto> k)\<rparr>" "d' = d"
    | (new) "generate_new X argon E io ks d n = (ks', d', r)" "valid_name n" "\<not> existsOnDisk d (keyPath (ks_dir ks) n)"
  proof (cases "valid_name n \<and> cache ks n = None")
    case True
    then have v: "validateName n = Inr ()" "cache ks n = None" by (auto simp: valid_name_def)
    show thesis
    proof (cases "existsOnDisk d (keyPath (ks_dir ks) n)")
      case True
      note res = assms(3)[unfolded GetOrGenerate_def v sum.case option.case, simplified True if_True]
      show thesis
      proof (cases "loadFromDisk X argon io ks d n")
        case (Inl e)
        with res show thesis by (intro same) simp_all
      next
        case (Inr k)
        with res show thesis by (intro loaded[of k]) simp_all
      qed
    next
      case False
      with assms(3) v new show thesis by (simp add: GetOrGenerate_def valid_name_def)
    qed
  next
    case False
    then have "ks' = ks \<and> d' = d"
      using assms(3) by (cases "validateName n") (auto simp: GetOrGenerate_def valid_name_def)
    with same show thesis by simp
  qed
  then show ?thesis
  proof cases
    case same
    with assms(1) show ?thesis by simp
  next
    case loaded
    with assms(1) show ?thesis by (auto simp: keeps_def intro: stored_cong dest: stored_load)
  next
    case new
    then have "n \<noteq> name" using assms(1) storedD by (auto simp: keeps_def)
    with keeps_generate[OF assms(1,2)] new show ?thesis by blast
  qed
qed

lemma keeps_Remove:
  assumes "keeps X argon ks d name kp" "valid_name name" "n \<noteq> name" "ks_Remove io ks d n = (ks', d', r)"
  shows "keeps X argon ks' d' name kp"
proof (cases "ks' = ks \<and> d' = d")
  case False
  then have "valid_name n" "ks' = ks\<lparr>cache := (cache ks)(n := None)\<rparr>" "d' = d(keyPath (ks_dir ks) n := None)"
    using assms(4) by (auto simp: ks_Remove_def validateName_Inr Let_def split: sum.splits if_splits)
  moreover from this(1) have "keyPath (ks_dir ks) n \<noteq> keyPath (ks_dir ks) name" using assms(2,3) keyPath_inj by metis
  ultimately show ?thesis using assms(1,3) by (auto simp: keeps_def intro!: stored_cong[of X argon ks d name kp])
qed (use assms(1) in simp)

lemma migrateLegacy_frame:
  assumes "migrateLegacy io ks d = (d', r)" "valid_name name" "existsOnDisk d (keyPath (ks_dir ks) name)"
  shows "d' (keyPath (ks_dir ks) name) = d (keyPath (ks_dir ks) name)"
  using assms legacy_not_key[OF assms(2), of "ks_dir ks"] keyPath_inj[OF assms(2) file_elems_plain(4), of "ks_dir ks"]
  by (auto simp: migrateLegacy_def existsOnDisk_def Let_def split: option.splits if_splits sum.splits)

lemma keeps_restart:
  assumes "keeps X argon ks d name kp" "valid_name name" "NewKeystore io d (ks_dir ks) (passphrase ks) = (d', r)"
  shows "case r of Inl e \<Rightarrow> keeps X argon ks d' name kp | Inr ks' \<Rightarrow> keeps X argon ks' d' name kp"
proof -
  let ?new = "\<lparr>ks_dir = ks_dir ks, passphrase = passphrase ks, cache = Map.empty\<rparr>"
  obtain d1 r1 where m: "migrateLegacy io ?new d = (d1, r1)" by fastforce
  have d1: "d' = d1" "\<And>k. r = Inr k \<Longrightarrow> k = ?new" using assms(3) m by (auto simp: NewKeystore_def Let_def split: sum.splits)
  have "existsOnDisk d (keyPath (ks_dir ks) name)" using assms(1) storedD by (auto simp: keeps_def)
  then have "d1 (keyPath (ks_dir ks) name) = d (keyPath (ks_dir ks) name)"
    using migrateLegacy_frame[OF m assms(2)] by simp
  then show ?thesis using assms(1) d1 by (cases r) (auto simp: keeps_def intro: stored_cong)
qed

lemma keeps_step:
  assumes "keeps X argon ks d name kp" "valid_name name" "\<not> removes name oper" "ks_step X argon E (ks, d) oper = (ks', d')"
  shows "keeps X argon ks' d' name kp"
proof (cases oper)
  case (OGet io n)
  with assms keeps_Get show ?thesis by (auto simp: ks_step_def)
next
  case (OGenerate io n)
  with assms keeps_Generate show ?thesis by (auto simp: ks_step_def split: prod.splits)
next
  case (OGetOrGenerate io n)
  with assms keeps_GetOrGenerate show ?thesis by (auto simp: ks_step_def split: prod.splits)
next
  case (ORemove io n)
  with assms keeps_Remove show ?thesis by (auto simp: ks_step_def split: prod.splits)
next
  case (ORestart io)
  obtain d1 r where n: "NewKeystore io d (ks_dir ks) (passphrase ks) = (d1, r)" by fastforce
  with ORestart assms(4) keeps_restart[OF assms(1,2) n] show ?thesis by (cases r) (auto simp: ks_step_def)
qed

lemma keeps_run:
  "\<lbrakk> keeps X argon ks d name kp; valid_name name; list_all (\<lambda>oper. \<not> removes name oper) ops;
     foldl (ks_step X argon E) (ks, d) ops = (ks', d') \<rbrakk> \<Longrightarrow> keeps X argon ks' d' name kp"
proof (induction ops arbitrary: ks d)
  case (Cons oper ops)
  obtain ks1 d1 where s: "ks_step X argon E (ks, d) oper = (ks1, d1)" by fastforce
  with Cons keeps_step[OF Cons.prems(1,2) _ s] show ?case by auto
qed simp

text \<open>C25: Identities are persistent. A key pair that \<open>Generate\<close> made for a valid name is the one every
  later \<open>Get\<close> of that name returns, and \<open>GetOrGenerate\<close> too: after any sequence of operations on any
  names, failing writes, restarts with the same directory and passphrase and the migration of a legacy key,
  as long as the name itself is not removed. A second \<open>Generate\<close> of the name is refused.\<close>

theorem identity_persists:
  assumes prims: "gcm_correct X" "ed25519_keys E" and rand: "rand_widths io"
    and gen: "ks_Generate X argon E io ks d name = (ks1, d1, Inr kp)"
    and ops: "list_all (\<lambda>oper. \<not> removes name oper) ops" "foldl (ks_step X argon E) (ks1, d1) ops = (ks2, d2)"
    and read: "os_read io2 = Inr ()"
  shows "snd (ks_Get X argon io2 ks2 d2 name) = Inr kp \<and>
     snd (snd (GetOrGenerate X argon E io2 ks2 d2 name)) = Inr kp \<and>
     ks_Generate X argon E io3 ks2 d2 name = (ks2, d2, Inl ErrAlreadyExists) \<and> Has ks2 d2 name"
proof -
  have v: "valid_name name" and gn: "generate_new X argon E io ks d name = (ks1, d1, Inr kp)"
    using gen by (auto simp: ks_Generate_def validateName_Inr split: sum.splits if_splits)
  have "keeps X argon ks1 d1 name kp" using gn
  proof (cases rule: generate_new_cases)
    case (made k)
    then obtain seed where "gen_seed io = Inr seed" by (auto simp: Generate_def split: sum.splits)
    with made rand prims(2) have "wf_keypair kp" using Generate_wf by (auto simp: rand_widths_def)
    with made saveToDisk_stores[OF prims(1) _ rand] have "stored X argon ks d1 name kp" by auto
    with made show ?thesis by (auto simp: keeps_def intro: stored_cong)
  qed simp
  then have k: "keeps X argon ks2 d2 name kp" using keeps_run v ops by blast
  then have ex: "existsOnDisk d2 (keyPath (ks_dir ks2) name)" using storedD by (auto simp: keeps_def)
  have "loadFromDisk X argon io2 ks2 d2 name = Inr kp" using k read by (auto simp: keeps_def stored_def loadFromDisk_def)
  with k v ex show ?thesis
    by (auto simp: keeps_def ks_Get_def GetOrGenerate_def ks_Generate_def Has_def valid_name_def split: option.splits)
qed

section \<open>A concrete keystore\<close>

definition demo_ks_io :: ks_io where
  "demo_ks_io = \<lparr>gen_seed = Inr (replicate 32 1), salt_rand = Inr (replicate 16 2), nonce_rand = Inr (replicate 12 3),
     os_read = Inr (), os_mkdir = Inr (), os_write = WOk, os_rename = Inr (), os_remove = Inr ()\<rparr>"

definition demo_argon :: argon where
  "demo_argon p s = copy_fixed 32 s"

definition demo_ks :: keystore where
  "demo_ks = \<lparr>ks_dir = ''/home/u/.ensemble'', passphrase = ''pw'', cache = Map.empty\<rparr>"

lemma demo_generates:
  "\<exists>ks1 d1. ks_Generate demo_kex demo_argon demo_ed25519 demo_ks_io demo_ks Map.empty ''node'' =
     (ks1, d1, Inr \<lparr>pub = replicate 32 1, priv = replicate 32 1 @ replicate 32 1\<rparr>)"
  using file_elems_plain(4)
  by (simp add: NodeService_def valid_name_def ks_Generate_def demo_ks_def existsOnDisk_def generate_new_def Generate_def
      demo_ks_io_def demo_ed25519_def saveToDisk_def demo_argon_def NewCipher_ok_def WriteFile_def ed_public_def Let_def)

theorem identity_persists_witness:
  "\<exists>ks1 d1 ks2 d2.
     foldl (ks_step demo_kex demo_argon demo_ed25519) (ks1, d1)
       [ORestart demo_ks_io, OGenerate demo_ks_io ''node'', ORemove demo_ks_io ''other''] = (ks2, d2) \<and>
     snd (ks_Get demo_kex demo_argon demo_ks_io ks2 d2 ''node'') =
       Inr \<lparr>pub = replicate 32 1, priv = replicate 32 1 @ replicate 32 1\<rparr>"
proof -
  obtain ks1 d1 where g: "ks_Generate demo_kex demo_argon demo_ed25519 demo_ks_io demo_ks Map.empty ''node'' =
     (ks1, d1, Inr \<lparr>pub = replicate 32 1, priv = replicate 32 1 @ replicate 32 1\<rparr>)"
    using demo_generates by blast
  let ?ops = "[ORestart demo_ks_io, OGenerate demo_ks_io ''node'', ORemove demo_ks_io ''other'']"
  obtain ks2 d2 where r: "foldl (ks_step demo_kex demo_argon demo_ed25519) (ks1, d1) ?ops = (ks2, d2)"
    by (cases "foldl (ks_step demo_kex demo_argon demo_ed25519) (ks1, d1) ?ops")
  have w: "rand_widths demo_ks_io" "list_all (\<lambda>oper. \<not> removes ''node'' oper) ?ops" "os_read demo_ks_io = Inr ()"
    by (simp_all add: rand_widths_def demo_ks_io_def SeedSize_def saltSize_def nonceSize_def)
  from identity_persists[OF demo_kex_correct(1) demo_params(3) w(1) g w(2) r w(3), of demo_ks_io] r show ?thesis by blast
qed

end
