(* ===== verification/Signaling_Props.thy ===== *)
theory Signaling_Props
  imports Signaling
begin

text \<open>
  What the signaling layer guarantees: a request is answered at most once, key material leaves a service
  only by consent, each side's result carries a proof of the other's address, an honest run completes, the
  confirmation does not bind the peer it was made for, and the lifecycle of the server's accept loops.
\<close>

section \<open>The responder, branch by branch\<close>

text \<open>The consent that lets a request through.\<close>

definition consents :: "service_config \<Rightarrow> responder_io \<Rightarrow> string \<Rightarrow> bool" where
  "consents c io from_addr \<longleftrightarrow>
     (\<exists>known. cfg_Contacts c = Some known \<and> known from_addr) \<or>
     cfg_OnRequest c \<and> (\<exists>d. user_decision io = Some d \<and> dec_Accepted d)"

lemma decide_consents: "dec_Accepted (decide c io a) \<longleftrightarrow> consents c io a"
  by (auto simp: decide_def askUser_def consents_def split: option.splits)

text \<open>The handler is decided by the outcome of validation; after it the server has changed only in its
  nonce cache.\<close>

lemma handler_cases:
  assumes "handleEnvelopeForService H E s c kp io t decoded = (s', resps, out)"
  obtains
    (ignored) "t \<noteq> CONN_REQUEST" "s' = s" "resps = []" "out = HIgnored"
  | (invalid) nc' e where "t = CONN_REQUEST"
      "(case rq_times io of (t1, t2, t3) \<Rightarrow> ValidateConnRequest t1 t2 t3 (nc s) decoded) = (nc', Inl e)"
      "s' = s\<lparr>nc := nc'\<rparr>" "resps = []" "out = HInvalid e"
  | (valid) nc' req where "t = CONN_REQUEST" "decoded = Some req"
      "(case rq_times io of (t1, t2, t3) \<Rightarrow> ValidateConnRequest t1 t2 t3 (nc s) decoded) = (nc', Inr req)"
      "s' = s\<lparr>nc := nc'\<rparr>"
      "resps \<noteq> [] \<Longrightarrow> TargetAddress req = cfg_Address c"
      "\<And>r. r \<in> set resps \<Longrightarrow> resps = [r] \<and> Accepted r = consents c io (FromAddress req)"
      "\<And>r. r \<in> set resps \<Longrightarrow> \<not> Accepted r \<Longrightarrow>
         rs_PubKey r = [] \<and> rs_Signature r = [] \<and> rs_Nonce r = [] \<and> out = HRejected"
      "\<And>r. r \<in> set resps \<Longrightarrow> Accepted r \<Longrightarrow>
         rs_PubKey r = PublicKey kp \<and> rs_Signature r = Sign E kp (rq_Nonce req) \<and>
         rsp_rand io = Inr (rs_Nonce r) \<and> out = await_confirm H E c io req (rs_Nonce r)"
      "resps = [] \<Longrightarrow> out \<in> {HNotForUs, HNoResponse}"
proof (cases "t = CONN_REQUEST")
  case False
  with assms ignored show thesis by (simp add: handleEnvelopeForService_def)
next
  case True
  obtain t1 t2 t3 where ts: "rq_times io = (t1, t2, t3)" by (metis prod_cases3)
  obtain nc' r where v: "ValidateConnRequest t1 t2 t3 (nc s) decoded = (nc', r)" by fastforce
  show thesis
  proof (cases r)
    case (Inl e)
    with assms True ts v show thesis
      by (intro invalid[of nc' e]) (simp_all add: handleEnvelopeForService_def)
  next
    case (Inr req)
    have dec: "decoded = Some req" using ValidateConnRequest_ok(1) v Inr by blast
    note h = assms[unfolded handleEnvelopeForService_def ts prod.case v Inr sum.case Let_def]
    show thesis
      using True dec ts v Inr h
      by (intro valid[of req nc'])
        (auto simp: CreateConnResponse_def GenerateNonce_def decide_consents Let_def
          split: if_splits sum.splits prod.splits)
  qed
qed

lemma await_confirm_authenticated:
  assumes "await_confirm H E c io req n \<in> {HConfirmed pk, HExchange pk}"
  obtains cf where "confirm_read io = Inr (CONN_CONFIRM, Some cf)" "cf_PubKey cf = pk"
    "proves H E pk (cf_Signature cf) (FromAddress req) n"
proof -
  obtain m where m: "confirm_read io = Inr (CONN_CONFIRM, m)"
    using assms by (auto simp: await_confirm_def split: sum.splits if_splits)
  obtain r where r: "ValidateConnConfirm H E m n (FromAddress req) = Inr r" "cf_PubKey r = pk"
    using assms m by (auto simp: await_confirm_def split: sum.splits if_splits)
  then obtain cf where "m = Some cf" by (cases m) (auto simp: ValidateConnConfirm_def)
  with r m that show thesis by (auto simp: ValidateConnConfirm_ok)
qed

section \<open>Consent and authentication\<close>


text \<open>C18: The responder authenticates the initiator. It ends a handshake with a peer's key (and only then
  enters the IP exchange) when its own accepting response went out, and the peer answered with that key and
  a signature that verifies, under the address the request came from, on the fresh nonce of that response.\<close>

theorem responder_authenticates:
  assumes "handleEnvelopeForService H E s c kp io t decoded = (s', resps, out)"
    and "out \<in> {HConfirmed pk, HExchange pk}"
  shows "\<exists>req r cf. decoded = Some req \<and> resps = [r] \<and> Accepted r \<and>
     consents c io (FromAddress req) \<and> rsp_rand io = Inr (rs_Nonce r) \<and>
     confirm_read io = Inr (CONN_CONFIRM, Some cf) \<and> cf_PubKey cf = pk \<and>
     proves H E pk (cf_Signature cf) (FromAddress req) (rs_Nonce r)"
  using assms(1)
proof (cases rule: handler_cases)
  case (valid nc' req)
  have "resps \<noteq> []" using valid(9) assms(2) by fastforce
  then obtain r where r: "r \<in> set resps" by (meson list.set_sel(1))
  have single: "resps = [r]" "Accepted r = consents c io (FromAddress req)" using valid(6)[OF r] by simp_all
  have acc: "Accepted r" using valid(7)[OF r] assms(2) by auto
  have rand: "rsp_rand io = Inr (rs_Nonce r)" and aw: "out = await_confirm H E c io req (rs_Nonce r)"
    using valid(8)[OF r acc] by simp_all
  from assms(2)[unfolded aw] obtain cf where "confirm_read io = Inr (CONN_CONFIRM, Some cf)" "cf_PubKey cf = pk"
    "proves H E pk (cf_Signature cf) (FromAddress req) (rs_Nonce r)"
    by (rule await_confirm_authenticated)
  then show ?thesis using rand single acc valid(2) by (intro exI[of _ req] exI[of _ r] exI[of _ cf]) simp
qed (use assms(2) in auto)

lemma attempt_success:
  assumes "attemptHandshake H E c io target = (ms, Inr res)"
  obtains req resp where "ms = [SentRequest req, SentConfirm (CreateConnConfirm E (cl_keypair c) (rs_Nonce resp))]"
    "resp_read io = Inr (CONN_RESPONSE, Some resp)" "Accepted resp"
    "res = \<lparr>PeerPubKey = rs_PubKey resp, PeerAddr = target\<rparr>" "in_rand io = Inr (rq_Nonce req)"
    "FromAddress req = cl_address c" "TargetAddress req = target"
    "ValidateConnResponse H E (Some resp) (rq_Nonce req) target = Inr resp"
proof -
  obtain n where n: "in_rand io = Inr n"
    using assms by (cases "in_rand io")
      (auto simp: attemptHandshake_def CreateConnRequest_def GenerateNonce_def split: sum.splits)
  obtain m where m: "resp_read io = Inr (CONN_RESPONSE, m)"
    using assms n by (auto simp: attemptHandshake_def CreateConnRequest_def GenerateNonce_def split: sum.splits if_splits)
  then obtain resp where resp: "m = Some resp"
    using assms n by (cases m)
      (auto simp: attemptHandshake_def CreateConnRequest_def GenerateNonce_def ValidateConnResponse_def
        split: sum.splits if_splits)
  obtain r where v: "ValidateConnResponse H E (Some resp) n target = Inr r"
    using assms n m resp
    by (auto simp: attemptHandshake_def CreateConnRequest_def GenerateNonce_def split: sum.splits if_splits)
  then have "r = resp" by (simp add: ValidateConnResponse_ok)
  with v that[of "\<lparr>FromAddress = cl_address c, TargetAddress = target, rq_Nonce = n, rq_Timestamp = unix_millis (in_now io)\<rparr>" resp]
    assms n m resp
  show thesis
    by (auto simp: attemptHandshake_def CreateConnRequest_def GenerateNonce_def Let_def split: sum.splits if_splits)
qed

text \<open>C19: The initiator authenticates the responder. A successful attempt has sent its request with a fresh
  nonce and a confirmation, and the key it returns matches the target address and verifies a signature on
  that nonce; the initiator's key leaves in the confirmation only, after the responder has proved its
  address.\<close>

theorem initiator_authenticates:
  assumes "attemptHandshake H E c io target = (ms, res)"
  shows "(\<forall>r. res = Inr r \<longrightarrow> PeerAddr r = target \<and>
            (\<exists>sig nonce. in_rand io = Inr nonce \<and> proves H E (PeerPubKey r) sig target nonce)) \<and>
         ((\<exists>cf. SentConfirm cf \<in> set ms) \<longleftrightarrow> (\<exists>r. res = Inr r))"
proof -
  have ok: "PeerAddr r = target \<and> (\<exists>sig nonce. in_rand io = Inr nonce \<and> proves H E (PeerPubKey r) sig target nonce) \<and>
    (\<exists>cf. SentConfirm cf \<in> set ms)" if "res = Inr r" for r
  proof (rule attempt_success[OF assms[unfolded that]])
    fix req resp
    assume "ms = [SentRequest req, SentConfirm (CreateConnConfirm E (cl_keypair c) (rs_Nonce resp))]"
      and "Accepted resp" "r = \<lparr>PeerPubKey = rs_PubKey resp, PeerAddr = target\<rparr>" "in_rand io = Inr (rq_Nonce req)"
      and "ValidateConnResponse H E (Some resp) (rq_Nonce req) target = Inr resp"
    then show ?thesis by (simp add: ValidateConnResponse_ok) blast
  qed
  have "\<exists>r. res = Inr r" if "SentConfirm cf \<in> set ms" for cf
    using assms that
    by (auto simp: attemptHandshake_def Let_def split: sum.splits if_splits prod.splits)
  with ok show ?thesis by blast
qed

section \<open>Replays\<close>

text \<open>Envelopes arriving one after another at any of the server's services; what was decoded, with the
  responses sent.\<close>

fun serve ::
  "hashes \<Rightarrow> ed25519 \<Rightarrow> server \<Rightarrow> (string \<times> responder_io \<times> msg_type \<times> conn_request option) list \<Rightarrow>
     (conn_request option \<times> conn_response list) list" where
  "serve H E s [] = []"
| "serve H E s ((name, io, t, d) # es) =
     (case HandleEnvelope_for H E s io t d name of (s', resps, _) \<Rightarrow> (d, resps) # serve H E s' es)"

definition answered :: "(conn_request option \<times> conn_response list) list \<Rightarrow> conn_request list" where
  "answered log = [req. (Some req, r # _) \<leftarrow> log]"

lemma answered_simps [simp]:
  "answered [] = []"
  "answered ((d, resps) # log) =
     (case d of Some req \<Rightarrow> if resps = [] then answered log else req # answered log | None \<Rightarrow> answered log)"
  by (auto simp: answered_def split: option.splits list.splits)

lemma serve_step:
  assumes "remembers now (nc s) seen" "now \<le> t0" "rq_times io = (t0, t0, t0)"
    and "HandleEnvelope_for H E s io t d name = (s', resps, out)"
  shows "\<exists>seen'. remembers t0 (nc s') seen' \<and> seen \<subseteq> seen' \<and>
     (resps \<noteq> [] \<longrightarrow> (\<exists>req. d = Some req \<and> req \<notin> seen \<and> req \<in> seen'))"
proof -
  note later = remembers_later[OF assms(1,2)]
  consider (quiet) "s' = s" "resps = []"
    | (run) c kp where "handleEnvelopeForService H E s c kp io t d = (s', resps, out)"
    using assms(4) by (auto simp: HandleEnvelope_for_def split: option.splits)
  then show ?thesis
  proof cases
    case quiet
    with later show ?thesis by auto
  next
    case run
    then show ?thesis
    proof (cases rule: handler_cases)
      case ignored
      with later show ?thesis by auto
    next
      case (invalid nc' e)
      with validate_step[OF assms(1,2), of d nc' "Inl e"] assms(3) show ?thesis by auto
    next
      case (valid nc' req)
      with validate_step[OF assms(1,2), of d nc' "Inr req"] assms(3)
      have "remembers t0 nc' (insert req seen)" "req \<notin> seen" by auto
      with valid(2,4) show ?thesis by (intro exI[of _ "insert req seen"]) auto
    qed
  qed
qed

lemma serve_fresh:
  "\<lbrakk> remembers now (nc s) seen; sorted (now # ts); map (\<lambda>e. rq_times (fst (snd e))) es = map (\<lambda>t. (t, t, t)) ts \<rbrakk>
     \<Longrightarrow> distinct (answered (serve H E s es)) \<and> set (answered (serve H E s es)) \<inter> seen = {}"
proof (induction es arbitrary: now s seen ts)
  case (Cons e es)
  obtain name io t d where e: "e = (name, io, t, d)" by (metis prod_cases4)
  obtain t0 ts' where ts: "ts = t0 # ts'" using Cons.prems(3) by (cases ts) auto
  obtain s' resps out where h: "HandleEnvelope_for H E s io t d name = (s', resps, out)" by (metis prod_cases3)
  have io: "rq_times io = (t0, t0, t0)" "now \<le> t0" using Cons.prems(2,3) e ts by auto
  obtain seen' where s': "remembers t0 (nc s') seen'" "seen \<subseteq> seen'"
    "resps \<noteq> [] \<longrightarrow> (\<exists>req. d = Some req \<and> req \<notin> seen \<and> req \<in> seen')"
    using serve_step[OF Cons.prems(1) io(2,1) h] by blast
  have "distinct (answered (serve H E s' es)) \<and> set (answered (serve H E s' es)) \<inter> seen' = {}"
    using Cons.prems(2,3) e ts by (intro Cons.IH[OF s'(1), of ts']) auto
  with s'(2,3) show ?case by (auto simp: e h split: option.splits)
qed simp


section \<open>An honest run\<close>

text \<open>The two sides joined: the initiator's request reaches the service, the response comes back, and the
  confirmation reaches the service.\<close>

definition run_handshake ::
  "hashes \<Rightarrow> ed25519 \<Rightarrow> client \<Rightarrow> initiator_io \<Rightarrow> string \<Rightarrow> server \<Rightarrow> service_config \<Rightarrow> keypair \<Rightarrow> responder_io \<Rightarrow>
     (attempt_error + handshake_result) \<times> hs_outcome" where
  "run_handshake H E cl cio target s c kp sio =
     (let resp_for = (\<lambda>req. fst (snd (handleEnvelopeForService H E s c kp sio CONN_REQUEST (Some req))));
          answer = (\<lambda>ms. case ms of
              SentRequest req # _ \<Rightarrow>
                (case resp_for req of [] \<Rightarrow> Inl ''EOF'' | r # _ \<Rightarrow> Inr (CONN_RESPONSE, Some r))
            | _ \<Rightarrow> Inl ''EOF'');
          ms0 = fst (attemptHandshake H E cl (cio\<lparr>resp_read := Inl ''pending''\<rparr>) target);
          (ms, res) = attemptHandshake H E cl (cio\<lparr>resp_read := answer ms0\<rparr>) target;
          heard = (case ms of [_, SentConfirm cf] \<Rightarrow> Inr (CONN_CONFIRM, Some cf) | _ \<Rightarrow> Inl ''EOF'')
      in case ms of
           SentRequest req # _ \<Rightarrow>
             (res, snd (snd (handleEnvelopeForService H E s c kp (sio\<lparr>confirm_read := heard\<rparr>) CONN_REQUEST (Some req))))
         | _ \<Rightarrow> (res, HIgnored))"

lemma millis_close:
  assumes "\<bar>t\<bar> < 2 ^ 62"
  shows "time_of_millis (unix_millis t) \<le> t" and "t - time_of_millis (unix_millis t) < 1000000"
proof -
  have b: "- (2 ^ 63) \<le> t div 1000000" "t div 1000000 < 2 ^ 63" using assms by (auto simp: abs_less_iff)
  have "sint (unix_millis t) = t div 1000000"
    unfolding unix_millis_def using b by (simp add: signed_of_int signed_take_bit_int_eq_self_iff)
  then have "time_of_millis (unix_millis t) = t div 1000000 * 1000000" by (simp add: time_of_millis_def)
  then show "time_of_millis (unix_millis t) \<le> t" "t - time_of_millis (unix_millis t) < 1000000"
    by (simp_all add: minus_div_mult_eq_mod)
qed

lemma ValidateConnRequest_accepts:
  assumes "t1 - time_of_millis (rq_Timestamp req) \<le> TimestampFreshness"
    and "time_of_millis (rq_Timestamp req) \<le> t2 + TimestampFreshness"
    and "length (rq_Nonce req) = NonceSize" "nonces (rq_Nonce req) = None"
  shows "\<exists>nc'. ValidateConnRequest t1 t2 t3 nonces (Some req) = (nc', Inr req)"
proof -
  have "\<not> time_sub t1 (time_of_millis (rq_Timestamp req)) > TimestampFreshness"
    using assms(1) time_sub_gt[of TimestampFreshness] by (simp add: TimestampFreshness_def go_time not_less)
  moreover have "prune t3 nonces (rq_Nonce req) = None" using assms(4) by (simp add: prune_def)
  ultimately show ?thesis using assms(2,3) by (simp add: ValidateConnRequest_def Check_def Let_def)
qed

lemma handler_accepts:
  assumes "ValidateConnRequest t1 t2 t3 (nc s) (Some req) = (nc', Inr req)" "rq_times io = (t1, t2, t3)"
    and "TargetAddress req = cfg_Address c" "consents c io (FromAddress req)"
    and "rsp_rand io = Inr m" "rsp_write io = Inr ()"
  shows "handleEnvelopeForService H E s c kp io CONN_REQUEST (Some req) =
     (s\<lparr>nc := nc'\<rparr>, [\<lparr>Accepted = True, rs_PubKey = PublicKey kp, rs_Signature = Sign E kp (rq_Nonce req), rs_Nonce = m, Reason = ''''\<rparr>],
      await_confirm H E c io req m)"
  using assms by (simp add: handleEnvelopeForService_def decide_consents CreateConnResponse_def GenerateNonce_def Let_def)

lemma consents_confirm_read [simp]: "consents c (io\<lparr>confirm_read := x\<rparr>) a = consents c io a"
  by (simp add: consents_def)

text \<open>The confirmation of an honest party, read by a responder.\<close>

lemma await_honest_confirm:
  assumes "ed25519_keys E" "ed25519_correct E" "FromSeed E seed = Inr kp" "hash_widths H" "base58_inverse H"
    and "FromAddress req = DeriveAddress H (PublicKey kp)"
    and "confirm_read io = Inr (CONN_CONFIRM, Some (CreateConnConfirm E kp m))"
  shows "await_confirm H E c io req m =
     (if cfg_LocalAddrs c = None then HConfirmed (PublicKey kp) else HExchange (PublicKey kp))"
proof -
  have pv: "proves H E (PublicKey kp) (Sign E kp m) (FromAddress req) m"
    using FromSeed_proves[OF assms(1-5)] assms(6) by simp
  then have "PublicKey kp \<noteq> []" by (auto simp: proves_def)
  moreover have "ValidateConnConfirm H E (Some (CreateConnConfirm E kp m)) m (FromAddress req) = Inr (CreateConnConfirm E kp m)"
    using pv by (simp add: ValidateConnConfirm_ok CreateConnConfirm_def)
  ultimately show ?thesis using assms(7) by (simp add: await_confirm_def CreateConnConfirm_def)
qed

text \<open>An accepting response of an honest responder carries the initiator's attempt through.\<close>

lemma attempt_honest_response:
  assumes "ed25519_keys E" "ed25519_correct E" "FromSeed E seed = Inr kp" "hash_widths H" "base58_inverse H"
    and "in_dial io = Inr ()" "in_rand io = Inr n" "in_write1 io = Inr ()" "in_write2 io = Inr ()"
    and "length m = 32" "target = DeriveAddress H (PublicKey kp)"
    and "resp_read io = Inr (CONN_RESPONSE, Some \<lparr>Accepted = True, rs_PubKey = PublicKey kp, rs_Signature = Sign E kp n,
           rs_Nonce = m, Reason = why\<rparr>)"
  shows "attemptHandshake H E cl io target =
     ([SentRequest \<lparr>FromAddress = cl_address cl, TargetAddress = target, rq_Nonce = n, rq_Timestamp = unix_millis (in_now io)\<rparr>,
       SentConfirm (CreateConnConfirm E (cl_keypair cl) m)], Inr \<lparr>PeerPubKey = PublicKey kp, PeerAddr = target\<rparr>)"
proof -
  let ?r = "\<lparr>Accepted = True, rs_PubKey = PublicKey kp, rs_Signature = Sign E kp n, rs_Nonce = m, Reason = why\<rparr>"
  have "ValidateConnResponse H E (Some ?r) n target = Inr ?r"
    using FromSeed_proves[OF assms(1-5)] assms(10,11) by (simp add: ValidateConnResponse_ok)
  then show ?thesis
    using assms(6-9,12) by (simp add: attemptHandshake_def CreateConnRequest_def GenerateNonce_def Let_def)
qed

text \<open>C21: An honest handshake completes. A client and a service with key pairs made from seeds, whose
  clocks differ by less than five minutes, on a connection that works, with a request nonce the server has
  not seen and with consent: the client ends with the service's public key, the service with the client's,
  and the service enters the IP exchange exactly when it has local addresses to offer.\<close>

theorem honest_handshake_completes:
  assumes prims: "ed25519_keys E" "ed25519_correct E" "hash_widths H" "base58_inverse H"
    and keys: "FromSeed E sa = Inr ka" "FromSeed E sb = Inr kb"
    and cl: "cl = \<lparr>cl_keypair = ka, cl_address = DeriveAddress H (PublicKey ka)\<rparr>"
    and svc: "cfg_Address c = DeriveAddress H (PublicKey kb)" "consents c sio (cl_address cl)"
    and cio: "in_dial cio = Inr ()" "in_rand cio = Inr n" "in_write1 cio = Inr ()" "in_write2 cio = Inr ()"
    and sio: "rsp_rand sio = Inr m" "rsp_write sio = Inr ()" "rq_times sio = (t1, t2, t3)"
    and nonces: "length n = NonceSize" "length m = NonceSize" "nc s n = None"
    and clocks: "\<bar>in_now cio\<bar> < 2 ^ 62" "t1 - in_now cio \<le> TimestampFreshness - 1000000"
      "in_now cio - t2 \<le> TimestampFreshness"
  shows "run_handshake H E cl cio (cfg_Address c) s c kb sio =
     (Inr \<lparr>PeerPubKey = PublicKey kb, PeerAddr = cfg_Address c\<rparr>,
      if cfg_LocalAddrs c = None then HConfirmed (PublicKey ka) else HExchange (PublicKey ka))"
proof -
  let ?req = "\<lparr>FromAddress = cl_address cl, TargetAddress = cfg_Address c, rq_Nonce = n, rq_Timestamp = unix_millis (in_now cio)\<rparr>"
  let ?resp = "\<lparr>Accepted = True, rs_PubKey = PublicKey kb, rs_Signature = Sign E kb n, rs_Nonce = m, Reason = ''''\<rparr>"
  let ?cf = "CreateConnConfirm E ka m"
  obtain nc' where v: "ValidateConnRequest t1 t2 t3 (nc s) (Some ?req) = (nc', Inr ?req)"
    using ValidateConnRequest_accepts[of t1 ?req t2 "nc s" t3] millis_close[OF clocks(1)] clocks(2,3) nonces by auto
  have h: "handleEnvelopeForService H E s c kb io CONN_REQUEST (Some ?req) = (s\<lparr>nc := nc'\<rparr>, [?resp], await_confirm H E c io ?req m)"
    if "rq_times io = rq_times sio" "rsp_rand io = rsp_rand sio" "rsp_write io = rsp_write sio" "consents c io (cl_address cl)" for io
    using that by (intro handler_accepts[OF v, simplified]) (auto simp: sio)
  note hs = h[of sio, OF refl refl refl svc(2)]
    h[of "sio\<lparr>confirm_read := Inr (CONN_CONFIRM, Some ?cf)\<rparr>", simplified, OF svc(2)]
  have first: "\<exists>e. attemptHandshake H E cl (cio\<lparr>resp_read := Inl ''pending''\<rparr>) (cfg_Address c) = ([SentRequest ?req], e)"
    using cio by (simp add: attemptHandshake_def CreateConnRequest_def GenerateNonce_def)
  have second: "attemptHandshake H E cl (cio\<lparr>resp_read := Inr (CONN_RESPONSE, Some ?resp)\<rparr>) (cfg_Address c) =
      ([SentRequest ?req, SentConfirm ?cf], Inr \<lparr>PeerPubKey = PublicKey kb, PeerAddr = cfg_Address c\<rparr>)"
    using attempt_honest_response[OF prims(1,2) keys(2) prims(3,4)] cio nonces(2) svc(1) cl by (simp add: NonceSize_def)
  have aw: "await_confirm H E c (sio\<lparr>confirm_read := Inr (CONN_CONFIRM, Some ?cf)\<rparr>) ?req m =
      (if cfg_LocalAddrs c = None then HConfirmed (PublicKey ka) else HExchange (PublicKey ka))"
    using cl by (intro await_honest_confirm[OF prims(1,2) keys(1) prims(3,4)]) simp_all
  show ?thesis
    using first hs second aw by (auto simp: run_handshake_def Let_def)
qed

text \<open>C22: The confirmation is not bound to the peer it is made for. A client A that attempts a handshake with
  M's own address signs whatever nonce M returns. If M meanwhile asks a service B, in A's name, and returns
  B's nonce as its own, A's confirmation ends B's handshake with A's key: B has authenticated A although A
  never addressed B.\<close>

theorem confirmation_not_bound:
  assumes prims: "ed25519_keys E" "ed25519_correct E" "hash_widths H" "base58_inverse H"
    and keys: "FromSeed E sa = Inr ka" "FromSeed E sm = Inr km"
    and a: "cl_keypair a = ka" "cl_address a = DeriveAddress H (PublicKey ka)"
    and aio: "in_dial aio = Inr ()" "in_rand aio = Inr n" "in_write1 aio = Inr ()" "in_write2 aio = Inr ()"
      "resp_read aio = Inr (CONN_RESPONSE, Some \<lparr>Accepted = True, rs_PubKey = PublicKey km,
         rs_Signature = Sign E km n, rs_Nonce = m, Reason = ''''\<rparr>)"
    and b: "consents c bio (cl_address a)" "rsp_rand bio = Inr m" "rsp_write bio = Inr ()" "length m = NonceSize"
      "confirm_read bio = Inr (CONN_CONFIRM, Some cf)" "rq_times bio = (t1, t2, t3)"
    and relay: "req = \<lparr>FromAddress = cl_address a, TargetAddress = cfg_Address c, rq_Nonce = n', rq_Timestamp = ts\<rparr>"
      "ValidateConnRequest t1 t2 t3 (nc s) (Some req) = (nc', Inr req)"
    and sent: "SentConfirm cf \<in> set (fst (attemptHandshake H E a aio (DeriveAddress H (PublicKey km))))"
  shows "snd (snd (handleEnvelopeForService H E s c kb bio CONN_REQUEST (Some req))) \<in>
     {HConfirmed (PublicKey ka), HExchange (PublicKey ka)}"
proof -
  have att: "fst (attemptHandshake H E a aio (DeriveAddress H (PublicKey km))) =
      [SentRequest \<lparr>FromAddress = cl_address a, TargetAddress = DeriveAddress H (PublicKey km), rq_Nonce = n,
         rq_Timestamp = unix_millis (in_now aio)\<rparr>, SentConfirm (CreateConnConfirm E ka m)]"
    using attempt_honest_response[OF prims(1,2) keys(2) prims(3,4) aio(1-4) _ refl aio(5)] b(4) a(1)
    by (simp add: NonceSize_def)
  then have "cf = CreateConnConfirm E ka m" using sent by simp
  then have "await_confirm H E c bio req m \<in> {HConfirmed (PublicKey ka), HExchange (PublicKey ka)}"
    using await_honest_confirm[OF prims(1,2) keys(1) prims(3,4), of req bio m c] b(5) relay(1) a(2) by simp
  moreover have "snd (snd (handleEnvelopeForService H E s c kb bio CONN_REQUEST (Some req))) = await_confirm H E c bio req m"
    using handler_accepts[OF relay(2) b(6) _ _ b(2,3), of c] relay(1) b(1) by simp
  ultimately show ?thesis by simp
qed

section \<open>Retries\<close>

lemma request_loop_spec:
  "\<lbrakk> request_loop att ctx_err woken [k..<k + d] e0 = (n, ws, res); d > 0 \<rbrakk> \<Longrightarrow>
     1 \<le> n \<and> n \<le> d \<and> res = att (k + n - 1) \<and> length ws \<in> {n - 1, n} \<and>
     ws = map (\<lambda>j. RetryBackoff * 2 ^ j) [k..<k + length ws] \<and>
     (\<forall>j. k \<le> j \<and> j < k + n - 1 \<longrightarrow> (\<exists>why. att j = Inl (Transient why)) \<and> \<not> ctx_err j \<and> \<not> woken j) \<and>
     (n < d \<longrightarrow> (\<exists>r. res = Inr r) \<or> (\<exists>why. res = Inl (Rejected why)) \<or> ctx_err (k + n - 1) \<or> woken (k + n - 1))"
proof (induction d arbitrary: k e0 n ws res)
  case (Suc d)
  have l: "[k..<k + Suc d] = k # [Suc k..<Suc k + d]" by (simp add: upt_conv_Cons del: upt_Suc)
  note run = Suc.prems(1)[unfolded l]
  show ?case
  proof (cases "(\<exists>why. att k = Inl (Transient why)) \<and> \<not> ctx_err k \<and> \<not> woken k")
    case False
    then show ?thesis using run
      by (cases "att k") (auto simp: Let_def split: attempt_error.splits if_splits, metis+)
  next
    case True
    then obtain why where why: "att k = Inl (Transient why)" "\<not> ctx_err k" "\<not> woken k" by auto
    obtain n' ws' res' where r: "request_loop att ctx_err woken [Suc k..<Suc k + d] (Transient why) = (n', ws', res')"
      by (metis prod_cases3)
    have eq: "n = Suc n'" "ws = RetryBackoff * 2 ^ k # ws'" "res = res'"
      using run why r by (auto simp: Let_def)
    show ?thesis
    proof (cases "d = 0")
      case True
      with r why eq show ?thesis by auto
    next
      case False
      note ih = Suc.IH[OF r False[unfolded neq0_conv]]
      have "ws = map (\<lambda>j. RetryBackoff * 2 ^ j) [k..<k + length ws]"
        using ih eq(2) by (simp add: upt_conv_Cons del: upt_Suc)
      moreover have "(\<exists>why. att j = Inl (Transient why)) \<and> \<not> ctx_err j \<and> \<not> woken j" if "k \<le> j" "j < k + n - 1" for j
        using that ih why eq(1) by (cases "j = k") auto
      ultimately show ?thesis using ih eq by auto
    qed
  qed
qed simp

text \<open>Retries are bounded. Whatever the attempts return and whenever the context ends, a connection
  request makes one to three attempts and returns the result of the last; every earlier attempt failed
  transiently, so a rejection is never retried; fewer than three attempts mean success, rejection or a
  context that ended; the waits are 2, 4 and 8 seconds in this order, at most 14 seconds in all.\<close>

theorem retries_bounded:
  assumes "RequestConnection att ctx_err woken = (n, ws, res)"
  shows "1 \<le> n \<and> n \<le> 3 \<and> res = att (n - 1) \<and>
     (\<forall>j < n - 1. \<exists>why. att j = Inl (Transient why)) \<and>
     (n < 3 \<longrightarrow> (\<exists>r. res = Inr r) \<or> (\<exists>why. res = Inl (Rejected why)) \<or> ctx_err (n - 1) \<or> woken (n - 1)) \<and>
     ws = take (length ws) [2 * second, 4 * second, 8 * second] \<and> sum_list ws \<le> 14 * second"
proof -
  have "request_loop att ctx_err woken [0..<0 + 3] (Transient '''') = (n, ws, res)"
    using assms by (simp add: RequestConnection_def client_MaxRetries_def)
  note spec = request_loop_spec[OF this, simplified]
  have len: "length ws \<le> 3" using spec by auto
  have "ws = map (\<lambda>j. RetryBackoff * 2 ^ j) (take (length ws) [0..<3])" using spec len by (simp add: take_upt)
  then have ws: "ws = take (length ws) [2 * second, 4 * second, 8 * second]"
    by (simp add: take_map [symmetric] upt_rec RetryBackoff_def del: take_upt)
  have "sum_list (take k [2 * second, 4 * second, 8 * second]) \<le> 14 * second" if "k \<le> 3" for k
    using that by (auto simp: second_def take_Cons split: nat.split)
  with len ws have "sum_list ws \<le> 14 * second" by metis
  with ws spec show ?thesis by auto
qed

section \<open>Concrete runs\<close>

text \<open>Two key pairs over the demonstration primitives, a service that knows no contact and asks its user,
  and one run of each side.\<close>

definition demo_kp :: "byte \<Rightarrow> keypair" where
  "demo_kp b = \<lparr>pub = replicate 32 b, priv = replicate 64 b\<rparr>"

definition demo_peer_addr :: "byte \<Rightarrow> string" where
  "demo_peer_addr b = DeriveAddress demo_hashes (PublicKey (demo_kp b))"

definition demo_config :: service_config where
  "demo_config = \<lparr>cfg_Name = ''node'', cfg_Keypair = Some (demo_kp 2), cfg_Address = demo_peer_addr 2, cfg_Contacts = None,
     cfg_OnRequest = True, cfg_Listener = True, cfg_LocalAddrs = Some [''/ip4/10.0.0.2/udp/4001/quic-v1'']\<rparr>"

definition demo_initiator_io :: initiator_io where
  "demo_initiator_io = \<lparr>in_dial = Inr (), in_now = 1000000, in_rand = Inr (replicate 32 7), in_write1 = Inr (),
     resp_read = Inl ''pending'', in_write2 = Inr ()\<rparr>"

definition demo_responder_io :: "bool \<Rightarrow> responder_io" where
  "demo_responder_io ok = \<lparr>rq_times = (2000000, 2000000, 2000000), user_decision = Some \<lparr>dec_Accepted = ok, dec_Reason = ''busy''\<rparr>,
     rsp_rand = Inr (replicate 32 9), rsp_write = Inr (), confirm_read = Inl ''EOF''\<rparr>"

definition demo_client :: client where
  "demo_client = \<lparr>cl_keypair = demo_kp 1, cl_address = demo_peer_addr 1\<rparr>"

definition demo_request :: conn_request where
  "demo_request = \<lparr>FromAddress = demo_peer_addr 1, TargetAddress = demo_peer_addr 2, rq_Nonce = replicate 32 7, rq_Timestamp = 1\<rparr>"

lemma demo_FromSeed: "FromSeed demo_ed25519 (replicate 32 b) = Inr (demo_kp b)"
proof -
  have "replicate 64 b = replicate 32 b @ replicate 32 b" by (simp add: replicate_add [symmetric])
  then show ?thesis by (simp add: FromSeed_def SeedSize_def demo_ed25519_def ed_public_def demo_kp_def Let_def)
qed

lemma demo_fields [simp]:
  "rq_times (demo_responder_io ok) = (2000000, 2000000, 2000000)" "rsp_rand (demo_responder_io ok) = Inr (replicate 32 9)"
  "rsp_write (demo_responder_io ok) = Inr ()" "cfg_Address demo_config = demo_peer_addr 2" "cfg_LocalAddrs demo_config \<noteq> None"
  "TargetAddress demo_request = demo_peer_addr 2" "FromAddress demo_request = demo_peer_addr 1" "rq_Nonce demo_request = replicate 32 7"
  "in_dial demo_initiator_io = Inr ()" "in_rand demo_initiator_io = Inr (replicate 32 7)" "in_now demo_initiator_io = 1000000"
  "in_write1 demo_initiator_io = Inr ()" "in_write2 demo_initiator_io = Inr ()" "nc NewServer = Map.empty"
  "cl_keypair demo_client = demo_kp 1" "cl_address demo_client = demo_peer_addr 1"
  by (simp_all add: demo_responder_io_def demo_config_def demo_request_def demo_initiator_io_def NewServer_def NewNonceCache_def demo_client_def)

lemma demo_consents: "consents demo_config (demo_responder_io ok) a = ok"
  by (simp add: consents_def demo_config_def demo_responder_io_def)

lemma demo_valid:
  "\<exists>nc'. ValidateConnRequest 2000000 2000000 2000000 (nc NewServer) (Some demo_request) = (nc', Inr demo_request)"
  by (rule ValidateConnRequest_accepts)
    (simp_all add: demo_request_def time_of_millis_def TimestampFreshness_def go_time NonceSize_def NewServer_def NewNonceCache_def)

definition demo_response :: conn_response where
  "demo_response = \<lparr>Accepted = True, rs_PubKey = replicate 32 2, rs_Signature = Sign demo_ed25519 (demo_kp 2) (replicate 32 7),
     rs_Nonce = replicate 32 9, Reason = ''''\<rparr>"

lemma demo_run:
  "\<exists>s'. handleEnvelopeForService demo_hashes demo_ed25519 NewServer demo_config (demo_kp 2) (demo_responder_io True\<lparr>confirm_read := x\<rparr>)
     CONN_REQUEST (Some demo_request) =
     (s', [demo_response], await_confirm demo_hashes demo_ed25519 demo_config (demo_responder_io True\<lparr>confirm_read := x\<rparr>) demo_request (replicate 32 9))"
proof -
  obtain nc' where "ValidateConnRequest 2000000 2000000 2000000 (nc NewServer) (Some demo_request) = (nc', Inr demo_request)"
    using demo_valid by blast
  from handler_accepts[OF this, of "demo_responder_io True\<lparr>confirm_read := x\<rparr>" demo_config "replicate 32 9"] show ?thesis
    by (simp add: demo_consents, simp add: demo_responder_io_def demo_request_def demo_config_def demo_response_def demo_kp_def PublicKey_def)
qed

lemma demo_reject:
  "\<exists>s' r. handleEnvelopeForService demo_hashes demo_ed25519 NewServer demo_config (demo_kp 2) (demo_responder_io False)
     CONN_REQUEST (Some demo_request) = (s', [r], HRejected) \<and> Reason r = ''busy'' \<and> \<not> Accepted r"
proof -
  obtain nc' where "ValidateConnRequest 2000000 2000000 2000000 (nc NewServer) (Some demo_request) = (nc', Inr demo_request)"
    using demo_valid by blast
  then show ?thesis
    by (simp add: handleEnvelopeForService_def decide_consents demo_consents CreateConnResponse_def Let_def)
      (simp add: demo_responder_io_def demo_config_def decide_def askUser_def)
qed


lemma demo_confirmed:
  "await_confirm demo_hashes demo_ed25519 demo_config
     (demo_responder_io True\<lparr>confirm_read := Inr (CONN_CONFIRM, Some (CreateConnConfirm demo_ed25519 (demo_kp 1) (replicate 32 9)))\<rparr>)
     demo_request (replicate 32 9) = HExchange (replicate 32 1)"
  using await_honest_confirm[OF demo_params(3,4) demo_FromSeed[of 1] demo_params(1,2), of demo_request
      "demo_responder_io True\<lparr>confirm_read := Inr (CONN_CONFIRM, Some (CreateConnConfirm demo_ed25519 (demo_kp 1) (replicate 32 9)))\<rparr>"
      "replicate 32 9" demo_config]
  by (simp add: demo_request_def demo_peer_addr_def demo_config_def PublicKey_def demo_kp_def)

theorem responder_authenticates_witness:
  "\<exists>sig. proves demo_hashes demo_ed25519 (replicate 32 1) sig (demo_peer_addr 1) (replicate 32 9)"
proof -
  obtain s' where run: "handleEnvelopeForService demo_hashes demo_ed25519 NewServer demo_config (demo_kp 2)
     (demo_responder_io True\<lparr>confirm_read := Inr (CONN_CONFIRM, Some (CreateConnConfirm demo_ed25519 (demo_kp 1) (replicate 32 9)))\<rparr>)
     CONN_REQUEST (Some demo_request) = (s', [demo_response], HExchange (replicate 32 1))"
    using demo_run demo_confirmed by metis
  from responder_authenticates[OF run, of "replicate 32 1"] show ?thesis
    by (auto simp: demo_request_def demo_response_def)
qed

lemma demo_attempt:
  "\<exists>ms. attemptHandshake demo_hashes demo_ed25519 demo_client (demo_initiator_io\<lparr>resp_read := Inr (CONN_RESPONSE, Some demo_response)\<rparr>)
     (demo_peer_addr 2) = (ms, Inr \<lparr>PeerPubKey = replicate 32 2, PeerAddr = demo_peer_addr 2\<rparr>)"
  using attempt_honest_response[OF demo_params(3,4) demo_FromSeed[of 2] demo_params(1,2),
      of "demo_initiator_io\<lparr>resp_read := Inr (CONN_RESPONSE, Some demo_response)\<rparr>" "replicate 32 7" "replicate 32 9" "demo_peer_addr 2" "''''" demo_client]
  by (simp add: demo_initiator_io_def demo_response_def demo_peer_addr_def PublicKey_def demo_kp_def)

theorem initiator_authenticates_witness:
  "\<exists>sig. proves demo_hashes demo_ed25519 (replicate 32 2) sig (demo_peer_addr 2) (replicate 32 7)"
proof -
  obtain ms where run: "attemptHandshake demo_hashes demo_ed25519 demo_client
     (demo_initiator_io\<lparr>resp_read := Inr (CONN_RESPONSE, Some demo_response)\<rparr>) (demo_peer_addr 2) =
     (ms, Inr \<lparr>PeerPubKey = replicate 32 2, PeerAddr = demo_peer_addr 2\<rparr>)"
    using demo_attempt by blast
  from initiator_authenticates[OF run] show ?thesis by (auto simp: demo_initiator_io_def)
qed

definition demo_server :: server where
  "demo_server = fst (AddService NewServer demo_config)"

definition demo_envelope :: "string \<times> responder_io \<times> msg_type \<times> conn_request option" where
  "demo_envelope = (''node'', demo_responder_io True, CONN_REQUEST, Some demo_request)"


theorem honest_handshake_completes_witness:
  "run_handshake demo_hashes demo_ed25519 demo_client demo_initiator_io (demo_peer_addr 2) NewServer demo_config (demo_kp 2) (demo_responder_io True) =
     (Inr \<lparr>PeerPubKey = PublicKey (demo_kp 2), PeerAddr = demo_peer_addr 2\<rparr>, HExchange (PublicKey (demo_kp 1)))"
  using honest_handshake_completes[OF demo_params(3,4,1,2) demo_FromSeed[of 1] demo_FromSeed[of 2], of demo_client
      demo_config "demo_responder_io True" demo_initiator_io "replicate 32 7" "replicate 32 9" 2000000 2000000 2000000 NewServer]
  by (simp add: demo_consents demo_client_def demo_peer_addr_def [symmetric] NonceSize_def TimestampFreshness_def go_time)

theorem confirmation_not_bound_witness:
  "snd (snd (handleEnvelopeForService demo_hashes demo_ed25519 NewServer demo_config (demo_kp 2)
      (demo_responder_io True\<lparr>confirm_read := Inr (CONN_CONFIRM, Some (CreateConnConfirm demo_ed25519 (demo_kp 1) (replicate 32 9)))\<rparr>)
      CONN_REQUEST (Some demo_request))) \<in> {HConfirmed (PublicKey (demo_kp 1)), HExchange (PublicKey (demo_kp 1))}"
proof -
  let ?aio = "demo_initiator_io\<lparr>resp_read := Inr (CONN_RESPONSE, Some \<lparr>Accepted = True, rs_PubKey = PublicKey (demo_kp 3),
      rs_Signature = Sign demo_ed25519 (demo_kp 3) (replicate 32 7), rs_Nonce = replicate 32 9, Reason = ''''\<rparr>)\<rparr>"
  let ?bio = "demo_responder_io True\<lparr>confirm_read := Inr (CONN_CONFIRM, Some (CreateConnConfirm demo_ed25519 (demo_kp 1) (replicate 32 9)))\<rparr>"
  obtain nc' where v: "ValidateConnRequest 2000000 2000000 2000000 (nc NewServer) (Some demo_request) = (nc', Inr demo_request)"
    using demo_valid by blast
  have cl: "cl_keypair demo_client = demo_kp 1" "cl_address demo_client = DeriveAddress demo_hashes (PublicKey (demo_kp 1))"
    by (simp_all add: demo_client_def demo_peer_addr_def)
  have aio: "in_dial ?aio = Inr ()" "in_rand ?aio = Inr (replicate 32 7)" "in_write1 ?aio = Inr ()" "in_write2 ?aio = Inr ()"
    by (simp_all add: demo_initiator_io_def)
  have sent: "SentConfirm (CreateConnConfirm demo_ed25519 (demo_kp 1) (replicate 32 9)) \<in>
      set (fst (attemptHandshake demo_hashes demo_ed25519 demo_client ?aio (DeriveAddress demo_hashes (PublicKey (demo_kp 3)))))"
    using attempt_honest_response[OF demo_params(3,4) demo_FromSeed[of 3] demo_params(1,2) aio, of "replicate 32 9" _ "''''" demo_client] cl(1)
    by simp
  have bio: "consents demo_config ?bio (cl_address demo_client)" "rsp_rand ?bio = Inr (replicate 32 9)" "rsp_write ?bio = Inr ()"
    "rq_times ?bio = (2000000, 2000000, 2000000)"
    by (simp_all add: demo_consents)
  have req: "demo_request = \<lparr>FromAddress = cl_address demo_client, TargetAddress = cfg_Address demo_config,
      rq_Nonce = replicate 32 7, rq_Timestamp = 1\<rparr>"
    by (simp add: demo_request_def demo_client_def demo_config_def)
  show ?thesis
    by (rule confirmation_not_bound[OF demo_params(3,4,1,2) demo_FromSeed demo_FromSeed[of 3] cl aio _ bio(1-3) _ _ bio(4) req v sent])
      (simp_all add: NonceSize_def)
qed

theorem retries_bounded_witness:
  "\<exists>n ws. RequestConnection (\<lambda>k. if k < 1 then Inl (Transient ''timeout'') else Inl (Rejected ''no'')) (\<lambda>_. False) (\<lambda>_. False) =
     (n, ws, Inl (Rejected ''no'')) \<and> n \<le> 3 \<and> sum_list ws \<le> 14 * second"
proof -
  have run: "RequestConnection (\<lambda>k. if k < 1 then Inl (Transient ''timeout'') else Inl (Rejected ''no'')) (\<lambda>_. False) (\<lambda>_. False) =
     (2, [2 * second], Inl (Rejected ''no''))"
    by (simp add: RequestConnection_def client_MaxRetries_def upt_rec RetryBackoff_def)
  from retries_bounded[OF run] run show ?thesis by auto
qed

end
