(* ===== verification/Nat_Traversal.thy ===== *)
theory Nat_Traversal
  imports Go_Prelude "HOL-Library.Sublist"
begin

text \<open>
  The NAT traversal cascade (\<open>src/internal/transport/nat.go\<close>): direct connection, hole punching through
  a relay, relay, and Tor as the fallback. What libp2p does in one traversal (the outcome of each connect,
  the remote addresses of the connections at each tick) is a record argument.
\<close>

section \<open>Strategies\<close>

datatype nat_strategy = StrategyDirect | StrategyHolePunch | StrategyRelay | StrategyTorOnly

text \<open>The strategies are integers in the order of their declaration.\<close>

fun strategy_rank :: "nat_strategy \<Rightarrow> nat" where
  "strategy_rank StrategyDirect = 0"
| "strategy_rank StrategyHolePunch = 1"
| "strategy_rank StrategyRelay = 2"
| "strategy_rank StrategyTorOnly = 3"

lemma strategy_rank_inj: "strategy_rank s = strategy_rank t \<longleftrightarrow> s = t"
  by (cases s; cases t) simp_all

instantiation nat_strategy :: linorder
begin

definition less_eq_nat_strategy :: "nat_strategy \<Rightarrow> nat_strategy \<Rightarrow> bool" where
  "s \<le> t \<longleftrightarrow> strategy_rank s \<le> strategy_rank t"

definition less_nat_strategy :: "nat_strategy \<Rightarrow> nat_strategy \<Rightarrow> bool" where
  "s < t \<longleftrightarrow> strategy_rank s < strategy_rank t"

instance
  by standard (auto simp: less_eq_nat_strategy_def less_nat_strategy_def strategy_rank_inj)

end

lemmas strategy_order = less_eq_nat_strategy_def less_nat_strategy_def

definition strategy_String :: "nat_strategy \<Rightarrow> string" where
  "strategy_String s = (case s of
     StrategyDirect \<Rightarrow> ''direct'' | StrategyHolePunch \<Rightarrow> ''holepunch'' | StrategyRelay \<Rightarrow> ''relay'' | StrategyTorOnly \<Rightarrow> ''tor-only'')"

record nat_result =
  nr_Strategy :: nat_strategy
  nr_Addrs :: "string list"
  nr_Latency :: duration

record nat_config =
  DirectTimeout :: duration
  HolePunchTimeout :: duration
  RelayTimeout :: duration

definition DefaultNATConfig :: nat_config where
  "DefaultNATConfig = \<lparr>DirectTimeout = 2 * second, HolePunchTimeout = 10 * second, RelayTimeout = 15 * second\<rparr>"

section \<open>One traversal\<close>

text \<open>For each connect its outcome, within the timeout it is given, with the remote addresses of the
  connections afterwards and the time taken; for the hole punch, the addresses and the time at each tick
  before the deadline.\<close>

record nat_io =
  direct_connect :: "duration \<Rightarrow> string list \<Rightarrow> (string list \<times> duration) res"
  punch_connect :: "duration \<Rightarrow> string list \<Rightarrow> unit res"
  punch_ticks :: "duration \<Rightarrow> (string list \<times> duration) list"
  relay_connect :: "duration \<Rightarrow> string list \<Rightarrow> (string list \<times> duration) res"

definition is_circuit :: "string \<Rightarrow> bool" where
  "is_circuit a \<longleftrightarrow> sublist ''/p2p-circuit'' a"

definition filterNonRelay :: "string list \<Rightarrow> string list" where
  "filterNonRelay as = filter (\<lambda>a. \<not> is_circuit a) as"

definition filterRelay :: "string list \<Rightarrow> string list" where
  "filterRelay as = filter is_circuit as"

definition hasDirectConn :: "string list \<Rightarrow> bool" where
  "hasDirectConn conns \<longleftrightarrow> list_ex (\<lambda>ra. \<not> is_circuit ra) conns"

definition connAddrs :: "string \<Rightarrow> string list \<Rightarrow> string list" where
  "connAddrs pid conns = map (\<lambda>ra. ra @ ''/p2p/'' @ pid) conns"

definition tryDirect :: "nat_io \<Rightarrow> string \<Rightarrow> string list \<Rightarrow> duration \<Rightarrow> nat_result option" where
  "tryDirect io pid as timeout =
     (let directAddrs = filterNonRelay as
      in if directAddrs = [] then None
         else (case direct_connect io timeout directAddrs of
                 Inl e \<Rightarrow> None
               | Inr (conns, lat) \<Rightarrow>
                   Some \<lparr>nr_Strategy = StrategyDirect, nr_Addrs = connAddrs pid conns, nr_Latency = lat\<rparr>))"

text \<open>The wait for an upgrade: ticks until a direct connection is there or the deadline comes.\<close>

fun punch_wait :: "string \<Rightarrow> (string list \<times> duration) list \<Rightarrow> nat_result option" where
  "punch_wait pid [] = None"
| "punch_wait pid ((conns, lat) # ticks) =
     (if hasDirectConn conns
      then Some \<lparr>nr_Strategy = StrategyHolePunch, nr_Addrs = connAddrs pid conns, nr_Latency = lat\<rparr>
      else punch_wait pid ticks)"

definition tryHolePunch :: "nat_io \<Rightarrow> string \<Rightarrow> string list \<Rightarrow> duration \<Rightarrow> nat_result option" where
  "tryHolePunch io pid as timeout =
     (let relayAddrs = filterRelay as
      in if relayAddrs = [] then None
         else (case punch_connect io timeout relayAddrs of
                 Inl e \<Rightarrow> None
               | Inr _ \<Rightarrow> punch_wait pid (punch_ticks io timeout)))"

definition tryRelay :: "nat_io \<Rightarrow> string \<Rightarrow> string list \<Rightarrow> duration \<Rightarrow> nat_result option" where
  "tryRelay io pid as timeout =
     (let relayAddrs = filterRelay as
      in if relayAddrs = [] then None
         else (case relay_connect io timeout relayAddrs of
                 Inl e \<Rightarrow> None
               | Inr (conns, lat) \<Rightarrow>
                   Some \<lparr>nr_Strategy = StrategyRelay, nr_Addrs = connAddrs pid conns, nr_Latency = lat\<rparr>))"

definition tor_only :: nat_result where
  "tor_only = \<lparr>nr_Strategy = StrategyTorOnly, nr_Addrs = [], nr_Latency = 0\<rparr>"

definition NATTraverseFrom :: "nat_io \<Rightarrow> string \<Rightarrow> string list \<Rightarrow> nat_config \<Rightarrow> nat_strategy \<Rightarrow> nat_result" where
  "NATTraverseFrom io pid as cf from_s =
     (case (if from_s \<le> StrategyDirect then tryDirect io pid as (DirectTimeout cf) else None) of
        Some r \<Rightarrow> r
      | None \<Rightarrow>
          (case (if from_s \<le> StrategyHolePunch then tryHolePunch io pid as (HolePunchTimeout cf) else None) of
             Some r \<Rightarrow> r
           | None \<Rightarrow>
               (case (if from_s \<le> StrategyRelay then tryRelay io pid as (RelayTimeout cf) else None) of
                  Some r \<Rightarrow> r
                | None \<Rightarrow> tor_only)))"

definition NATTraverse :: "nat_io \<Rightarrow> string \<Rightarrow> string list \<Rightarrow> nat_config \<Rightarrow> nat_result" where
  "NATTraverse io pid as cf =
     (case tryDirect io pid as (DirectTimeout cf) of
        Some r \<Rightarrow> r
      | None \<Rightarrow>
          (case tryHolePunch io pid as (HolePunchTimeout cf) of
             Some r \<Rightarrow> r
           | None \<Rightarrow> (case tryRelay io pid as (RelayTimeout cf) of Some r \<Rightarrow> r | None \<Rightarrow> tor_only)))"

section \<open>The cascade\<close>

lemma NATTraverse_from_first: "NATTraverse io pid as cf = NATTraverseFrom io pid as cf StrategyDirect"
  by (simp add: NATTraverse_def NATTraverseFrom_def strategy_order)

lemma punch_wait_strategy: "punch_wait pid ticks = Some r \<Longrightarrow> nr_Strategy r = StrategyHolePunch"
  by (induction pid ticks rule: punch_wait.induct) (auto split: if_splits)

lemma try_strategy:
  "tryDirect io pid as t = Some r \<Longrightarrow> nr_Strategy r = StrategyDirect"
  "tryHolePunch io pid as t = Some r \<Longrightarrow> nr_Strategy r = StrategyHolePunch"
  "tryRelay io pid as t = Some r \<Longrightarrow> nr_Strategy r = StrategyRelay"
  by (auto simp: tryDirect_def tryHolePunch_def tryRelay_def Let_def dest: punch_wait_strategy split: if_splits sum.splits)

text \<open>A strategy that is skipped is never the result; without relay addresses only a direct connection or
  Tor remains.\<close>

lemma NATTraverseFrom_not_skipped: "from_s \<le> nr_Strategy (NATTraverseFrom io pid as cf from_s)"
  by (cases from_s)
    (auto simp: NATTraverseFrom_def strategy_order tor_only_def dest!: try_strategy split: option.splits)

lemma NATTraverse_no_relays:
  "filterRelay as = [] \<Longrightarrow> nr_Strategy (NATTraverse io pid as cf) \<in> {StrategyDirect, StrategyTorOnly}"
  by (auto simp: NATTraverse_def tryHolePunch_def tryRelay_def tor_only_def dest!: try_strategy split: option.splits)

end
