(* ===== verification/Connector.thy ===== *)
theory Connector
  imports Signaling_Props Ip_Exchange Nat_Traversal
begin

text \<open>
  The connection orchestrator (\<open>src/internal/transport/connector.go\<close>): discovery, handshake, address
  exchange and NAT traversal for one peer, the table of peers with its capacity, reconnection, and the
  transfer slots. What the network and the clock do in one flow is a record argument; the libp2p peer ID of
  a key and the parsing of a multiaddr are parameters. Flows run one at a time; the connection object a flow
  works on is the entry of the table.
\<close>

section \<open>State\<close>

datatype conn_state =
    StateDiscovering | StateSignaling | StateExchangingIPs | StateNATTraversal | StateConnected
  | StateConnectedTor | StateDisconnected | StateFailed | StateReconnecting

definition conn_state_String :: "conn_state \<Rightarrow> string" where
  "conn_state_String s = (case s of
     StateDiscovering \<Rightarrow> ''discovering'' | StateSignaling \<Rightarrow> ''signaling'' | StateExchangingIPs \<Rightarrow> ''exchanging-ips''
   | StateNATTraversal \<Rightarrow> ''nat-traversal'' | StateConnected \<Rightarrow> ''connected'' | StateConnectedTor \<Rightarrow> ''connected-tor''
   | StateDisconnected \<Rightarrow> ''disconnected'' | StateFailed \<Rightarrow> ''failed'' | StateReconnecting \<Rightarrow> ''reconnecting'')"

record peer_conn =
  pc_Address :: string
  pc_State :: conn_state
  pc_Strategy :: nat_strategy
  pc_Latency :: duration
  pc_PeerID :: string
  pc_Addrs :: "string list"
  pc_LastActivity :: time

record state_event =
  ev_PeerAddr :: string
  ev_State :: conn_state
  ev_Error :: string

record lookup_result =
  lr_Address :: string
  lr_OnionAddr :: string

record connector_config =
  cc_Keypair :: keypair
  cc_Host :: bool
  cc_NATCfg :: nat_config
  cc_MaxPeers :: int
  cc_MaxXfers :: int

record connector =
  cn_keypair :: keypair
  cn_address :: string
  cn_host :: bool
  natCfg :: nat_config
  maxPeers :: int
  maxXfers :: int
  peers :: "(string \<times> peer_conn) list"
  lookupCache :: "(string \<times> lookup_result \<times> time) list"
  closed_peers :: "string list"

definition ReconnectMaxRetries :: nat where "ReconnectMaxRetries = 3"
definition ReconnectBaseDelay :: duration where "ReconnectBaseDelay = 2 * second"
definition CachedLookupMaxAge :: duration where "CachedLookupMaxAge = 1 * hour"

text \<open>The libp2p library: the peer ID of a public key, and which strings are multiaddrs.\<close>

record libp2p =
  peerIDFromEd25519 :: "bytes \<Rightarrow> string res"
  is_multiaddr :: "string \<Rightarrow> bool"

definition NewConnector :: "hashes \<Rightarrow> connector_config \<Rightarrow> connector" where
  "NewConnector H cf =
     \<lparr>cn_keypair = cc_Keypair cf, cn_address = DeriveAddress H (PublicKey (cc_Keypair cf)), cn_host = cc_Host cf,
      natCfg = (if DirectTimeout (cc_NATCfg cf) = 0 then DefaultNATConfig else cc_NATCfg cf),
      maxPeers = (if cc_MaxPeers cf \<le> 0 then 50 else cc_MaxPeers cf),
      maxXfers = (if cc_MaxXfers cf \<le> 0 then 5 else cc_MaxXfers cf),
      peers = [], lookupCache = [], closed_peers = []\<rparr>"

definition connected :: "peer_conn \<Rightarrow> bool" where
  "connected pc \<longleftrightarrow> pc_State pc = StateConnected \<or> pc_State pc = StateConnectedTor"

definition new_pc :: "time \<Rightarrow> string \<Rightarrow> peer_conn" where
  "new_pc now addr =
     \<lparr>pc_Address = addr, pc_State = StateDiscovering, pc_Strategy = StrategyDirect, pc_Latency = 0, pc_PeerID = '''',
      pc_Addrs = [], pc_LastActivity = now\<rparr>"

definition setState :: "peer_conn \<Rightarrow> conn_state \<Rightarrow> string \<Rightarrow> peer_conn \<times> state_event list" where
  "setState pc st e = (pc\<lparr>pc_State := st\<rparr>, [\<lparr>ev_PeerAddr = pc_Address pc, ev_State = st, ev_Error = e\<rparr>])"

section \<open>The flow\<close>

text \<open>What one run of the flow meets, in order.\<close>

record flow_io =
  fl_cache_now :: time
  fl_find :: "string \<Rightarrow> lookup_result res"
  fl_store_now :: time
  fl_dial :: "string \<Rightarrow> unit res"
  fl_hs :: initiator_io
  fl_our_addrs :: "string list"
  fl_rand :: "bytes res"
  fl_write :: "unit res"
  fl_ctx_done :: bool
  fl_got :: "(msg_type \<times> bytes) res"
  fl_nat :: nat_io
  fl_now :: time

definition cachedOrFreshLookup :: "flow_io \<Rightarrow> connector \<Rightarrow> string \<Rightarrow> connector \<times> lookup_result res" where
  "cachedOrFreshLookup io c addr =
     (case map_of (lookupCache c) addr of
        Some (r, at) \<Rightarrow>
          if time_sub (fl_cache_now io) at < CachedLookupMaxAge then (c, Inr r)
          else (case fl_find io addr of
                  Inl e \<Rightarrow> (c, Inr r)
                | Inr new \<Rightarrow> (c\<lparr>lookupCache := AList.update addr (new, fl_store_now io) (lookupCache c)\<rparr>, Inr new))
      | None \<Rightarrow>
          (case fl_find io addr of
             Inl e \<Rightarrow> (c, Inl e)
           | Inr new \<Rightarrow> (c\<lparr>lookupCache := AList.update addr (new, fl_store_now io) (lookupCache c)\<rparr>, Inr new)))"

text \<open>The initiator's side of the handshake on an open connection.\<close>

definition performClientHandshake ::
  "hashes \<Rightarrow> ed25519 \<Rightarrow> initiator_io \<Rightarrow> string \<Rightarrow> string \<Rightarrow> keypair \<Rightarrow> initiator_msg list \<times> handshake_result res" where
  "performClientHandshake H E io ourAddr targetAddr kp =
     (case CreateConnRequest (in_now io) (in_rand io) ourAddr targetAddr of
        Inl e \<Rightarrow> ([], Inl ''creating request'')
      | Inr (req, reqNonce) \<Rightarrow>
          (case in_write1 io of
             Inl e \<Rightarrow> ([], Inl ''sending request'')
           | Inr _ \<Rightarrow>
               (case resp_read io of
                  Inl e \<Rightarrow> ([SentRequest req], Inl ''reading response'')
                | Inr (t, m) \<Rightarrow>
                    if t \<noteq> CONN_RESPONSE then ([SentRequest req], Inl ''unexpected message type'')
                    else (case ValidateConnResponse H E m reqNonce targetAddr of
                            Inl e \<Rightarrow> ([SentRequest req], Inl ''validating response'')
                          | Inr resp \<Rightarrow>
                              if \<not> Accepted resp
                              then ([SentRequest req], Inl (if Reason resp = '''' then ''rejected'' else Reason resp))
                              else (let cf = CreateConnConfirm E kp (rs_Nonce resp)
                                    in case in_write2 io of
                                         Inl e \<Rightarrow> ([SentRequest req], Inl ''sending confirm'')
                                       | Inr _ \<Rightarrow> ([SentRequest req, SentConfirm cf],
                                           Inr \<lparr>PeerPubKey = rs_PubKey resp, PeerAddr = targetAddr\<rparr>))))))"

definition buildPeerAddrInfo :: "libp2p \<Rightarrow> string list \<Rightarrow> string list res" where
  "buildPeerAddrInfo L addrs =
     (let as = filter (is_multiaddr L) addrs in if as = [] then Inl ''no valid multiaddrs from peer'' else Inr as)"

text \<open>Steps 1 to 3: discovery, handshake, address exchange. The result is the peer ID with the peer's
  addresses; the peer ID is set on the connection object.\<close>

definition flow_reach ::
  "libp2p \<Rightarrow> hashes \<Rightarrow> ed25519 \<Rightarrow> kex \<Rightarrow> flow_io \<Rightarrow> connector \<Rightarrow> peer_conn \<Rightarrow>
     connector \<times> peer_conn \<times> state_event list \<times> string list res" where
  "flow_reach L H E X io c pc0 =
     (let (pc1, e1) = setState pc0 StateDiscovering ''''
      in case cachedOrFreshLookup io c (pc_Address pc1) of
           (c1, Inl e) \<Rightarrow> (c1, pc1, e1, Inl ''discovering peer'')
         | (c1, Inr lookup) \<Rightarrow>
             (let (pc2, e2) = setState pc1 StateSignaling ''''
              in case fl_dial io (lr_OnionAddr lookup) of
                   Inl e \<Rightarrow> (c1, pc2, e1 @ e2, Inl ''dialing peer'')
                 | Inr _ \<Rightarrow>
                     (case snd (performClientHandshake H E (fl_hs io) (cn_address c1) (pc_Address pc2) (cn_keypair c1)) of
                        Inl e \<Rightarrow> (c1, pc2, e1 @ e2, Inl ''handshake'')
                      | Inr hs \<Rightarrow>
                          (let (pc3, e3) = setState pc2 StateExchangingIPs ''''
                           in if \<not> cn_host c1 then (c1, pc3, e1 @ e2 @ e3, Inl ''panic: nil host'')
                              else (case snd (ExchangeIPs X (fl_rand io) (fl_our_addrs io) (cn_keypair c1) (PeerPubKey hs)
                                          (fl_write io) (fl_ctx_done io) (fl_got io)) of
                                      Inl e \<Rightarrow> (c1, pc3, e1 @ e2 @ e3, Inl ''IP exchange'')
                                    | Inr addrs \<Rightarrow>
                                        (case peerIDFromEd25519 L (PeerPubKey hs) of
                                           Inl e \<Rightarrow> (c1, pc3, e1 @ e2 @ e3, Inl ''deriving peer ID'')
                                         | Inr pid \<Rightarrow> (c1, pc3\<lparr>pc_PeerID := pid\<rparr>, e1 @ e2 @ e3, Inr addrs)))))))"

text \<open>Step 4: NAT traversal when the peer has addresses, and the fallback to Tor.\<close>

definition flow_nat ::
  "libp2p \<Rightarrow> (string \<Rightarrow> string list \<Rightarrow> nat_result) \<Rightarrow> flow_io \<Rightarrow> peer_conn \<Rightarrow> string list \<Rightarrow>
     peer_conn \<times> state_event list \<times> unit res" where
  "flow_nat L traverse io pc addrs =
     (let tor = (\<lambda>p evs. let (p', ev) = setState (p\<lparr>pc_Strategy := StrategyTorOnly, pc_LastActivity := fl_now io\<rparr>)
                              StateConnectedTor '''' in (p', evs @ ev, Inr ()))
      in if addrs = [] then tor pc []
         else (let (pc1, e1) = setState pc StateNATTraversal ''''
               in case buildPeerAddrInfo L addrs of
                    Inl e \<Rightarrow> (pc1, e1, Inl ''parsing peer multiaddrs'')
                  | Inr as \<Rightarrow>
                      (let r = traverse (pc_PeerID pc1) as;
                           pc2 = pc1\<lparr>pc_Strategy := nr_Strategy r, pc_Latency := nr_Latency r, pc_Addrs := nr_Addrs r\<rparr>
                       in if nr_Strategy r \<noteq> StrategyTorOnly
                          then (let (pc3, e2) = setState (pc2\<lparr>pc_LastActivity := fl_now io\<rparr>) StateConnected ''''
                                in (pc3, e1 @ e2, Inr ()))
                          else tor pc2 e1)))"

definition flow_with ::
  "libp2p \<Rightarrow> hashes \<Rightarrow> ed25519 \<Rightarrow> kex \<Rightarrow> (connector \<Rightarrow> string \<Rightarrow> string list \<Rightarrow> nat_result) \<Rightarrow> flow_io \<Rightarrow> connector \<Rightarrow>
     peer_conn \<Rightarrow> connector \<times> peer_conn \<times> state_event list \<times> unit res" where
  "flow_with L H E X traverse io c pc =
     (case flow_reach L H E X io c pc of
        (c', pc', evs, Inl e) \<Rightarrow> (c', pc', evs, Inl e)
      | (c', pc', evs, Inr addrs) \<Rightarrow>
          (case flow_nat L (traverse c') io pc' addrs of (pc2, evs2, r) \<Rightarrow> (c', pc2, evs @ evs2, r)))"

definition connectFlow where
  "connectFlow L H E X io c pc = flow_with L H E X (\<lambda>c pid as. NATTraverse (fl_nat io) pid as (natCfg c)) io c pc"

definition connectFlowFromStrategy where
  "connectFlowFromStrategy L H E X io c pc start =
     flow_with L H E X (\<lambda>c pid as. NATTraverseFrom (fl_nat io) pid as (natCfg c) start) io c pc"

section \<open>The peer table\<close>

text \<open>The least recently active connected peer, the first one met on a tie.\<close>

fun oldest_peer :: "(string \<times> peer_conn) option \<Rightarrow> (string \<times> peer_conn) list \<Rightarrow> (string \<times> peer_conn) option" where
  "oldest_peer best [] = best"
| "oldest_peer best ((addr, pc) # ps) =
     (if \<not> connected pc then oldest_peer best ps
      else (case best of
              None \<Rightarrow> oldest_peer (Some (addr, pc)) ps
            | Some (_, old) \<Rightarrow>
                if pc_LastActivity pc < pc_LastActivity old then oldest_peer (Some (addr, pc)) ps
                else oldest_peer best ps))"

definition evictIfNeededLocked :: "connector \<Rightarrow> connector" where
  "evictIfNeededLocked c =
     (if int (length (peers c)) < maxPeers c then c
      else (case oldest_peer None (peers c) of
              None \<Rightarrow> c
            | Some (addr, old) \<Rightarrow>
                (let c1 = (if cn_host c \<and> pc_PeerID old \<noteq> '''' then c\<lparr>closed_peers := closed_peers c @ [pc_PeerID old]\<rparr> else c)
                 in if addr \<noteq> '''' then c1\<lparr>peers := AList.delete addr (peers c1)\<rparr> else c1)))"

definition put_peer :: "connector \<Rightarrow> string \<Rightarrow> peer_conn \<Rightarrow> connector" where
  "put_peer c addr pc = c\<lparr>peers := AList.update addr pc (peers c)\<rparr>"

definition connect_new ::
  "libp2p \<Rightarrow> hashes \<Rightarrow> ed25519 \<Rightarrow> kex \<Rightarrow> time \<Rightarrow> flow_io \<Rightarrow> connector \<Rightarrow> string \<Rightarrow>
     connector \<times> state_event list \<times> peer_conn res" where
  "connect_new L H E X now io c peerAddr =
     (let pc = new_pc now peerAddr; c1 = put_peer (evictIfNeededLocked c) peerAddr pc
      in case connectFlow L H E X io c1 pc of
           (c2, pc2, evs, Inl e) \<Rightarrow>
             (let (pc3, ev) = setState pc2 StateFailed e in (put_peer c2 peerAddr pc3, evs @ ev, Inl e))
         | (c2, pc2, evs, Inr _) \<Rightarrow>
             (let pc3 = pc2\<lparr>pc_LastActivity := fl_now io\<rparr> in (put_peer c2 peerAddr pc3, evs, Inr pc3)))"

text \<open>The entry of a peer that is connected already.\<close>

definition live_entry :: "connector \<Rightarrow> string \<Rightarrow> peer_conn option" where
  "live_entry c addr =
     (case map_of (peers c) addr of Some pc \<Rightarrow> if connected pc then Some pc else None | None \<Rightarrow> None)"

definition Connect ::
  "libp2p \<Rightarrow> hashes \<Rightarrow> ed25519 \<Rightarrow> kex \<Rightarrow> time \<Rightarrow> flow_io \<Rightarrow> connector \<Rightarrow> string \<Rightarrow>
     connector \<times> state_event list \<times> peer_conn res" where
  "Connect L H E X now io c peerAddr =
     (case live_entry c peerAddr of
        Some existing \<Rightarrow> (c, [], Inr existing)
      | None \<Rightarrow> connect_new L H E X now io c peerAddr)"

text \<open>Closing the stale libp2p connections of a peer.\<close>

definition close_stale :: "connector \<Rightarrow> string \<Rightarrow> connector" where
  "close_stale c addr =
     (case map_of (peers c) addr of
        Some pc \<Rightarrow> if pc_PeerID pc \<noteq> '''' \<and> cn_host c then c\<lparr>closed_peers := closed_peers c @ [pc_PeerID pc]\<rparr> else c
      | None \<Rightarrow> c)"

text \<open>The attempts of \<open>Reconnect\<close>: \<open>ios k\<close> is what attempt \<open>k\<close> meets, \<open>cancelled_at k\<close> whether the context
  ends in the delay before it.\<close>

fun reconnect_loop ::
  "libp2p \<Rightarrow> hashes \<Rightarrow> ed25519 \<Rightarrow> kex \<Rightarrow> (nat \<Rightarrow> flow_io) \<Rightarrow> (nat \<Rightarrow> bool) \<Rightarrow> nat list \<Rightarrow> connector \<Rightarrow> peer_conn \<Rightarrow>
     state_event list \<Rightarrow> string \<Rightarrow> connector \<times> peer_conn \<times> state_event list \<times> unit res" where
  "reconnect_loop L H E X ios cancelled_at [] c pc evs lastErr =
     (let (pc', ev) = setState pc StateFailed lastErr in (c, pc', evs @ ev, Inl ''reconnection failed''))"
| "reconnect_loop L H E X ios cancelled_at (k # ks) c pc evs lastErr =
     (if k > 0 \<and> cancelled_at k
      then (let (pc', ev) = setState pc StateFailed ''context'' in (c, pc', evs @ ev, Inl ''context''))
      else (case connectFlow L H E X (ios k) c pc of
              (c', pc', ev, Inl e) \<Rightarrow> reconnect_loop L H E X ios cancelled_at ks c' pc' (evs @ ev) e
            | (c', pc', ev, Inr _) \<Rightarrow> (c', pc'\<lparr>pc_LastActivity := fl_now (ios k)\<rparr>, evs @ ev, Inr ())))"

definition Reconnect ::
  "libp2p \<Rightarrow> hashes \<Rightarrow> ed25519 \<Rightarrow> kex \<Rightarrow> time \<Rightarrow> (nat \<Rightarrow> flow_io) \<Rightarrow> (nat \<Rightarrow> bool) \<Rightarrow> connector \<Rightarrow> string \<Rightarrow>
     connector \<times> state_event list \<times> peer_conn res" where
  "Reconnect L H E X now ios cancelled_at c peerAddr =
     (case live_entry c peerAddr of
        Some existing \<Rightarrow> (c, [], Inr existing)
      | None \<Rightarrow>
          (let (pc, ev) = setState (new_pc now peerAddr) StateReconnecting '''';
               c1 = put_peer (close_stale c peerAddr) peerAddr pc
           in case reconnect_loop L H E X ios cancelled_at [0..<ReconnectMaxRetries] c1 pc ev '''' of
                (c2, pc2, evs, r) \<Rightarrow>
                  (put_peer c2 peerAddr pc2, evs, case r of Inl e \<Rightarrow> Inl e | Inr _ \<Rightarrow> Inr pc2)))"

text \<open>The strategies tried by \<open>ReconnectWithFallback\<close>, the previous one first.\<close>

definition fallback_strategies :: "nat_strategy \<Rightarrow> nat_strategy list" where
  "fallback_strategies start =
     start # filter (\<lambda>s. start < s) [StrategyDirect, StrategyHolePunch, StrategyRelay, StrategyTorOnly]"

fun fallback_loop ::
  "libp2p \<Rightarrow> hashes \<Rightarrow> ed25519 \<Rightarrow> kex \<Rightarrow> (nat_strategy \<Rightarrow> flow_io) \<Rightarrow> nat_strategy list \<Rightarrow> connector \<Rightarrow> peer_conn \<Rightarrow>
     state_event list \<Rightarrow> connector \<times> peer_conn \<times> state_event list \<times> unit res" where
  "fallback_loop L H E X ios [] c pc evs =
     (let (pc', ev) = setState pc StateFailed ''all NAT strategies exhausted''
      in (c, pc', evs @ ev, Inl ''all NAT strategies exhausted''))"
| "fallback_loop L H E X ios (s # ss) c pc evs =
     (case connectFlowFromStrategy L H E X (ios s) c pc s of
        (c', pc', ev, Inl e) \<Rightarrow> fallback_loop L H E X ios ss c' pc' (evs @ ev)
      | (c', pc', ev, Inr _) \<Rightarrow> (c', pc', evs @ ev, Inr ()))"

definition ReconnectWithFallback ::
  "libp2p \<Rightarrow> hashes \<Rightarrow> ed25519 \<Rightarrow> kex \<Rightarrow> time \<Rightarrow> (nat_strategy \<Rightarrow> flow_io) \<Rightarrow> connector \<Rightarrow> string \<Rightarrow>
     connector \<times> state_event list \<times> peer_conn res" where
  "ReconnectWithFallback L H E X now ios c peerAddr =
     (let prevStrategy = (case map_of (peers c) peerAddr of Some p \<Rightarrow> pc_Strategy p | None \<Rightarrow> StrategyDirect);
          (pc, ev) = setState (new_pc now peerAddr) StateReconnecting '''';
          c1 = put_peer (close_stale c peerAddr) peerAddr pc
      in case fallback_loop L H E X ios (fallback_strategies prevStrategy) c1 pc ev of
           (c2, pc2, evs, r) \<Rightarrow> (put_peer c2 peerAddr pc2, evs, case r of Inl e \<Rightarrow> Inl e | Inr _ \<Rightarrow> Inr pc2))"

definition Disconnect :: "connector \<Rightarrow> string \<Rightarrow> connector \<times> state_event list" where
  "Disconnect c peerAddr =
     (case map_of (peers c) peerAddr of
        None \<Rightarrow> (c, [])
      | Some pc \<Rightarrow>
          (let c1 = (if pc_PeerID pc \<noteq> '''' then c\<lparr>closed_peers := closed_peers c @ [pc_PeerID pc]\<rparr> else c);
               (_, ev) = setState pc StateDisconnected ''''
           in (c1\<lparr>peers := AList.delete peerAddr (peers c1)\<rparr>, ev)))"

definition GetPeer :: "connector \<Rightarrow> string \<Rightarrow> peer_conn option" where
  "GetPeer c addr = map_of (peers c) addr"

definition ActivePeers :: "connector \<Rightarrow> peer_conn list" where
  "ActivePeers c = filter connected (map snd (peers c))"

end
