(* ===== verification/Connector_Props.thy ===== *)
theory Connector_Props
  imports Connector
begin

text \<open>
  What the connector guarantees: a peer counts as connected only after it has proved its address, the number
  of connected peers stays within the limit under connects and disconnects, what a failed connect costs, and
  that a peer which skips the address exchange is not reached over Tor.
\<close>

section \<open>The flow\<close>

text \<open>The handshake on an open connection is the client's attempt after its dial.\<close>

lemma performClientHandshake_attempt:
  "snd (performClientHandshake H E io our target kp) = Inr r \<Longrightarrow>
     \<exists>ms. attemptHandshake H E \<lparr>cl_keypair = kp, cl_address = our\<rparr> (io\<lparr>in_dial := Inr ()\<rparr>) target = (ms, Inr r)"
  by (auto simp: performClientHandshake_def attemptHandshake_def Let_def split: sum.splits if_splits prod.splits)

text \<open>The owner of an address: a key that matches it and signed a nonce.\<close>

definition owns :: "libp2p \<Rightarrow> hashes \<Rightarrow> ed25519 \<Rightarrow> string \<Rightarrow> string \<Rightarrow> bool" where
  "owns L H E addr pid \<longleftrightarrow> (\<exists>pk sig nonce. proves H E pk sig addr nonce \<and> peerIDFromEd25519 L pk = Inr pid)"

lemma handshake_owns:
  assumes "snd (performClientHandshake H E io our target kp) = Inr hs" "peerIDFromEd25519 L (PeerPubKey hs) = Inr pid"
  shows "owns L H E target pid"
proof -
  obtain ms where "attemptHandshake H E \<lparr>cl_keypair = kp, cl_address = our\<rparr> (io\<lparr>in_dial := Inr ()\<rparr>) target = (ms, Inr hs)"
    using performClientHandshake_attempt[OF assms(1)] by blast
  then show ?thesis
  proof (rule attempt_success)
    fix req resp
    assume "hs = \<lparr>PeerPubKey = rs_PubKey resp, PeerAddr = target\<rparr>" "Accepted resp"
      "ValidateConnResponse H E (Some resp) (rq_Nonce req) target = Inr resp"
    with assms(2) show ?thesis by (auto simp: owns_def ValidateConnResponse_ok)
  qed
qed

definition same_table :: "connector \<Rightarrow> connector \<Rightarrow> bool" where
  "same_table c c' \<longleftrightarrow> peers c' = peers c \<and> maxPeers c' = maxPeers c \<and> cn_host c' = cn_host c \<and> closed_peers c' = closed_peers c"

lemma cachedOrFreshLookup_table: "cachedOrFreshLookup io c a = (c', r) \<Longrightarrow> same_table c c'"
  by (auto simp: cachedOrFreshLookup_def same_table_def split: option.splits if_splits sum.splits)

lemma exchange_heard: "snd (ExchangeIPs X rnd our kp pk wr cd got) = Inr addrs \<Longrightarrow> \<not> isl got"
  by (auto simp: ExchangeIPs_def isl_def split: sum.splits if_splits)

lemma flow_reach_spec:
  assumes "flow_reach L H E X io c pc = (c', pc', evs, r)"
  shows "same_table c c' \<and> pc_Address pc' = pc_Address pc \<and> \<not> connected pc' \<and>
     (\<forall>as. r = Inr as \<longrightarrow> owns L H E (pc_Address pc) (pc_PeerID pc') \<and> \<not> isl (fl_got io))"
proof -
  obtain c1 lk where l: "cachedOrFreshLookup io c (pc_Address pc) = (c1, lk)" by fastforce
  note t = cachedOrFreshLookup_table[OF l]
  show ?thesis
  proof (cases lk)
    case (Inl e)
    with assms l t show ?thesis by (auto simp: flow_reach_def setState_def connected_def)
  next
    case (Inr lookup)
    let ?hs = "snd (performClientHandshake H E (fl_hs io) (cn_address c1) (pc_Address pc) (cn_keypair c1))"
    note f = assms[unfolded flow_reach_def setState_def Let_def prod.case, simplified l Inr prod.case sum.case peer_conn.simps]
    show ?thesis
    proof (cases "isl (fl_dial io (lr_OnionAddr lookup)) \<or> isl ?hs")
      case True
      with f l Inr t show ?thesis by (auto simp: isl_def connected_def split: sum.splits)
    next
      case False
      then obtain u hs where h: "fl_dial io (lr_OnionAddr lookup) = Inr u" "?hs = Inr hs" by (metis sum.collapse)
      show ?thesis
        using f l Inr h t by (auto simp: connected_def intro: handshake_owns[OF h(2)] dest: exchange_heard split: if_splits sum.splits)
    qed
  qed
qed

lemma flow_nat_spec:
  assumes "flow_nat L tr io pc addrs = (pc', evs, r)"
  shows "pc_Address pc' = pc_Address pc \<and> pc_PeerID pc' = pc_PeerID pc \<and> (connected pc' \<longleftrightarrow> r = Inr ())"
  using assms by (auto simp: flow_nat_def setState_def connected_def Let_def split: if_splits sum.splits)

lemma flow_with_spec:
  assumes "flow_with L H E X tr io c pc = (c', pc', evs, r)"
  shows "same_table c c' \<and> pc_Address pc' = pc_Address pc \<and> (connected pc' \<longleftrightarrow> r = Inr ()) \<and>
     (r = Inr () \<longrightarrow> owns L H E (pc_Address pc) (pc_PeerID pc') \<and> \<not> isl (fl_got io))"
proof -
  obtain c1 pc1 e1 r1 where f: "flow_reach L H E X io c pc = (c1, pc1, e1, r1)" by (metis prod_cases4)
  note s = flow_reach_spec[OF f]
  show ?thesis
  proof (cases r1)
    case (Inl e)
    with assms f s show ?thesis by (auto simp: flow_with_def)
  next
    case (Inr as)
    obtain pc2 e2 r2 where n: "flow_nat L (tr c1) io pc1 as = (pc2, e2, r2)" by (metis prod_cases3)
    with assms f s Inr flow_nat_spec[OF n] show ?thesis by (auto simp: flow_with_def)
  qed
qed

section \<open>Connected peers are authenticated\<close>

definition entry_ok :: "libp2p \<Rightarrow> hashes \<Rightarrow> ed25519 \<Rightarrow> string \<times> peer_conn \<Rightarrow> bool" where
  "entry_ok L H E e \<longleftrightarrow> pc_Address (snd e) = fst e \<and> (connected (snd e) \<longrightarrow> owns L H E (fst e) (pc_PeerID (snd e)))"

definition table_ok :: "libp2p \<Rightarrow> hashes \<Rightarrow> ed25519 \<Rightarrow> connector \<Rightarrow> bool" where
  "table_ok L H E c \<longleftrightarrow> distinct (map fst (peers c)) \<and> (\<forall>e \<in> set (peers c). entry_ok L H E e)"

inductive conn_reach :: "libp2p \<Rightarrow> hashes \<Rightarrow> ed25519 \<Rightarrow> kex \<Rightarrow> connector \<Rightarrow> bool" for L H E X where
  new: "conn_reach L H E X (NewConnector H cf)"
| connect: "conn_reach L H E X c \<Longrightarrow> conn_reach L H E X (fst (Connect L H E X now io c a))"
| reconnect: "conn_reach L H E X c \<Longrightarrow> conn_reach L H E X (fst (Reconnect L H E X now ios cancelled_at c a))"
| fallback: "conn_reach L H E X c \<Longrightarrow> conn_reach L H E X (fst (ReconnectWithFallback L H E X now sios c a))"
| disconnect: "conn_reach L H E X c \<Longrightarrow> conn_reach L H E X (fst (Disconnect c a))"

lemma table_ok_put [inv_intros]:
  "table_ok L H E c \<Longrightarrow> entry_ok L H E (a, pc) \<Longrightarrow> table_ok L H E (put_peer c a pc)"
  using set_alist_update[of a pc "peers c"] by (auto simp: table_ok_def put_peer_def distinct_update)

lemma table_ok_delete:
  "table_ok L H E c \<Longrightarrow> table_ok L H E (c\<lparr>peers := AList.delete a (peers c)\<rparr>)"
  by (auto simp: table_ok_def AList.delete_eq distinct_map_filter)

lemma table_ok_frame: "table_ok L H E c \<Longrightarrow> peers c' = peers c \<Longrightarrow> table_ok L H E c'"
  by (simp add: table_ok_def)

lemma table_ok_evict [inv_intros]: "table_ok L H E c \<Longrightarrow> table_ok L H E (evictIfNeededLocked c)"
  by (auto simp: evictIfNeededLocked_def Let_def table_ok_def AList.delete_eq distinct_map_filter split: option.splits)

lemma table_ok_stale [inv_intros]: "table_ok L H E c \<Longrightarrow> table_ok L H E (close_stale c a)"
  by (auto simp: close_stale_def table_ok_def split: option.splits)

lemma entry_ok_new: "pc_Address pc = a \<Longrightarrow> \<not> connected pc \<Longrightarrow> entry_ok L H E (a, pc)"
  by (simp add: entry_ok_def)

lemma flow_entry:
  assumes "flow_with L H E X tr io c pc = (c', pc', evs, r)" "pc_Address pc = a"
  shows "entry_ok L H E (a, pc')" "pc_Address pc' = a" "same_table c c'"
  using flow_with_spec[OF assms(1)] assms(2) by (auto simp: entry_ok_def)

lemma new_entry: "entry_ok L H E (a, new_pc now a)" "pc_Address (new_pc now a) = a" "\<not> connected (new_pc now a)"
  by (simp_all add: entry_ok_def new_pc_def connected_def)

lemma connect_new_parts:
  assumes "connect_new L H E X now io c a = (c', evs, r)"
  obtains c2 pc2 ev2 r2 pc3 where
    "connectFlow L H E X io (put_peer (evictIfNeededLocked c) a (new_pc now a)) (new_pc now a) = (c2, pc2, ev2, r2)"
    "c' = put_peer c2 a pc3" "pc_Address pc3 = pc_Address pc2" "pc_PeerID pc3 = pc_PeerID pc2"
    "connected pc3 \<longleftrightarrow> r2 = Inr ()" "\<And>e. r2 = Inl e \<Longrightarrow> r = Inl e \<and> pc_State pc3 = StateFailed"
    "r2 = Inr () \<Longrightarrow> r = Inr pc3"
proof -
  obtain c2 pc2 ev2 r2 where f: "connectFlow L H E X io (put_peer (evictIfNeededLocked c) a (new_pc now a)) (new_pc now a) = (c2, pc2, ev2, r2)"
    by (metis prod_cases4)
  have conn: "connected pc2 \<longleftrightarrow> r2 = Inr ()" using flow_with_spec f unfolding connectFlow_def by blast
  show thesis
  proof (cases r2)
    case (Inl e)
    with assms f show thesis
      by (intro that[of c2 pc2 ev2 r2 "pc2\<lparr>pc_State := StateFailed\<rparr>"])
        (simp_all add: connect_new_def setState_def connected_def Let_def)
  next
    case (Inr u)
    with assms f conn show thesis
      by (intro that[of c2 pc2 ev2 r2 "pc2\<lparr>pc_LastActivity := fl_now io\<rparr>"])
        (simp_all add: connect_new_def connected_def Let_def)
  qed
qed

lemma table_ok_connect [inv_intros]:
  assumes "table_ok L H E c"
  shows "table_ok L H E (fst (Connect L H E X now io c a))"
proof (cases "live_entry c a")
  case None
  obtain c' evs r where res: "connect_new L H E X now io c a = (c', evs, r)" by (metis prod_cases3)
  then obtain c2 pc2 ev2 r2 pc3 where
    f: "connectFlow L H E X io (put_peer (evictIfNeededLocked c) a (new_pc now a)) (new_pc now a) = (c2, pc2, ev2, r2)"
    and c': "c' = put_peer c2 a pc3" and pc3: "pc_Address pc3 = pc_Address pc2" "pc_PeerID pc3 = pc_PeerID pc2"
    "connected pc3 \<longleftrightarrow> r2 = Inr ()"
    by (rule connect_new_parts) blast
  note s = flow_with_spec[OF f[unfolded connectFlow_def], unfolded new_entry(2)]
  have "table_ok L H E (put_peer (evictIfNeededLocked c) a (new_pc now a))"
    using assms by (intro table_ok_put table_ok_evict new_entry)
  then have "table_ok L H E c2" by (rule table_ok_frame) (use s in \<open>simp add: same_table_def\<close>)
  moreover have "entry_ok L H E (a, pc3)" using s pc3 by (auto simp: entry_ok_def)
  ultimately show ?thesis using None res c' by (simp add: Connect_def table_ok_put)
qed (simp add: Connect_def assms)

lemma reconnect_loop_entry:
  "\<lbrakk> reconnect_loop L H E X ios cn ks c pc evs e0 = (c', pc', evs', r); pc_Address pc = a; \<not> connected pc \<rbrakk> \<Longrightarrow>
     entry_ok L H E (a, pc') \<and> peers c' = peers c"
proof (induction ks arbitrary: c pc evs e0)
  case Nil
  then show ?case by (auto simp: setState_def entry_ok_def connected_def)
next
  case (Cons k ks)
  obtain c1 pc1 ev1 r1 where f: "connectFlow L H E X (ios k) c pc = (c1, pc1, ev1, r1)" by (metis prod_cases4)
  note s = flow_with_spec[OF f[unfolded connectFlow_def]]
  show ?case
  proof (cases "k > 0 \<and> cn k")
    case True
    with Cons.prems show ?thesis by (auto simp: setState_def entry_ok_def connected_def)
  next
    case False
    show ?thesis
    proof (cases r1)
      case (Inl e)
      with Cons.prems False f have "reconnect_loop L H E X ios cn ks c1 pc1 (evs @ ev1) e = (c', pc', evs', r)" by simp
      with Cons.IH s Inl Cons.prems(2) show ?thesis by (auto simp: same_table_def)
    next
      case (Inr u)
      with Cons.prems False f s show ?thesis by (auto simp: same_table_def entry_ok_def connected_def)
    qed
  qed
qed

lemma fallback_loop_entry:
  "\<lbrakk> fallback_loop L H E X ios ss c pc evs = (c', pc', evs', r); pc_Address pc = a; \<not> connected pc \<rbrakk> \<Longrightarrow>
     entry_ok L H E (a, pc') \<and> peers c' = peers c"
proof (induction ss arbitrary: c pc evs)
  case Nil
  then show ?case by (auto simp: setState_def entry_ok_def connected_def)
next
  case (Cons k ks)
  obtain c1 pc1 ev1 r1 where f: "connectFlowFromStrategy L H E X (ios k) c pc k = (c1, pc1, ev1, r1)" by (metis prod_cases4)
  note s = flow_with_spec[OF f[unfolded connectFlowFromStrategy_def]]
  show ?case
  proof (cases r1)
    case (Inl e)
    with Cons.prems f have "fallback_loop L H E X ios ks c1 pc1 (evs @ ev1) = (c', pc', evs', r)" by simp
    with Cons.IH s Inl Cons.prems(2) show ?thesis by (auto simp: same_table_def)
  next
    case (Inr u)
    with Cons.prems f s show ?thesis by (auto simp: same_table_def entry_ok_def connected_def)
  qed
qed

lemma reconnecting_entry: "pc_Address (new_pc now a\<lparr>pc_State := StateReconnecting\<rparr>) = a" "\<not> connected (new_pc now a\<lparr>pc_State := StateReconnecting\<rparr>)"
  by (simp_all add: new_pc_def connected_def)

lemma table_ok_reconnect [inv_intros]:
  assumes "table_ok L H E c"
  shows "table_ok L H E (fst (Reconnect L H E X now ios cn c a))"
proof (cases "live_entry c a")
  case None
  let ?pc = "new_pc now a\<lparr>pc_State := StateReconnecting\<rparr>"
  obtain c2 pc2 evs r where f: "reconnect_loop L H E X ios cn [0..<ReconnectMaxRetries] (put_peer (close_stale c a) a ?pc) ?pc
      [\<lparr>ev_PeerAddr = a, ev_State = StateReconnecting, ev_Error = ''''\<rparr>] '''' = (c2, pc2, evs, r)" by (metis prod_cases4)
  note s = reconnect_loop_entry[OF f reconnecting_entry]
  have "table_ok L H E (put_peer (close_stale c a) a ?pc)"
    using assms reconnecting_entry by (intro table_ok_put table_ok_stale entry_ok_new)
  then have "table_ok L H E c2" by (rule table_ok_frame) (use s in simp)
  with s None f show ?thesis by (simp add: Reconnect_def setState_def new_entry(2) table_ok_put)
qed (simp add: Reconnect_def assms)

lemma table_ok_fallback [inv_intros]:
  assumes "table_ok L H E c"
  shows "table_ok L H E (fst (ReconnectWithFallback L H E X now ios c a))"
proof -
  let ?pc = "new_pc now a\<lparr>pc_State := StateReconnecting\<rparr>"
  let ?ss = "fallback_strategies (case map_of (peers c) a of Some p \<Rightarrow> pc_Strategy p | None \<Rightarrow> StrategyDirect)"
  obtain c2 pc2 evs r where f: "fallback_loop L H E X ios ?ss (put_peer (close_stale c a) a ?pc) ?pc
      [\<lparr>ev_PeerAddr = a, ev_State = StateReconnecting, ev_Error = ''''\<rparr>] = (c2, pc2, evs, r)" by (metis prod_cases4)
  note s = fallback_loop_entry[OF f reconnecting_entry]
  have "table_ok L H E (put_peer (close_stale c a) a ?pc)"
    using assms reconnecting_entry by (intro table_ok_put table_ok_stale entry_ok_new)
  then have "table_ok L H E c2" by (rule table_ok_frame) (use s in simp)
  with s f show ?thesis by (simp add: ReconnectWithFallback_def setState_def new_entry(2) table_ok_put Let_def)
qed

lemma table_ok_disconnect [inv_intros]: "table_ok L H E c \<Longrightarrow> table_ok L H E (fst (Disconnect c a))"
  by (auto simp: Disconnect_def setState_def Let_def table_ok_def AList.delete_eq distinct_map_filter split: option.splits)

lemma table_ok_new [inv_intros]: "table_ok L H E (NewConnector H cf)"
  by (simp add: NewConnector_def table_ok_def)

lemma conn_reach_table_ok: "conn_reach L H E X c \<Longrightarrow> table_ok L H E c"
  by (induction rule: conn_reach.induct) (auto intro: inv_intros)

text \<open>C26: Connected peers are authenticated. In every state reachable by connecting, reconnecting (plain or
  with falling strategies) and disconnecting, whatever the network does, a peer that counts as connected,
  directly or over Tor, has proved its address: its libp2p ID is that of a public key that matches the
  address it is listed under and that signed a handshake nonce.\<close>

theorem connected_peers_authenticated:
  assumes "conn_reach L H E X c" and "GetPeer c a = Some pc" and "connected pc"
  shows "pc_Address pc = a \<and> pc \<in> set (ActivePeers c) \<and>
     (\<exists>pk sig nonce. proves H E pk sig a nonce \<and> peerIDFromEd25519 L pk = Inr (pc_PeerID pc))"
proof -
  have "(a, pc) \<in> set (peers c)" using assms(2) by (auto simp: GetPeer_def dest: map_of_SomeD)
  with conn_reach_table_ok[OF assms(1)] assms(3) show ?thesis
    by (force simp: table_ok_def entry_ok_def owns_def ActivePeers_def)
qed

section \<open>The limit on connected peers\<close>

definition active_count :: "connector \<Rightarrow> nat" where
  "active_count c = length (ActivePeers c)"

lemma active_count_update:
  "length (filter connected (map snd (AList.update a pc ps))) \<le>
     length (filter connected (map snd ps)) + (if connected pc then 1 else 0)"
  by (induction ps) auto

lemma active_count_delete_le:
  "length (filter connected (map snd (AList.delete a ps))) \<le> length (filter connected (map snd ps))"
  by (induction ps) auto

lemma active_count_delete:
  "(a, pc) \<in> set ps \<Longrightarrow> connected pc \<Longrightarrow>
     length (filter connected (map snd (AList.delete a ps))) < length (filter connected (map snd ps))"
proof (induction ps)
  case (Cons p ps)
  then show ?case using active_count_delete_le[of a ps] by (cases p) (auto simp: less_Suc_eq_le)
qed simp

lemma oldest_peer_mem:
  "oldest_peer best ps = Some (a, pc) \<Longrightarrow> best = Some (a, pc) \<or> (a, pc) \<in> set ps \<and> connected pc"
proof (induction ps arbitrary: best)
  case (Cons p ps)
  obtain b q where p: "p = (b, q)" by fastforce
  have "oldest_peer best ps = Some (a, pc) \<or> connected q \<and> oldest_peer (Some (b, q)) ps = Some (a, pc)"
    using Cons.prems p by (cases best) (auto split: if_splits)
  with Cons.IH[of best] Cons.IH[of "Some (b, q)"] p show ?case by auto
qed simp

lemma oldest_peer_None: "oldest_peer best ps = None \<longleftrightarrow> best = None \<and> (\<forall>(a, pc) \<in> set ps. \<not> connected pc)"
  by (induction best ps rule: oldest_peer.induct) (auto split: if_splits option.splits)

text \<open>After the eviction there is room for one more connected peer.\<close>

lemma evict_room:
  assumes "int (active_count c) \<le> maxPeers c" "maxPeers c > 0" "\<forall>(a, pc) \<in> set (peers c). a \<noteq> ''''"
  shows "int (active_count (evictIfNeededLocked c)) < maxPeers c"
proof (cases "int (length (peers c)) < maxPeers c")
  case True
  then show ?thesis
    by (simp add: evictIfNeededLocked_def active_count_def ActivePeers_def)
      (metis le_less_trans length_filter_le length_map of_nat_le_iff)
next
  case False
  show ?thesis
  proof (cases "oldest_peer None (peers c)")
    case None
    then have "filter connected (map snd (peers c)) = []" by (auto simp: oldest_peer_None filter_empty_conv)
    with None False assms(2) show ?thesis by (simp add: evictIfNeededLocked_def active_count_def ActivePeers_def)
  next
    case (Some p)
    then obtain a pc where p: "oldest_peer None (peers c) = Some (a, pc)" by (cases p) auto
    with oldest_peer_mem[OF p] have mem: "(a, pc) \<in> set (peers c)" "connected pc" by auto
    with assms(3) have "a \<noteq> ''''" by auto
    with False p have "ActivePeers (evictIfNeededLocked c) = filter connected (map snd (AList.delete a (peers c)))"
      by (simp add: evictIfNeededLocked_def ActivePeers_def Let_def)
    with active_count_delete[OF mem] assms(1) show ?thesis by (simp add: active_count_def ActivePeers_def)
  qed
qed

definition limit_ok :: "connector \<Rightarrow> bool" where
  "limit_ok c \<longleftrightarrow> maxPeers c > 0 \<and> int (active_count c) \<le> maxPeers c \<and> (\<forall>(a, pc) \<in> set (peers c). a \<noteq> '''')"

lemma evict_peers_subset: "set (peers (evictIfNeededLocked c)) \<subseteq> set (peers c)" "maxPeers (evictIfNeededLocked c) = maxPeers c"
  by (auto simp: evictIfNeededLocked_def Let_def AList.delete_eq split: option.splits)

lemma put_not_connected: "\<not> connected pc \<Longrightarrow> active_count (put_peer c a pc) \<le> active_count c"
  using active_count_update[of a pc "peers c"] by (simp add: active_count_def ActivePeers_def put_peer_def)

lemma limit_ok_connect:
  assumes "limit_ok c" "a \<noteq> ''''"
  shows "limit_ok (fst (Connect L H E X now io c a))"
proof (cases "live_entry c a")
  case None
  obtain c' evs r where res: "connect_new L H E X now io c a = (c', evs, r)" by (metis prod_cases3)
  let ?c1 = "put_peer (evictIfNeededLocked c) a (new_pc now a)"
  from res obtain c2 pc2 ev2 r2 pc3 where
    f: "connectFlow L H E X io ?c1 (new_pc now a) = (c2, pc2, ev2, r2)" and c': "c' = put_peer c2 a pc3"
    by (rule connect_new_parts) blast
  have t: "peers c2 = peers ?c1" "maxPeers c2 = maxPeers c"
    using flow_with_spec[OF f[unfolded connectFlow_def]] evict_peers_subset(2) by (auto simp: same_table_def put_peer_def)
  have keys: "\<forall>(k, pc) \<in> set (peers ?c1). k \<noteq> ''''"
    using set_alist_update[of a "new_pc now a" "peers (evictIfNeededLocked c)"] evict_peers_subset(1)[of c] assms
    by (fastforce simp: put_peer_def limit_ok_def)
  have "int (active_count ?c1) < maxPeers c"
    using put_not_connected[OF new_entry(3), of "evictIfNeededLocked c" a now a] evict_room[of c] assms(1) by (simp add: limit_ok_def)
  then have "int (active_count c') \<le> maxPeers c"
    using active_count_update[of a pc3 "peers c2"] t(1) by (simp add: c' active_count_def ActivePeers_def put_peer_def split: if_splits)
  moreover have "\<forall>(k, pc) \<in> set (peers c'). k \<noteq> ''''"
    using set_alist_update[of a pc3 "peers c2"] keys t(1) assms(2) by (fastforce simp: c' put_peer_def)
  ultimately show ?thesis using None res t(2) assms(1) by (simp add: Connect_def limit_ok_def c' put_peer_def)
qed (simp add: Connect_def assms)

lemma limit_ok_disconnect:
  assumes "limit_ok c"
  shows "limit_ok (fst (Disconnect c a))"
proof (cases "map_of (peers c) a")
  case (Some pc)
  have "peers (fst (Disconnect c a)) = AList.delete a (peers c)" "maxPeers (fst (Disconnect c a)) = maxPeers c"
    using Some by (simp_all add: Disconnect_def setState_def Let_def)
  with assms active_count_delete_le[of a "peers c"] show ?thesis
    by (auto simp: limit_ok_def active_count_def ActivePeers_def AList.delete_eq)
qed (simp add: Disconnect_def assms)

text \<open>Runs of connects and disconnects; a connect to the empty address, which no peer has, is left out.\<close>

datatype conn_op = OpConnect time flow_io string | OpDisconnect string

definition conn_step :: "libp2p \<Rightarrow> hashes \<Rightarrow> ed25519 \<Rightarrow> kex \<Rightarrow> connector \<Rightarrow> conn_op \<Rightarrow> connector" where
  "conn_step L H E X c oper = (case oper of
     OpConnect now io a \<Rightarrow> if a = '''' then c else fst (Connect L H E X now io c a)
   | OpDisconnect a \<Rightarrow> fst (Disconnect c a))"

lemma conn_step_limit: "limit_ok c \<Longrightarrow> limit_ok (conn_step L H E X c oper)"
  by (simp add: conn_step_def limit_ok_connect limit_ok_disconnect split: conn_op.split)

lemma conn_steps_limit: "limit_ok c \<Longrightarrow> limit_ok (foldl (conn_step L H E X) c ops)"
  by (induction ops arbitrary: c) (simp_all add: conn_step_limit)

lemma conn_step_max: "maxPeers (conn_step L H E X c oper) = maxPeers c"
proof (cases oper)
  case (OpConnect now io a)
  obtain c' evs r where res: "connect_new L H E X now io c a = (c', evs, r)" by (metis prod_cases3)
  from res obtain c2 pc2 ev2 r2 pc3 where
    f: "connectFlow L H E X io (put_peer (evictIfNeededLocked c) a (new_pc now a)) (new_pc now a) = (c2, pc2, ev2, r2)"
    and c': "c' = put_peer c2 a pc3"
    by (rule connect_new_parts) blast
  have "maxPeers c' = maxPeers c"
    using flow_with_spec[OF f[unfolded connectFlow_def]] evict_peers_subset(2) by (auto simp: c' same_table_def put_peer_def)
  with OpConnect res show ?thesis by (simp add: conn_step_def Connect_def split: option.split)
next
  case (OpDisconnect a)
  then show ?thesis by (simp add: conn_step_def Disconnect_def setState_def Let_def split: option.split)
qed

lemma conn_steps_max: "maxPeers (foldl (conn_step L H E X) c ops) = maxPeers c"
  by (induction ops arbitrary: c) (simp_all add: conn_step_max)


section \<open>A failed connect\<close>

text \<open>A failed connect costs a live peer. At capacity, a connect to a new address first drops the least
  recently active connected peer; when the attempt then fails, its entry stays behind in the failed state
  and keeps counting towards the capacity. With no connected peer left the table grows past the limit by
  one entry with every failed connect.\<close>

theorem failed_connect_costs:
  assumes "table_ok L H E c" "map_of (peers c) a = None" "int (length (peers c)) \<ge> maxPeers c"
    and "Connect L H E X now io c a = (c', evs, Inl e)"
  shows "(\<exists>pc. GetPeer c' a = Some pc \<and> pc_State pc = StateFailed) \<and>
     (case oldest_peer None (peers c) of
        Some (b, live) \<Rightarrow> connected live \<and> (b \<noteq> '''' \<longrightarrow> GetPeer c' b = None)
      | None \<Rightarrow> length (peers c') = Suc (length (peers c)))"
proof -
  have "connect_new L H E X now io c a = (c', evs, Inl e)"
    using assms(2,4) by (simp add: Connect_def live_entry_def)
  then obtain c2 pc2 ev2 r2 pc3 where
    f: "connectFlow L H E X io (put_peer (evictIfNeededLocked c) a (new_pc now a)) (new_pc now a) = (c2, pc2, ev2, r2)"
    and c': "c' = put_peer c2 a pc3" and failed: "\<And>e'. r2 = Inl e' \<Longrightarrow> pc_State pc3 = StateFailed"
    and ok: "r2 = Inr () \<Longrightarrow> Inl e = Inr pc3"
    by (rule connect_new_parts) blast
  have st: "pc_State pc3 = StateFailed" using ok failed by (cases r2) auto
  have p2: "peers c2 = AList.update a (new_pc now a) (peers (evictIfNeededLocked c))"
    using flow_with_spec[OF f[unfolded connectFlow_def]] by (simp add: same_table_def put_peer_def)
  have new: "a \<notin> fst ` set (peers c)" using assms(2) by (simp add: map_of_eq_None_iff)
  have here: "GetPeer c' a = Some pc3" by (simp add: c' GetPeer_def put_peer_def update_conv')
  show ?thesis
  proof (cases "oldest_peer None (peers c)")
    case None
    then have "evictIfNeededLocked c = c" by (simp add: evictIfNeededLocked_def)
    with p2 new have "peers c' = AList.update a pc3 (peers c @ [(a, new_pc now a)])"
      by (simp add: c' put_peer_def alist_update_append)
    also have "\<dots> = peers c @ [(a, pc3)]" using new by (rule alist_update_middle)
    finally show ?thesis using None here st by simp
  next
    case (Some p)
    then obtain b live where b: "oldest_peer None (peers c) = Some (b, live)" by (cases p) auto
    have mem: "(b, live) \<in> set (peers c)" "connected live" using oldest_peer_mem[OF b] by auto
    have "GetPeer c' b = None" if "b \<noteq> ''''"
    proof -
      have "a \<noteq> b" using new mem(1) by force
      moreover have "peers (evictIfNeededLocked c) = AList.delete b (peers c)"
        using b assms(3) that by (simp add: evictIfNeededLocked_def Let_def)
      ultimately show ?thesis by (simp add: c' GetPeer_def put_peer_def p2 update_conv' delete_conv')
    qed
    with b mem here st show ?thesis by simp
  qed
qed

section \<open>Without the address exchange\<close>

text \<open>There is no fallback to Tor when the peer skips the address exchange. A service with no local
  addresses ends after the confirmation without an exchange, so the initiator reads the end of the stream;
  its connect then fails, although the handshake succeeded, and the peer is left in the failed state.\<close>

theorem no_tor_fallback:
  assumes "cfg_LocalAddrs sc = None"
    and "handleEnvelopeForService H E s sc kp sio t decoded = (s', resps, out)"
    and "live_entry c a = None" "fl_got io = Inl eof"
  shows "(\<forall>pk. out \<noteq> HExchange pk) \<and>
     (\<exists>e pc. snd (snd (Connect L H E X now io c a)) = Inl e \<and>
        GetPeer (fst (Connect L H E X now io c a)) a = Some pc \<and> pc_State pc = StateFailed)"
proof -
  have no: "await_confirm H E sc i req n \<noteq> HExchange pk" for i req n pk
    using assms(1) by (auto simp: await_confirm_def split: sum.splits if_splits)
  have "out \<noteq> HExchange pk" for pk using assms(2)
  proof (cases rule: handler_cases)
    case (valid nc' req)
    show ?thesis
    proof (cases resps)
      case Nil
      with valid(9) show ?thesis by auto
    next
      case (Cons r rs)
      with valid(7,8)[of r] no show ?thesis by (cases "Accepted r") auto
    qed
  qed auto
  moreover
  obtain c' evs r where res: "connect_new L H E X now io c a = (c', evs, r)" by (metis prod_cases3)
  then obtain c2 pc2 ev2 r2 pc3 where
    f: "connectFlow L H E X io (put_peer (evictIfNeededLocked c) a (new_pc now a)) (new_pc now a) = (c2, pc2, ev2, r2)"
    and c': "c' = put_peer c2 a pc3" and failed: "\<And>e'. r2 = Inl e' \<Longrightarrow> r = Inl e' \<and> pc_State pc3 = StateFailed"
    by (rule connect_new_parts) blast
  have "r2 \<noteq> Inr ()" using flow_with_spec[OF f[unfolded connectFlow_def]] assms(4) by auto
  then obtain e where "r = Inl e" "pc_State pc3 = StateFailed" using failed by (cases r2) auto
  moreover have "GetPeer c' a = Some pc3" by (simp add: c' GetPeer_def put_peer_def update_conv')
  ultimately show ?thesis using res assms(3) by (simp add: Connect_def)
qed

section \<open>Concrete flows\<close>

text \<open>A peer with the zero public key, at which the key conversion and the demonstration primitives
  compute; it accepts, sends one address, and is reached directly.\<close>

definition demo_libp2p :: libp2p where
  "demo_libp2p = \<lparr>peerIDFromEd25519 = (\<lambda>pk. Inr ''12D3''), is_multiaddr = (\<lambda>s. s \<noteq> '''')\<rparr>"

definition demo_nat_io :: nat_io where
  "demo_nat_io = \<lparr>direct_connect = (\<lambda>t as. Inr (as, 5)), punch_connect = (\<lambda>t as. Inl ''no''), punch_ticks = (\<lambda>t. []),
     relay_connect = (\<lambda>t as. Inl ''no'')\<rparr>"

definition demo_zero_response :: conn_response where
  "demo_zero_response = \<lparr>Accepted = True, rs_PubKey = PublicKey (demo_kp 0), rs_Signature = Sign demo_ed25519 (demo_kp 0) (replicate 32 7),
     rs_Nonce = replicate 32 9, Reason = ''''\<rparr>"

definition demo_flow :: "(msg_type \<times> bytes) res \<Rightarrow> flow_io" where
  "demo_flow got = \<lparr>fl_cache_now = 0, fl_find = (\<lambda>a. Inr \<lparr>lr_Address = a, lr_OnionAddr = ''x.onion''\<rparr>), fl_store_now = 0,
     fl_dial = (\<lambda>onion. Inr ()), fl_hs = demo_initiator_io\<lparr>resp_read := Inr (CONN_RESPONSE, Some demo_zero_response)\<rparr>,
     fl_our_addrs = [''/ip4/10.0.0.1''], fl_rand = Inr (replicate 12 1), fl_write = Inr (), fl_ctx_done = False,
     fl_got = got, fl_nat = demo_nat_io, fl_now = 10\<rparr>"

definition demo_connector :: "int \<Rightarrow> connector" where
  "demo_connector n = NewConnector demo_hashes \<lparr>cc_Keypair = demo_kp 1, cc_Host = True, cc_NATCfg = DefaultNATConfig,
     cc_MaxPeers = n, cc_MaxXfers = 5\<rparr>"

lemma performClientHandshake_succeeds:
  "attemptHandshake H E \<lparr>cl_keypair = kp, cl_address = our\<rparr> io target = (ms, Inr r) \<Longrightarrow>
     performClientHandshake H E io our target kp = (ms, Inr r)"
  by (auto simp: performClientHandshake_def attemptHandshake_def Let_def split: sum.splits if_splits prod.splits)

lemma demo_hs:
  "snd (performClientHandshake demo_hashes demo_ed25519 (fl_hs (demo_flow got)) our (demo_peer_addr 0) kp) =
     Inr \<lparr>PeerPubKey = replicate 32 0, PeerAddr = demo_peer_addr 0\<rparr>"
proof -
  let ?io = "demo_initiator_io\<lparr>resp_read := Inr (CONN_RESPONSE, Some demo_zero_response)\<rparr>"
  have "attemptHandshake demo_hashes demo_ed25519 \<lparr>cl_keypair = kp, cl_address = our\<rparr> ?io (demo_peer_addr 0) =
      ([SentRequest \<lparr>FromAddress = our, TargetAddress = demo_peer_addr 0, rq_Nonce = replicate 32 7, rq_Timestamp = unix_millis (in_now ?io)\<rparr>,
        SentConfirm (CreateConnConfirm demo_ed25519 kp (replicate 32 9))], Inr \<lparr>PeerPubKey = PublicKey (demo_kp 0), PeerAddr = demo_peer_addr 0\<rparr>)"
    using attempt_honest_response[OF demo_params(3,4) demo_FromSeed[of 0] demo_params(1,2), of ?io "replicate 32 7" "replicate 32 9"
        "demo_peer_addr 0" "''''" "\<lparr>cl_keypair = kp, cl_address = our\<rparr>"]
    by (simp add: demo_zero_response_def demo_peer_addr_def)
  from performClientHandshake_succeeds[OF this] show ?thesis
    by (simp add: demo_flow_def PublicKey_def demo_kp_def)
qed

definition demo_payload :: "string \<Rightarrow> bytes" where
  "demo_payload a = replicate 12 2 @ 5 # map (\<lambda>c. of_nat (of_char c)) a"

lemma demo_decrypts: "DecryptIPInfo demo_kex (demo_payload a) k (replicate 32 0) = Inr [a]"
proof -
  have "decryptGCM demo_kex (replicate 32 5) (demo_payload a) = Inr (map (\<lambda>c. of_nat (of_char c)) a)"
    by (simp add: decryptGCM_def NewCipher_ok_def gcm_NonceSize_def demo_payload_def)
  then show ?thesis by (simp add: DecryptIPInfo_def demo_shared char_byte_inverse comp_def)
qed

lemma demo_exchange:
  "snd (ExchangeIPs demo_kex (Inr n) [x] k (replicate 32 0) (Inr ()) False got) =
     (case got of Inl e \<Rightarrow> Inl ''receiving IP info''
      | Inr (t, p) \<Rightarrow> if t \<noteq> IP_EXCHANGE then Inl ''unexpected message type'' else DecryptIPInfo demo_kex p k (replicate 32 0))"
proof -
  have "EncryptIPInfo demo_kex (Inr n) [x] k (replicate 32 0) = Inr (n @ 5 # map (\<lambda>c. of_nat (of_char c)) x)"
    by (simp add: EncryptIPInfo_def demo_shared encryptGCM_def NewCipher_ok_def)
  then show ?thesis by (simp add: ExchangeIPs_def)
qed

definition demo_got :: "(msg_type \<times> bytes) res" where
  "demo_got = Inr (IP_EXCHANGE, demo_payload ''/ip4/10.0.0.2'')"

lemma demo_flow_fields [simp]:
  "fl_find (demo_flow got) a = Inr \<lparr>lr_Address = a, lr_OnionAddr = ''x.onion''\<rparr>" "fl_dial (demo_flow got) onion = Inr ()"
  "fl_our_addrs (demo_flow got) = [''/ip4/10.0.0.1'']" "fl_rand (demo_flow got) = Inr (replicate 12 1)"
  "fl_write (demo_flow got) = Inr ()" "fl_ctx_done (demo_flow got) = False" "fl_got (demo_flow got) = got"
  "fl_nat (demo_flow got) = demo_nat_io"
  by (simp_all add: demo_flow_def)

lemma demo_conn_reach:
  assumes "cn_host c" "lookupCache c = []" "pc_Address pc = demo_peer_addr 0"
  shows "\<exists>c' pc' evs. flow_reach demo_libp2p demo_hashes demo_ed25519 demo_kex (demo_flow demo_got) c pc =
     (c', pc', evs, Inr [''/ip4/10.0.0.2'']) \<and> natCfg c' = natCfg c"
  using assms
  by (simp add: flow_reach_def setState_def cachedOrFreshLookup_def demo_hs demo_exchange)
    (simp add: demo_got_def demo_decrypts demo_libp2p_def)

lemma demo_nat:
  "\<exists>pc' evs. flow_nat demo_libp2p (\<lambda>pid as. NATTraverse demo_nat_io pid as cf) io pc [''/ip4/10.0.0.2''] = (pc', evs, Inr ()) \<and>
     pc_State pc' = StateConnected"
proof -
  have nc: "\<not> is_circuit ''/ip4/10.0.0.2''" by (simp add: is_circuit_def sublist_code)
  have "nr_Strategy (NATTraverse demo_nat_io pid [''/ip4/10.0.0.2''] cf) = StrategyDirect" for pid
    by (simp add: NATTraverse_def tryDirect_def filterNonRelay_def nc demo_nat_io_def)
  then show ?thesis by (simp add: flow_nat_def setState_def buildPeerAddrInfo_def demo_libp2p_def Let_def)
qed

lemma demo_connects:
  "\<exists>pc. GetPeer (fst (Connect demo_libp2p demo_hashes demo_ed25519 demo_kex 0 (demo_flow demo_got)
      (demo_connector 1) (demo_peer_addr 0))) (demo_peer_addr 0) = Some pc \<and> pc_State pc = StateConnected"
proof -
  have c: "live_entry (demo_connector 1) (demo_peer_addr 0) = None" "evictIfNeededLocked (demo_connector 1) = demo_connector 1"
    by (simp_all add: live_entry_def demo_connector_def NewConnector_def evictIfNeededLocked_def)
  let ?c1 = "put_peer (demo_connector 1) (demo_peer_addr 0) (new_pc 0 (demo_peer_addr 0))"
  have c1: "cn_host ?c1" "lookupCache ?c1 = []" by (simp_all add: put_peer_def demo_connector_def NewConnector_def)
  obtain c' pc' evs where r: "flow_reach demo_libp2p demo_hashes demo_ed25519 demo_kex (demo_flow demo_got) ?c1 (new_pc 0 (demo_peer_addr 0)) =
     (c', pc', evs, Inr [''/ip4/10.0.0.2''])" using demo_conn_reach[OF c1 new_entry(2)] by blast
  obtain pc2 ev2 where n: "flow_nat demo_libp2p (\<lambda>pid as. NATTraverse demo_nat_io pid as (natCfg c')) (demo_flow demo_got) pc'
      [''/ip4/10.0.0.2''] = (pc2, ev2, Inr ())" "pc_State pc2 = StateConnected" using demo_nat by blast
  have "connectFlow demo_libp2p demo_hashes demo_ed25519 demo_kex (demo_flow demo_got) ?c1 (new_pc 0 (demo_peer_addr 0)) =
      (c', pc2, evs @ ev2, Inr ())" by (simp add: connectFlow_def flow_with_def r n(1))
  then have "fst (Connect demo_libp2p demo_hashes demo_ed25519 demo_kex 0 (demo_flow demo_got) (demo_connector 1) (demo_peer_addr 0)) =
      put_peer c' (demo_peer_addr 0) (pc2\<lparr>pc_LastActivity := fl_now (demo_flow demo_got)\<rparr>)"
    by (simp add: Connect_def c connect_new_def Let_def)
  then show ?thesis using n(2) by (simp add: GetPeer_def put_peer_def update_conv')
qed

theorem connected_peers_authenticated_witness:
  "\<exists>pk sig nonce pid. proves demo_hashes demo_ed25519 pk sig (demo_peer_addr 0) nonce \<and> peerIDFromEd25519 demo_libp2p pk = Inr pid"
proof -
  let ?c = "fst (Connect demo_libp2p demo_hashes demo_ed25519 demo_kex 0 (demo_flow demo_got)
      (demo_connector 1) (demo_peer_addr 0))"
  have r: "conn_reach demo_libp2p demo_hashes demo_ed25519 demo_kex ?c"
    unfolding demo_connector_def by (intro conn_reach.intros)
  obtain pc where pc: "GetPeer ?c (demo_peer_addr 0) = Some pc" "connected pc" using demo_connects by (auto simp: connected_def)
  from connected_peers_authenticated[OF r pc] show ?thesis by blast
qed

text \<open>The connected peer is dropped when a second connect, at a limit of one, finds no one.\<close>

definition demo_full :: connector where
  "demo_full = fst (Connect demo_libp2p demo_hashes demo_ed25519 demo_kex 0 (demo_flow demo_got) (demo_connector 1) (demo_peer_addr 0))"

definition demo_lost :: flow_io where
  "demo_lost = (demo_flow (Inl ''EOF''))\<lparr>fl_find := (\<lambda>a. Inl ''not found'')\<rparr>"

lemma demo_full_ok: "table_ok demo_libp2p demo_hashes demo_ed25519 demo_full"
  unfolding demo_full_def demo_connector_def by (intro conn_reach_table_ok[where X = demo_kex] conn_reach.intros)

lemma demo_full_table: "\<exists>pc. peers demo_full = [(demo_peer_addr 0, pc)] \<and> connected pc \<and> maxPeers demo_full = 1"
proof -
  obtain c' evs r where res: "connect_new demo_libp2p demo_hashes demo_ed25519 demo_kex 0 (demo_flow demo_got) (demo_connector 1)
      (demo_peer_addr 0) = (c', evs, r)" by (metis prod_cases3)
  have c: "live_entry (demo_connector 1) (demo_peer_addr 0) = None" "peers (evictIfNeededLocked (demo_connector 1)) = []"
    "maxPeers (demo_connector 1) = 1"
    by (simp_all add: live_entry_def demo_connector_def NewConnector_def evictIfNeededLocked_def)
  then have full: "demo_full = c'" using res by (simp add: demo_full_def Connect_def)
  from res obtain c2 pc2 ev2 r2 pc3 where
    f: "connectFlow demo_libp2p demo_hashes demo_ed25519 demo_kex (demo_flow demo_got)
      (put_peer (evictIfNeededLocked (demo_connector 1)) (demo_peer_addr 0) (new_pc 0 (demo_peer_addr 0))) (new_pc 0 (demo_peer_addr 0)) = (c2, pc2, ev2, r2)"
    and c': "c' = put_peer c2 (demo_peer_addr 0) pc3"
    by (rule connect_new_parts) blast
  have "peers c2 = [(demo_peer_addr 0, new_pc 0 (demo_peer_addr 0))]" "maxPeers c2 = 1"
    using flow_with_spec[OF f[unfolded connectFlow_def]] c evict_peers_subset(2) by (auto simp: same_table_def put_peer_def)
  then have "peers demo_full = [(demo_peer_addr 0, pc3)]" "maxPeers demo_full = 1" by (simp_all add: full c' put_peer_def)
  moreover have "connected pc3" using demo_connects calculation(1) by (auto simp: demo_full_def [symmetric] GetPeer_def connected_def)
  ultimately show ?thesis by blast
qed

lemma demo_other: "''q'' \<noteq> demo_peer_addr 0"
proof -
  have "length (demo_peer_addr 0) = 25" by (simp add: demo_peer_addr_def DeriveAddress_def demo_hashes_def hash160_def checksum_def Let_def)
  then show ?thesis by (metis length_Cons list.size(3) numeral_eq_Suc nat.inject Suc_neq_Zero pred_numeral_simps(3) One_nat_def)
qed

theorem failed_connect_costs_witness:
  "\<exists>c' evs e. Connect demo_libp2p demo_hashes demo_ed25519 demo_kex 20 demo_lost demo_full ''q'' = (c', evs, Inl e) \<and>
     GetPeer c' (demo_peer_addr 0) = None"
proof -
  obtain pc where full: "peers demo_full = [(demo_peer_addr 0, pc)]" "connected pc" "maxPeers demo_full = 1" using demo_full_table by blast
  have none: "map_of (peers demo_full) ''q'' = None" using full(1) demo_other by simp
  obtain c' evs r where res: "Connect demo_libp2p demo_hashes demo_ed25519 demo_kex 20 demo_lost demo_full ''q'' = (c', evs, r)"
    by (metis prod_cases3)
  have "connect_new demo_libp2p demo_hashes demo_ed25519 demo_kex 20 demo_lost demo_full ''q'' = (c', evs, r)"
    using res none by (simp add: Connect_def live_entry_def)
  then obtain c2 pc2 ev2 r2 pc3 where
    f: "connectFlow demo_libp2p demo_hashes demo_ed25519 demo_kex demo_lost
      (put_peer (evictIfNeededLocked demo_full) ''q'' (new_pc 20 ''q'')) (new_pc 20 ''q'') = (c2, pc2, ev2, r2)"
    and failed: "\<And>e. r2 = Inl e \<Longrightarrow> r = Inl e"
    by (rule connect_new_parts) blast
  have "fl_got demo_lost = Inl ''EOF''" by (simp add: demo_lost_def)
  then have "r2 \<noteq> Inr ()" using flow_with_spec[OF f[unfolded connectFlow_def]] by auto
  then obtain e where e: "r = Inl e" using failed by (cases r2) auto
  have cap: "int (length (peers demo_full)) \<ge> maxPeers demo_full" using full by simp
  have "oldest_peer None (peers demo_full) = Some (demo_peer_addr 0, pc)" using full(1,2) by simp
  moreover have "demo_peer_addr 0 \<noteq> ''''" by (simp add: demo_peer_addr_def DeriveAddress_def demo_hashes_def Let_def)
  ultimately show ?thesis using failed_connect_costs[OF demo_full_ok none cap res[unfolded e]] res e by auto
qed

theorem no_tor_fallback_witness:
  "\<exists>e. snd (snd (Connect demo_libp2p demo_hashes demo_ed25519 demo_kex 0 (demo_flow (Inl ''EOF'')) (demo_connector 1) (demo_peer_addr 0))) = Inl e"
proof -
  let ?sc = "demo_config\<lparr>cfg_LocalAddrs := None\<rparr>"
  obtain s' resps out where h: "handleEnvelopeForService demo_hashes demo_ed25519 NewServer ?sc (demo_kp 2) (demo_responder_io True)
      CONN_REQUEST (Some demo_request) = (s', resps, out)" by (metis prod_cases3)
  have "live_entry (demo_connector 1) (demo_peer_addr 0) = None" by (simp add: live_entry_def demo_connector_def NewConnector_def)
  from no_tor_fallback[OF _ h this, of "demo_flow (Inl ''EOF'')" "''EOF''" demo_libp2p demo_kex 0] show ?thesis by auto
qed

end
