(* ===== verification/Transfer_Slots.thy ===== *)
theory Transfer_Slots
  imports Go_Prelude
begin

text \<open>
  The transfer slots of the connector (\<open>src/internal/transport/connector.go\<close>): an \<open>int32\<close> counter
  taken by a compare-and-swap loop and returned by an atomic add, from any number of goroutines. Every atomic
  operation is one step of an interleaving.
\<close>

definition wrap32 :: "int \<Rightarrow> int" where
  "wrap32 n = (n + 2 ^ 31) mod 2 ^ 32 - 2 ^ 31"

text \<open>A goroutine outside, inside \<open>AcquireTransferSlot\<close> with the value it loaded, or holding a slot.\<close>

datatype slot_thread = Outside | Loaded int | Holding

record slots =
  activeXfers :: int
  threads :: "nat \<Rightarrow> slot_thread"

definition no_slots_taken :: slots where
  "no_slots_taken = \<lparr>activeXfers = 0, threads = (\<lambda>_. Outside)\<rparr>"

inductive slot_step :: "int \<Rightarrow> slots \<Rightarrow> slots \<Rightarrow> bool" for limit where
  load: "threads s i = Outside \<Longrightarrow>
     slot_step limit s (s\<lparr>threads := (threads s)(i := Loaded (activeXfers s))\<rparr>)"
| refuse: "threads s i = Loaded cur \<Longrightarrow> cur \<ge> limit \<Longrightarrow> slot_step limit s (s\<lparr>threads := (threads s)(i := Outside)\<rparr>)"
| swap: "threads s i = Loaded cur \<Longrightarrow> cur < limit \<Longrightarrow> activeXfers s = cur \<Longrightarrow>
     slot_step limit s (s\<lparr>activeXfers := wrap32 (cur + 1), threads := (threads s)(i := Holding)\<rparr>)"
| retry: "threads s i = Loaded cur \<Longrightarrow> cur < limit \<Longrightarrow> activeXfers s \<noteq> cur \<Longrightarrow>
     slot_step limit s (s\<lparr>threads := (threads s)(i := Outside)\<rparr>)"
| release: "threads s i = Holding \<Longrightarrow>
     slot_step limit s (s\<lparr>activeXfers := wrap32 (activeXfers s + - 1), threads := (threads s)(i := Outside)\<rparr>)"

definition holders :: "slots \<Rightarrow> nat set" where
  "holders s = {i. threads s i = Holding}"

definition slots_ok :: "int \<Rightarrow> slots \<Rightarrow> bool" where
  "slots_ok limit s \<longleftrightarrow> finite (holders s) \<and> activeXfers s = int (card (holders s)) \<and> activeXfers s \<le> limit"

lemma wrap32_id: "- (2 ^ 31) \<le> n \<Longrightarrow> n < 2 ^ 31 \<Longrightarrow> wrap32 n = n"
  by (simp add: wrap32_def)

lemma holders_same: "threads s i \<noteq> Holding \<Longrightarrow> x \<noteq> Holding \<Longrightarrow> holders (s\<lparr>threads := (threads s)(i := x)\<rparr>) = holders s"
  by (auto simp: holders_def)

lemma slots_ok_step:
  assumes "slots_ok limit s" "slot_step limit s s'" "limit < 2 ^ 31"
  shows "slots_ok limit s'"
  using assms(2)
proof cases
  case (load i)
  with assms(1) show ?thesis using holders_same[of s i] by (simp add: slots_ok_def)
next
  case (refuse i cur)
  with assms(1) show ?thesis using holders_same[of s i] by (simp add: slots_ok_def)
next
  case (retry i cur)
  with assms(1) show ?thesis using holders_same[of s i] by (simp add: slots_ok_def)
next
  case (swap i cur)
  have h: "holders s' = insert i (holders s)" "i \<notin> holders s" using swap by (auto simp: holders_def)
  have "wrap32 (cur + 1) = cur + 1" using assms(1,3) swap by (intro wrap32_id) (auto simp: slots_ok_def)
  with assms(1) swap h show ?thesis by (simp add: slots_ok_def)
next
  case (release i)
  have h: "holders s' = holders s - {i}" "i \<in> holders s" using release by (auto simp: holders_def)
  then have pos: "card (holders s) > 0" using assms(1) by (auto simp: slots_ok_def card_gt_0_iff)
  have "wrap32 (activeXfers s + - 1) = activeXfers s - 1" using assms(1,3) pos by (subst wrap32_id) (auto simp: slots_ok_def)
  with assms(1) release h pos show ?thesis by (simp add: slots_ok_def card_Diff_singleton of_nat_diff)
qed

text \<open>The transfer limit holds under every interleaving. For any number of goroutines that acquire and
  release slots, in every order of their atomic steps, the counter is exactly the number of goroutines that
  hold a slot and never exceeds the limit; the counter never wraps.\<close>

theorem slots_never_exceeded:
  assumes "(slot_step limit)\<^sup>*\<^sup>* no_slots_taken s" and "0 \<le> limit" "limit < 2 ^ 31"
  shows "finite (holders s) \<and> activeXfers s = int (card (holders s)) \<and> int (card (holders s)) \<le> limit"
proof -
  have "slots_ok limit s" using assms(1)
  proof (induction rule: rtranclp_induct)
    case base
    then show ?case using assms(2) by (simp add: slots_ok_def no_slots_taken_def holders_def)
  next
    case (step t u)
    then show ?case using slots_ok_step assms(3) by blast
  qed
  then show ?thesis by (simp add: slots_ok_def)
qed

text \<open>Two goroutines race for one slot: both load 0, the first swap wins, the second retries and is refused.\<close>

definition demo_race :: slots where
  "demo_race = \<lparr>activeXfers = 1, threads = (\<lambda>_. Outside)(0 := Holding)\<rparr>"

lemma demo_race_reached: "(slot_step 1)\<^sup>*\<^sup>* no_slots_taken demo_race"
proof -
  let ?t0 = "\<lambda>_ :: nat. Outside"
  have s1: "slot_step 1 no_slots_taken \<lparr>activeXfers = 0, threads = ?t0(0 := Loaded 0)\<rparr>"
    using slot_step.load[of no_slots_taken 0 1] by (simp add: no_slots_taken_def)
  have s2: "slot_step 1 \<lparr>activeXfers = 0, threads = ?t0(0 := Loaded 0)\<rparr> \<lparr>activeXfers = 0, threads = ?t0(0 := Loaded 0, 1 := Loaded 0)\<rparr>"
    using slot_step.load[of "\<lparr>activeXfers = 0, threads = ?t0(0 := Loaded 0)\<rparr>" 1 1] by simp
  have s3: "slot_step 1 \<lparr>activeXfers = 0, threads = ?t0(0 := Loaded 0, 1 := Loaded 0)\<rparr>
      \<lparr>activeXfers = 1, threads = ?t0(0 := Holding, 1 := Loaded 0)\<rparr>"
    using slot_step.swap[of "\<lparr>activeXfers = 0, threads = ?t0(0 := Loaded 0, 1 := Loaded 0)\<rparr>" 0 0 1]
    by (simp add: wrap32_def fun_upd_twist)
  have s4: "slot_step 1 \<lparr>activeXfers = 1, threads = ?t0(0 := Holding, 1 := Loaded 0)\<rparr> demo_race"
    using slot_step.retry[of "\<lparr>activeXfers = 1, threads = ?t0(0 := Holding, 1 := Loaded 0)\<rparr>" 1 0 1]
    by (simp add: demo_race_def fun_upd_twist fun_upd_idem)
  note into = rtranclp.rtrancl_into_rtrancl
  show ?thesis by (rule into[OF into[OF into[OF r_into_rtranclp[of "slot_step 1", OF s1] s2] s3] s4])
qed

theorem slots_never_exceeded_witness: "activeXfers demo_race = 1 \<and> int (card (holders demo_race)) \<le> 1"
  using slots_never_exceeded[OF demo_race_reached] by (simp add: demo_race_def)

end
