(* ===== verification/Event_Bus.thy ===== *)
theory Event_Bus
  imports Go_Prelude "HOL-Library.Sublist"
begin

text \<open>
  The event bus (\<open>src/internal/node/events.go\<close>): subscribers by event type, each a channel with a buffer
  of 64, and a publisher that never blocks. A channel is its buffer; receiving from it is a step of the
  subscriber.
\<close>

section \<open>Model\<close>

datatype event_type =
    EventTorBootstrap | EventTorReady | EventPeerDiscovered | EventConnectionReq | EventConnectionState
  | EventChatMessage | EventFileOffer | EventFileProgress | EventPeerOnline | EventError

record 'p event =
  ev_Type :: event_type
  ev_Payload :: 'p

definition subscriberBuffer :: nat where "subscriberBuffer = 64"

record 'p event_bus =
  subs :: "event_type \<Rightarrow> nat list"
  buffers :: "nat \<Rightarrow> 'p event list"
  next_chan :: nat

definition NewEventBus :: "'p event_bus" where
  "NewEventBus = \<lparr>subs = (\<lambda>_. []), buffers = (\<lambda>_. []), next_chan = 0\<rparr>"

definition Subscribe :: "'p event_bus \<Rightarrow> event_type \<Rightarrow> 'p event_bus \<times> nat" where
  "Subscribe b t =
     (b\<lparr>subs := (subs b)(t := subs b t @ [next_chan b]), buffers := (buffers b)(next_chan b := []),
        next_chan := Suc (next_chan b)\<rparr>, next_chan b)"

definition allEventTypes :: "event_type list" where
  "allEventTypes = [EventTorBootstrap, EventTorReady, EventPeerDiscovered, EventConnectionReq, EventConnectionState,
     EventChatMessage, EventFileOffer, EventFileProgress, EventPeerOnline, EventError]"

text \<open>\<open>SubscribeAll\<close>: the merged channel and one subscription per type, each with its forwarder.\<close>

definition SubscribeAll :: "'p event_bus \<Rightarrow> 'p event_bus \<times> nat \<times> nat list" where
  "SubscribeAll b =
     (let merged = next_chan b; b0 = b\<lparr>buffers := (buffers b)(merged := []), next_chan := Suc merged\<rparr>;
          (b', chs) = foldl (\<lambda>(b, chs) t. case Subscribe b t of (b', ch) \<Rightarrow> (b', chs @ [ch])) (b0, []) allEventTypes
      in (b', merged, chs))"

text \<open>A send that does not block, into one channel.\<close>

definition try_send :: "'p event_bus \<Rightarrow> 'p event \<Rightarrow> nat \<Rightarrow> 'p event_bus" where
  "try_send b e ch =
     (if length (buffers b ch) < subscriberBuffer then b\<lparr>buffers := (buffers b)(ch := buffers b ch @ [e])\<rparr> else b)"

definition Publish :: "'p event_bus \<Rightarrow> 'p event \<Rightarrow> 'p event_bus" where
  "Publish b e = foldl (\<lambda>b ch. try_send b e ch) b (subs b (ev_Type e))"

text \<open>A receive by the subscriber; it waits while the channel is empty.\<close>

definition bus_recv :: "'p event_bus \<Rightarrow> nat \<Rightarrow> ('p event_bus \<times> 'p event) option" where
  "bus_recv b ch =
     (case buffers b ch of [] \<Rightarrow> None | e # es \<Rightarrow> Some (b\<lparr>buffers := (buffers b)(ch := es)\<rparr>, e))"

text \<open>One turn of \<open>forwardUntilDone\<close>: the event in hand, then the next one from the source. The send into the
  merged channel waits for room; the context may end at any wait.\<close>

datatype 'p forwarder = FwIdle | FwHolding "'p event" | FwDone

definition forward_step :: "bool \<Rightarrow> 'p event_bus \<Rightarrow> nat \<Rightarrow> nat \<Rightarrow> 'p forwarder \<Rightarrow> 'p event_bus \<times> 'p forwarder" where
  "forward_step ctx_done b src dst f = (case f of
     FwDone \<Rightarrow> (b, FwDone)
   | FwIdle \<Rightarrow> if ctx_done then (b, FwDone)
       else (case bus_recv b src of None \<Rightarrow> (b, FwIdle) | Some (b', e) \<Rightarrow> (b', FwHolding e))
   | FwHolding e \<Rightarrow> if length (buffers b dst) < subscriberBuffer
       then (b\<lparr>buffers := (buffers b)(dst := buffers b dst @ [e])\<rparr>, FwIdle)
       else if ctx_done then (b, FwDone) else (b, FwHolding e))"

section \<open>Channels\<close>

text \<open>Every channel of a reachable bus belongs to one type and is subscribed once.\<close>

definition subs_ok :: "'p event_bus \<Rightarrow> bool" where
  "subs_ok b \<longleftrightarrow> (\<forall>t. distinct (subs b t)) \<and> (\<forall>t. \<forall>ch \<in> set (subs b t). ch < next_chan b) \<and>
     (\<forall>t t'. t \<noteq> t' \<longrightarrow> set (subs b t) \<inter> set (subs b t') = {})"

lemma subs_ok_New: "subs_ok NewEventBus"
  by (simp add: subs_ok_def NewEventBus_def)

lemma subs_ok_Subscribe: "subs_ok b \<Longrightarrow> subs_ok (fst (Subscribe b t))"
  by (auto simp: subs_ok_def Subscribe_def less_Suc_eq split: if_splits)

lemma subs_ok_frame: "subs_ok b \<Longrightarrow> subs b' = subs b \<Longrightarrow> next_chan b' = next_chan b \<Longrightarrow> subs_ok b'"
  by (simp add: subs_ok_def)

lemma send_fold:
  assumes "distinct chs"
  shows "subs (foldl (\<lambda>b ch. try_send b e ch) b chs) = subs b \<and>
     next_chan (foldl (\<lambda>b ch. try_send b e ch) b chs) = next_chan b \<and>
     buffers (foldl (\<lambda>b ch. try_send b e ch) b chs) c =
       (if c \<in> set chs \<and> length (buffers b c) < subscriberBuffer then buffers b c @ [e] else buffers b c)"
  using assms by (induction chs arbitrary: b) (auto simp: try_send_def)

lemma Publish_effect:
  assumes "subs_ok b"
  shows "subs (Publish b e) = subs b" "next_chan (Publish b e) = next_chan b"
    "buffers (Publish b e) ch =
       (if ch \<in> set (subs b (ev_Type e)) \<and> length (buffers b ch) < subscriberBuffer then buffers b ch @ [e] else buffers b ch)"
  using send_fold[of "subs b (ev_Type e)" e b] assms by (auto simp: Publish_def subs_ok_def)

section \<open>Delivery\<close>

text \<open>Runs of publishers and subscribers. The log has what was published; per channel, where in it the
  subscription began, what was received, and how many events met a full buffer.\<close>

datatype 'p bus_op = BSubscribe event_type | BPublish "'p event" | BRecv nat

record 'p bus_run =
  bus :: "'p event_bus"
  published :: "'p event list"
  born :: "nat \<Rightarrow> nat"
  received :: "nat \<Rightarrow> 'p event list"
  lost :: "nat \<Rightarrow> nat"

definition bus_start :: "'p bus_run" where
  "bus_start = \<lparr>bus = NewEventBus, published = [], born = (\<lambda>_. 0), received = (\<lambda>_. []), lost = (\<lambda>_. 0)\<rparr>"

definition full_for :: "'p event_bus \<Rightarrow> 'p event \<Rightarrow> nat \<Rightarrow> bool" where
  "full_for b e ch \<longleftrightarrow> ch \<in> set (subs b (ev_Type e)) \<and> length (buffers b ch) \<ge> subscriberBuffer"

definition bus_step :: "'p bus_run \<Rightarrow> 'p bus_op \<Rightarrow> 'p bus_run" where
  "bus_step r oper = (case oper of
     BSubscribe t \<Rightarrow> (case Subscribe (bus r) t of (b, ch) \<Rightarrow>
        r\<lparr>bus := b, born := (born r)(ch := length (published r)), received := (received r)(ch := []), lost := (lost r)(ch := 0)\<rparr>)
   | BPublish e \<Rightarrow> r\<lparr>bus := Publish (bus r) e, published := published r @ [e],
        lost := (\<lambda>ch. if full_for (bus r) e ch then Suc (lost r ch) else lost r ch)\<rparr>
   | BRecv ch \<Rightarrow> (case bus_recv (bus r) ch of
        None \<Rightarrow> r
      | Some (b, e) \<Rightarrow> r\<lparr>bus := b, received := (received r)(ch := received r ch @ [e])\<rparr>))"

text \<open>The events of its type published since a channel was subscribed, and those that entered it.\<close>

definition owed :: "'p bus_run \<Rightarrow> event_type \<Rightarrow> nat \<Rightarrow> 'p event list" where
  "owed r t ch = filter (\<lambda>e. ev_Type e = t) (drop (born r ch) (published r))"

definition entered :: "'p bus_run \<Rightarrow> nat \<Rightarrow> 'p event list" where
  "entered r ch = received r ch @ buffers (bus r) ch"

definition chan_ok :: "'p bus_run \<Rightarrow> event_type \<Rightarrow> nat \<Rightarrow> bool" where
  "chan_ok r t ch \<longleftrightarrow> born r ch \<le> length (published r) \<and> subseq (entered r ch) (owed r t ch) \<and>
     length (entered r ch) + lost r ch = length (owed r t ch) \<and> length (buffers (bus r) ch) \<le> subscriberBuffer"

definition run_ok :: "'p bus_run \<Rightarrow> bool" where
  "run_ok r \<longleftrightarrow> subs_ok (bus r) \<and> (\<forall>t. \<forall>ch \<in> set (subs (bus r) t). chan_ok r t ch)"

lemma run_ok_Subscribe:
  assumes "run_ok r"
  shows "run_ok (bus_step r (BSubscribe t))"
  unfolding run_ok_def
proof (intro conjI allI ballI)
  let ?r = "bus_step r (BSubscribe t)"
  show "subs_ok (bus ?r)" using assms subs_ok_Subscribe[of "bus r" t] by (simp add: run_ok_def bus_step_def case_prod_unfold)
  fix t' ch assume mem: "ch \<in> set (subs (bus ?r) t')"
  show "chan_ok ?r t' ch"
  proof (cases "ch = next_chan (bus r)")
    case True
    then show ?thesis by (simp add: chan_ok_def bus_step_def Subscribe_def owed_def entered_def)
  next
    case False
    with mem have "ch \<in> set (subs (bus r) t')" by (auto simp: bus_step_def Subscribe_def split: if_splits)
    with assms have "chan_ok r t' ch" by (simp add: run_ok_def)
    with False show ?thesis by (simp add: chan_ok_def bus_step_def Subscribe_def owed_def entered_def)
  qed
qed

lemma run_ok_Publish:
  assumes "run_ok r"
  shows "run_ok (bus_step r (BPublish e))"
  unfolding run_ok_def
proof (intro conjI allI ballI)
  let ?r = "bus_step r (BPublish e)"
  have s: "subs_ok (bus r)" using assms by (simp add: run_ok_def)
  note eff = Publish_effect[OF s]
  show "subs_ok (bus ?r)" using subs_ok_frame[OF s eff(1,2)] by (simp add: bus_step_def)
  fix t ch assume "ch \<in> set (subs (bus ?r) t)"
  then have mem: "ch \<in> set (subs (bus r) t)" by (simp add: bus_step_def eff(1))
  then have mine: "ch \<in> set (subs (bus r) (ev_Type e)) \<longleftrightarrow> ev_Type e = t" using s unfolding subs_ok_def by blast
  have ok: "chan_ok r t ch" using assms mem by (simp add: run_ok_def)
  have ow: "owed ?r t ch = owed r t ch @ (if ev_Type e = t then [e] else [])"
    using ok by (simp add: owed_def bus_step_def chan_ok_def)
  show "chan_ok ?r t ch"
  proof (cases "ev_Type e = t \<and> length (buffers (bus r) ch) < subscriberBuffer")
    case True
    then have "entered ?r ch = entered r ch @ [e]" "lost ?r ch = lost r ch"
      "length (buffers (bus ?r) ch) \<le> subscriberBuffer"
      using mine by (simp_all add: entered_def bus_step_def eff(3) full_for_def)
    with ok ow True show ?thesis by (simp add: chan_ok_def bus_step_def list_emb_append_mono)
  next
    case False
    then have "buffers (bus ?r) ch = buffers (bus r) ch" "lost ?r ch = lost r ch + (if ev_Type e = t then 1 else 0)"
      using mine by (auto simp: bus_step_def eff(3) full_for_def)
    with ok ow show ?thesis by (auto simp: chan_ok_def entered_def bus_step_def intro: list_emb_append2)
  qed
qed

lemma run_ok_Recv:
  assumes "run_ok r"
  shows "run_ok (bus_step r (BRecv c))"
proof (cases "buffers (bus r) c")
  case Nil
  then show ?thesis using assms by (simp add: bus_step_def bus_recv_def)
next
  case (Cons e es)
  let ?r = "bus_step r (BRecv c)"
  have r': "bus ?r = (bus r)\<lparr>buffers := (buffers (bus r))(c := es)\<rparr>" "born ?r = born r" "published ?r = published r" "lost ?r = lost r"
    "received ?r = (received r)(c := received r c @ [e])"
    using Cons by (simp_all add: bus_step_def bus_recv_def)
  have same: "entered ?r ch = entered r ch" "owed ?r t ch = owed r t ch" "subs (bus ?r) t = subs (bus r) t" for t ch
    using Cons by (simp_all add: entered_def owed_def r')
  have "length (buffers (bus ?r) ch) \<le> length (buffers (bus r) ch)" for ch using Cons by (simp add: r')
  then have "chan_ok ?r t ch" if "chan_ok r t ch" for t ch
    using that order_trans by (fastforce simp: chan_ok_def same r'(2-4))
  moreover have "subs_ok (bus ?r)" using assms by (auto simp: run_ok_def r' intro: subs_ok_frame)
  ultimately show ?thesis using assms by (simp add: run_ok_def same)
qed

lemma run_ok_step: "run_ok r \<Longrightarrow> run_ok (bus_step r oper)"
  by (cases oper) (simp_all add: run_ok_Subscribe run_ok_Publish run_ok_Recv)

lemma run_ok_steps: "run_ok r \<Longrightarrow> run_ok (foldl bus_step r ops)"
  by (induction ops arbitrary: r) (simp_all add: run_ok_step)

text \<open>Events are delivered in order, and are lost only to a full buffer. Over any interleaving of
  subscriptions, publications and receives, what a subscriber has received and still has waiting is, in
  order, a subsequence of the events of its type published since it subscribed; at most 64 wait; and exactly
  those are missing that were published while 64 were waiting, so a subscriber that never fell that far
  behind has every event.\<close>

theorem events_delivered_in_order:
  assumes "r = foldl bus_step bus_start ops" and "ch \<in> set (subs (bus r) t)"
  shows "subseq (received r ch @ buffers (bus r) ch) (owed r t ch) \<and> length (buffers (bus r) ch) \<le> 64 \<and>
     length (received r ch @ buffers (bus r) ch) + lost r ch = length (owed r t ch) \<and>
     (lost r ch = 0 \<longrightarrow> received r ch @ buffers (bus r) ch = owed r t ch)"
proof -
  have "run_ok bus_start" by (simp add: run_ok_def bus_start_def subs_ok_New) (simp add: NewEventBus_def)
  then have "run_ok r" using run_ok_steps assms(1) by blast
  then have "chan_ok r t ch" using assms(2) by (simp add: run_ok_def)
  then show ?thesis by (auto simp: chan_ok_def entered_def subscriberBuffer_def intro: subseq_same_length)
qed

theorem events_delivered_in_order_witness:
  "let e = \<lparr>ev_Type = EventError, ev_Payload = (1 :: nat)\<rparr>; r = foldl bus_step bus_start [BSubscribe EventError, BPublish e, BRecv 0]
   in received r 0 @ buffers (bus r) 0 = [e]"
proof -
  let ?e = "\<lparr>ev_Type = EventError, ev_Payload = (1 :: nat)\<rparr>"
  let ?r = "foldl bus_step bus_start [BSubscribe EventError, BPublish ?e, BRecv 0]"
  have "0 \<in> set (subs (bus ?r) EventError)" "lost ?r 0 = 0" "owed ?r EventError 0 = [?e]"
    by (simp_all add: bus_step_def bus_start_def NewEventBus_def Subscribe_def Publish_def try_send_def bus_recv_def
        subscriberBuffer_def full_for_def owed_def)
  with events_delivered_in_order[OF refl, of 0 "[BSubscribe EventError, BPublish ?e, BRecv 0]" EventError] show ?thesis
    by (simp add: Let_def)
qed

end
