(* ===== verification/Chat.thy ===== *)
theory Chat
  imports Registry_Props Codec Event_Bus
begin

text \<open>
  Chat (\<open>src/internal/chat/history.go\<close>, \<open>service.go\<close>): the bounded history per peer, and the service
  that sends a signed text and waits for its acknowledgement, or takes in a text, records it, publishes it
  and acknowledges it. The service it answers for is looked up by name at each message, through an interface
  the registry provides. The protobuf encodings of the two messages are parameters; what a stream does is an
  argument.
\<close>

section \<open>History\<close>

datatype direction = Outgoing | Incoming

record message =
  msg_ID :: string
  msg_From :: string
  msg_To :: string
  msg_Text :: string
  msg_SentAt :: time
  msg_AckedAt :: "time option"
  msg_Direction :: direction

type_synonym history = "string \<rightharpoonup> message list"

definition maxMessagesPerPeer :: nat where "maxMessagesPerPeer = 1000"

definition NewHistory :: history where "NewHistory = Map.empty"

definition Append :: "history \<Rightarrow> string \<Rightarrow> message \<Rightarrow> history" where
  "Append h peer msg =
     (let msgs = (case h peer of None \<Rightarrow> [] | Some ms \<Rightarrow> ms) @ [msg]
      in h(peer \<mapsto> (if length msgs > maxMessagesPerPeer then drop (length msgs - maxMessagesPerPeer) msgs else msgs)))"

definition GetConversation :: "history \<Rightarrow> string \<Rightarrow> message list option" where
  "GetConversation h peer = h peer"

text \<open>A negative \<open>n\<close> reaches \<open>make\<close> with a negative length.\<close>

definition GetLatest :: "history \<Rightarrow> string \<Rightarrow> int \<Rightarrow> message list option res" where
  "GetLatest h peer n =
     (case h peer of
        None \<Rightarrow> Inr None
      | Some msgs \<Rightarrow>
          if n \<ge> int (length msgs) then Inr (Some msgs)
          else if n < 0 then Inl ''panic: makeslice: len out of range''
          else Inr (Some (drop (length msgs - nat n) msgs)))"

definition Clear :: "history \<Rightarrow> string \<Rightarrow> history" where
  "Clear h peer = h(peer := None)"

section \<open>The service\<close>

record chat_codec =
  ChatText_Marshal :: "string \<times> string \<Rightarrow> bytes res"
  ChatText_Unmarshal :: "bytes \<Rightarrow> (string \<times> string) res"
  ChatAck_Marshal :: "string \<Rightarrow> bytes res"
  ChatAck_Unmarshal :: "bytes \<Rightarrow> string res"

record chat_service =
  eventBus :: "message event_bus"
  chat_history :: "history option"
  lookup :: "(string \<Rightarrow> service option) option"
  serviceName :: string

text \<open>\<open>StaticLookup\<close>: one service under its own name.\<close>

definition StaticLookup :: "service option \<Rightarrow> string \<Rightarrow> service option" where
  "StaticLookup svc name = (case svc of None \<Rightarrow> None | Some s \<Rightarrow> if Name s \<noteq> name then None else Some s)"

definition resolveService :: "chat_service \<Rightarrow> service res" where
  "resolveService s =
     (case lookup s of
        None \<Rightarrow> Inl ''chat: no service registry configured''
      | Some get \<Rightarrow> (case get (serviceName s) of None \<Rightarrow> Inl ''chat: service not registered'' | Some svc \<Rightarrow> Inr svc))"

definition ingest :: "chat_service \<Rightarrow> message \<Rightarrow> chat_service" where
  "ingest s msg =
     (let s1 = (case chat_history s of None \<Rightarrow> s | Some h \<Rightarrow> s\<lparr>chat_history := Some (Append h (msg_From msg) msg)\<rparr>)
      in s1\<lparr>eventBus := Publish (eventBus s1) \<lparr>ev_Type = EventChatMessage, ev_Payload = msg\<rparr>\<rparr>)"

definition hex_digit :: "nat \<Rightarrow> char" where
  "hex_digit n = (if n < 10 then char_of (48 + n) else char_of (87 + n))"

definition generateID :: "bytes \<Rightarrow> string" where
  "generateID b = concat (map (\<lambda>w. [hex_digit (unat w div 16), hex_digit (unat w mod 16)]) b)"

definition OnChatMessage :: "time \<Rightarrow> bytes \<Rightarrow> chat_service \<Rightarrow> string \<Rightarrow> string \<Rightarrow> chat_service \<times> unit res" where
  "OnChatMessage now rand s fromAddr text =
     (case resolveService s of
        Inl e \<Rightarrow> (s, Inl e)
      | Inr svc \<Rightarrow>
          (ingest s \<lparr>msg_ID = generateID rand, msg_From = fromAddr, msg_To = svc_Address svc, msg_Text = text,
             msg_SentAt = now, msg_AckedAt = Some now, msg_Direction = Incoming\<rparr>, Inr ()))"

text \<open>What one send meets: the random ID, the clock when wrapping and at the end, and the stream, which
  turns what was written into what is read back.\<close>

record send_io =
  sd_rand :: bytes
  sd_now :: time
  sd_open :: "unit res"
  sd_write :: "unit res"
  sd_read :: "envelope res"
  sd_end :: time

definition chat_envelope :: "ed25519 \<Rightarrow> chat_codec \<Rightarrow> send_io \<Rightarrow> service \<Rightarrow> string \<Rightarrow> envelope res" where
  "chat_envelope E C io svc text =
     (case ChatText_Marshal C (generateID (sd_rand io), text) of
        Inl e \<Rightarrow> Inl ''marshaling chat text''
      | Inr payload \<Rightarrow> Inr (WrapMessage E (sd_now io) CHAT_TEXT payload (svc_Identity svc)))"

definition check_ack :: "ed25519 \<Rightarrow> chat_codec \<Rightarrow> envelope \<Rightarrow> string \<Rightarrow> unit res" where
  "check_ack E C ackEnv msgID =
     (if Type ackEnv \<noteq> CHAT_ACK then Inl ''unexpected response type''
      else if \<not> VerifyEnvelope E ackEnv then Inl ''invalid ACK signature''
      else (case ChatAck_Unmarshal C (Payload ackEnv) of
              Inl e \<Rightarrow> Inl ''unmarshaling ACK''
            | Inr i \<Rightarrow> if i \<noteq> msgID then Inl ''ACK message ID mismatch'' else Inr ()))"

definition sendTo ::
  "ed25519 \<Rightarrow> chat_codec \<Rightarrow> send_io \<Rightarrow> chat_service \<Rightarrow> service \<Rightarrow> string \<Rightarrow> string \<Rightarrow> chat_service \<times> message res" where
  "sendTo E C io s svc peerAddr text =
     (case chat_envelope E C io svc text of
        Inl e \<Rightarrow> (s, Inl e)
      | Inr env \<Rightarrow>
          (case sd_open io of
             Inl e \<Rightarrow> (s, Inl ''opening stream'')
           | Inr _ \<Rightarrow>
               (case sd_write io of
                  Inl e \<Rightarrow> (s, Inl ''sending message'')
                | Inr _ \<Rightarrow>
                    (case sd_read io of
                       Inl e \<Rightarrow> (s, Inl ''reading ACK'')
                     | Inr ackEnv \<Rightarrow>
                         (case check_ack E C ackEnv (generateID (sd_rand io)) of
                            Inl e \<Rightarrow> (s, Inl e)
                          | Inr _ \<Rightarrow>
                              (let msg = \<lparr>msg_ID = generateID (sd_rand io), msg_From = svc_Address svc, msg_To = peerAddr,
                                          msg_Text = text, msg_SentAt = time_of_millis (env_Timestamp env),
                                          msg_AckedAt = Some (sd_end io), msg_Direction = Outgoing\<rparr>
                               in ((case chat_history s of None \<Rightarrow> s | Some h \<Rightarrow> s\<lparr>chat_history := Some (Append h peerAddr msg)\<rparr>),
                                   Inr msg)))))))"

definition SendMessage ::
  "ed25519 \<Rightarrow> chat_codec \<Rightarrow> send_io \<Rightarrow> (string \<Rightarrow> bool) \<Rightarrow> chat_service \<Rightarrow> string \<Rightarrow> string \<Rightarrow> chat_service \<times> message res" where
  "SendMessage E C io is_connected s peerAddr text =
     (case resolveService s of
        Inl e \<Rightarrow> (s, Inl e)
      | Inr svc \<Rightarrow> if \<not> is_connected peerAddr then (s, Inl ''peer not connected'') else sendTo E C io s svc peerAddr text)"

text \<open>An incoming stream: the service state after it, and the acknowledgement written, if any.\<close>

definition chat_handleIncoming ::
  "hashes \<Rightarrow> ed25519 \<Rightarrow> chat_codec \<Rightarrow> time \<Rightarrow> time \<Rightarrow> chat_service \<Rightarrow> envelope res \<Rightarrow> chat_service \<times> envelope option" where
  "chat_handleIncoming HF E C now ack_now s got =
     (case got of
        Inl e \<Rightarrow> (s, None)
      | Inr env \<Rightarrow>
          if Type env \<noteq> CHAT_TEXT then (s, None)
          else if \<not> VerifyEnvelope E env then (s, None)
          else (case resolveService s of
                  Inl e \<Rightarrow> (s, None)
                | Inr svc \<Rightarrow>
                    if \<not> AsChat svc then (s, None)
                    else (case ChatText_Unmarshal C (Payload env) of
                            Inl e \<Rightarrow> (s, None)
                          | Inr (i, text) \<Rightarrow>
                              (let s1 = ingest s \<lparr>msg_ID = i, msg_From = DeriveAddress HF (PubKey env), msg_To = svc_Address svc,
                                    msg_Text = text, msg_SentAt = time_of_millis (env_Timestamp env),
                                    msg_AckedAt = Some now, msg_Direction = Incoming\<rparr>
                               in case ChatAck_Marshal C i of
                                    Inl e \<Rightarrow> (s1, None)
                                  | Inr p \<Rightarrow> (s1, Some (WrapMessage E ack_now CHAT_ACK p (svc_Identity svc)))))))"

section \<open>History\<close>

lemma Append_same:
  "Append h p m p = Some (let ms = (case h p of None \<Rightarrow> [] | Some ms \<Rightarrow> ms) @ [m] in drop (length ms - maxMessagesPerPeer) ms)"
  by (simp add: Append_def Let_def)

lemma drop_drop_snoc:
  "drop (length (drop (length ms - Suc k) ms @ [m]) - Suc k) (drop (length ms - Suc k) ms @ [m]) =
     drop (length (ms @ [m]) - Suc k) (ms @ [m])"
proof (cases "length ms \<le> k")
  case False
  then have "length ms - (k + (length ms - Suc k)) + (length ms - Suc k) = length ms - k" by simp
  then show ?thesis using False by simp
qed simp

text \<open>After any appends the conversation is the last thousand messages with that peer, in order.\<close>

lemma history_keeps_latest:
  assumes "filter (\<lambda>(p, m). p = peer) entries \<noteq> []"
  shows "GetConversation (foldl (\<lambda>h (p, m). Append h p m) NewHistory entries) peer =
     Some (let ms = map snd (filter (\<lambda>(p, m). p = peer) entries) in drop (length ms - maxMessagesPerPeer) ms)"
proof -
  have "foldl (\<lambda>h (p, m). Append h p m) NewHistory entries peer =
      (let ms = map snd (filter (\<lambda>(p, m). p = peer) entries)
       in if ms = [] then None else Some (drop (length ms - maxMessagesPerPeer) ms))" for entries
  proof (induction entries rule: rev_induct)
    case (snoc e es)
    obtain p m where e: "e = (p, m)" by fastforce
    let ?ms = "map snd (filter (\<lambda>(p, m). p = peer) es)"
    let ?h = "foldl (\<lambda>h (p, m). Append h p m) NewHistory es"
    show ?case
    proof (cases "p = peer")
      case True
      have old: "(case ?h peer of None \<Rightarrow> [] | Some ms \<Rightarrow> ms) = drop (length ?ms - maxMessagesPerPeer) ?ms"
        using snoc.IH by (auto simp: Let_def)
      have "Append ?h peer m peer = Some (drop (length (?ms @ [m]) - maxMessagesPerPeer) (?ms @ [m]))"
        unfolding Append_same old Let_def using drop_drop_snoc[of ?ms 999 m] by (simp add: maxMessagesPerPeer_def)
      with True e show ?thesis by (simp add: Let_def)
    next
      case False
      with snoc.IH e show ?thesis by (simp add: Append_def Let_def)
    qed
  qed (simp add: NewHistory_def)
  from this[of entries] assms show ?thesis by (simp add: GetConversation_def Let_def)
qed

section \<open>The lookup interface\<close>

text \<open>What a chat or file service relies on of a lookup: a service is found under its own name.\<close>

locale service_lookup =
  fixes good :: "'r \<Rightarrow> bool"
    and get_service :: "'r \<Rightarrow> string \<Rightarrow> service option"
  assumes get_name: "good r \<Longrightarrow> get_service r n = Some svc \<Longrightarrow> Name svc = n"
begin

lemma resolves_own_name:
  "good r \<Longrightarrow> resolveService \<lparr>eventBus = b, chat_history = h, lookup = Some (get_service r), serviceName = n\<rparr> = Inr svc \<Longrightarrow>
     Name svc = n"
  by (auto simp: resolveService_def dest: get_name split: option.splits)

end

interpretation static: service_lookup "\<lambda>_. True" StaticLookup
  by unfold_locales (auto simp: StaticLookup_def split: option.splits if_splits)

interpretation registry: service_lookup reg_inv "\<lambda>r n. Get r n"
  by unfold_locales (rule reg_invD(1))

section \<open>Sending and receiving\<close>

text \<open>One message over a working stream: the envelope reaches the peer's service, and what it writes back
  reaches the sender.\<close>

definition chat_exchange ::
  "hashes \<Rightarrow> ed25519 \<Rightarrow> chat_codec \<Rightarrow> send_io \<Rightarrow> time \<Rightarrow> time \<Rightarrow> chat_service \<Rightarrow> service \<Rightarrow> string \<Rightarrow> string \<Rightarrow> chat_service \<Rightarrow>
     (chat_service \<times> message res) \<times> chat_service" where
  "chat_exchange HF E C io now ack_now a sa peerAddr text b =
     (case chat_envelope E C io sa text of
        Inl e \<Rightarrow> ((a, Inl e), b)
      | Inr env \<Rightarrow>
          (case chat_handleIncoming HF E C now ack_now b (Inr env) of (b', ack) \<Rightarrow>
             (SendMessage E C (io\<lparr>sd_open := Inr (), sd_write := Inr (),
                 sd_read := (case ack of Some ackEnv \<Rightarrow> Inr ackEnv | None \<Rightarrow> Inl ''EOF'')\<rparr>) (\<lambda>_. True) a peerAddr text, b')))"

definition chat_codec_ok :: "chat_codec \<Rightarrow> bool" where
  "chat_codec_ok C \<longleftrightarrow> (\<forall>x p. ChatText_Marshal C x = Inr p \<longrightarrow> ChatText_Unmarshal C p = Inr x) \<and>
     (\<forall>i p. ChatAck_Marshal C i = Inr p \<longrightarrow> ChatAck_Unmarshal C p = Inr i)"

lemma handleIncoming_accepts:
  assumes "Type env = CHAT_TEXT" "VerifyEnvelope E env" "resolveService s = Inr svc" "AsChat svc"
    and "ChatText_Unmarshal C (Payload env) = Inr (i, text)" "ChatAck_Marshal C i = Inr p"
  shows "chat_handleIncoming HF E C now ack_now s (Inr env) =
     (ingest s \<lparr>msg_ID = i, msg_From = DeriveAddress HF (PubKey env), msg_To = svc_Address svc, msg_Text = text,
        msg_SentAt = time_of_millis (env_Timestamp env), msg_AckedAt = Some now, msg_Direction = Incoming\<rparr>,
      Some (WrapMessage E ack_now CHAT_ACK p (svc_Identity svc)))"
  using assms by (simp add: chat_handleIncoming_def Let_def)

lemma ingest_history:
  "chat_history s = Some h \<Longrightarrow> chat_history (ingest s msg) = Some (Append h (msg_From msg) msg)"
  by (simp add: ingest_def Let_def)

lemma ingest_resolve [simp]: "resolveService (ingest s msg) = resolveService s"
  by (simp add: ingest_def resolveService_def Let_def split: option.splits)

text \<open>C29: A chat message arrives and is acknowledged. Between two chat services whose identities were made
  from seeds, over a working stream, sending a text succeeds; the receiver's history gains, in the
  conversation with the sender's address, a message with the same ID and text, addressed to the receiving
  service; the sender records the message as acknowledged.\<close>

theorem chat_delivered:
  assumes prims: "ed25519_keys E" "ed25519_correct E" "chat_codec_ok C"
    and a: "resolveService a = Inr sa" "FromSeed E ra = Inr (svc_Identity sa)" "chat_history a = Some ha"
    and b: "resolveService b = Inr sb" "FromSeed E rb = Inr (svc_Identity sb)" "chat_history b = Some hb" "AsChat sb"
    and enc: "ChatText_Marshal C (generateID (sd_rand io), text) = Inr p" "ChatAck_Marshal C (generateID (sd_rand io)) = Inr q"
  shows "\<exists>a' msg b' got. chat_exchange HF E C io now ack_now a sa peer text b = ((a', Inr msg), b') \<and>
     chat_history a' = Some (Append ha peer msg) \<and> msg_Text msg = text \<and> msg_AckedAt msg = Some (sd_end io) \<and>
     chat_history b' = Some (Append hb (DeriveAddress HF (PublicKey (svc_Identity sa))) got) \<and>
     msg_ID got = msg_ID msg \<and> msg_Text got = text \<and> msg_SentAt got = msg_SentAt msg \<and>
     msg_From got = DeriveAddress HF (PublicKey (svc_Identity sa)) \<and> msg_To got = svc_Address sb"
proof -
  let ?env = "WrapMessage E (sd_now io) CHAT_TEXT p (svc_Identity sa)"
  let ?id = "generateID (sd_rand io)"
  let ?got = "\<lparr>msg_ID = ?id, msg_From = DeriveAddress HF (PubKey ?env), msg_To = svc_Address sb, msg_Text = text,
      msg_SentAt = time_of_millis (env_Timestamp ?env), msg_AckedAt = Some now, msg_Direction = Incoming\<rparr>"
  let ?ack = "WrapMessage E ack_now CHAT_ACK q (svc_Identity sb)"
  have dec: "ChatText_Unmarshal C p = Inr (?id, text)" "ChatAck_Unmarshal C q = Inr ?id"
    using prims(3) enc by (auto simp: chat_codec_ok_def)
  have h: "chat_handleIncoming HF E C now ack_now b (Inr ?env) = (ingest b ?got, Some ?ack)"
    using VerifyEnvelope_WrapMessage[OF prims(1,2) a(2)] dec b(1,4) enc(2) by (intro handleIncoming_accepts) simp_all
  have "check_ack E C ?ack ?id = Inr ()"
    using VerifyEnvelope_WrapMessage[OF prims(1,2) b(2)] dec(2) by (simp add: check_ack_def)
  then show ?thesis
    using a(1,3) enc(1) h ingest_history[OF b(3), of ?got]
    by (simp add: chat_exchange_def chat_envelope_def SendMessage_def sendTo_def Let_def)
      (rule exI[of _ ?got], simp add: PublicKey_def)
qed

text \<open>A signed text can be replayed and redirected. An envelope that one chat service has accepted is
  accepted again, by the same service and by any other, at any later time: it is recorded once more as
  coming from its signer and as addressed to whichever service it was given to, and acknowledged.\<close>

theorem chat_replay_accepted:
  assumes "chat_handleIncoming HF E C t1 t2 s (Inr env) = (s1, Some ack)"
    and "resolveService other_s = Inr svc" "AsChat svc" "chat_history other_s = Some h"
  shows "\<exists>msg ack'. chat_handleIncoming HF E C t3 t4 other_s (Inr env) = (ingest other_s msg, Some ack') \<and>
     chat_history (ingest other_s msg) = Some (Append h (msg_From msg) msg) \<and>
     msg_From msg = DeriveAddress HF (PubKey env) \<and> msg_To msg = svc_Address svc"
proof -
  have ok: "Type env = CHAT_TEXT" "VerifyEnvelope E env" using assms(1) by (auto simp: chat_handleIncoming_def split: if_splits)
  obtain i tx p where "ChatText_Unmarshal C (Payload env) = Inr (i, tx)" "ChatAck_Marshal C i = Inr p"
    using assms(1) ok by (auto simp: chat_handleIncoming_def Let_def split: sum.splits if_splits)
  from handleIncoming_accepts[OF ok assms(2,3) this] show ?thesis using ingest_history[OF assms(4)] by fastforce
qed

section \<open>A concrete chat\<close>

text \<open>An encoding with the length of the ID in front, for IDs of less than 256 characters.\<close>

definition chars :: "bytes \<Rightarrow> string" where "chars b = map (\<lambda>w. char_of (unat w)) b"
definition char_bytes :: "string \<Rightarrow> bytes" where "char_bytes t = map (\<lambda>c. of_nat (of_char c)) t"

definition demo_chat_codec :: chat_codec where
  "demo_chat_codec = \<lparr>
     ChatText_Marshal = (\<lambda>(i, t). if length i < 256 then Inr (of_nat (length i) # char_bytes (i @ t)) else Inl ''id too long''),
     ChatText_Unmarshal = (\<lambda>b. Inr (take (unat (hd b)) (chars (tl b)), drop (unat (hd b)) (chars (tl b)))),
     ChatAck_Marshal = (\<lambda>i. Inr (char_bytes i)), ChatAck_Unmarshal = (\<lambda>b. Inr (chars b))\<rparr>"

lemma chars_char_bytes [simp]: "chars (char_bytes t) = t"
proof -
  have "char_of (unat (of_nat (of_char c) :: byte)) = c" for c
    using nat_of_char_less_256[of c] by (simp add: unat_of_nat)
  then show ?thesis by (simp add: chars_def char_bytes_def comp_def)
qed

lemma demo_chat_codec_ok: "chat_codec_ok demo_chat_codec"
  by (auto simp: chat_codec_ok_def demo_chat_codec_def unat_of_nat split: if_splits)

definition demo_chat_svc :: "byte \<Rightarrow> service" where
  "demo_chat_svc b = \<lparr>Name = ''node'', svc_Address = ''E'', svc_OnionAddr = ''x.onion'',
     svc_Identity = \<lparr>pub = replicate 32 b, priv = replicate 32 b @ replicate 32 b\<rparr>,
     Manifest = \<lparr>Description = '''', acl = ACLPublic, Allowlist = []\<rparr>, Handlers = Some [ChatHandler]\<rparr>"

definition demo_chat :: "byte \<Rightarrow> chat_service" where
  "demo_chat b = \<lparr>eventBus = NewEventBus, chat_history = Some NewHistory, lookup = Some (StaticLookup (Some (demo_chat_svc b))), serviceName = ''node''\<rparr>"

definition demo_send :: send_io where
  "demo_send = \<lparr>sd_rand = [0xA5], sd_now = 0, sd_open = Inr (), sd_write = Inr (), sd_read = Inl ''EOF'', sd_end = 7\<rparr>"

lemma demo_chat_facts:
  "resolveService (demo_chat b) = Inr (demo_chat_svc b)" "FromSeed demo_ed25519 (replicate 32 b) = Inr (svc_Identity (demo_chat_svc b))"
  "chat_history (demo_chat b) = Some NewHistory" "AsChat (demo_chat_svc b)"
  by (simp_all add: resolveService_def demo_chat_def StaticLookup_def demo_chat_svc_def FromSeed_def SeedSize_def demo_ed25519_def
      ed_public_def AsChat_def implements_def Let_def)

lemma demo_chat_encodes:
  "\<exists>p. ChatText_Marshal demo_chat_codec (generateID (sd_rand demo_send), ''hi'') = Inr p"
  "\<exists>q. ChatAck_Marshal demo_chat_codec (generateID (sd_rand demo_send)) = Inr q"
  by (simp_all add: demo_chat_codec_def demo_send_def generateID_def)

theorem chat_delivered_witness:
  "\<exists>a' msg b'. chat_exchange demo_hashes demo_ed25519 demo_chat_codec demo_send 1 2 (demo_chat 1) (demo_chat_svc 1) ''E2'' ''hi'' (demo_chat 2) =
     ((a', Inr msg), b') \<and> msg_Text msg = ''hi''"
proof -
  obtain p q where e: "ChatText_Marshal demo_chat_codec (generateID (sd_rand demo_send), ''hi'') = Inr p"
    "ChatAck_Marshal demo_chat_codec (generateID (sd_rand demo_send)) = Inr q" using demo_chat_encodes by blast
  show ?thesis
    using chat_delivered[OF demo_params(3,4) demo_chat_codec_ok demo_chat_facts(1-3) demo_chat_facts(1-4) e] by blast
qed

theorem chat_replay_accepted_witness:
  "\<exists>env msg ack. chat_handleIncoming demo_hashes demo_ed25519 demo_chat_codec 9 9 (demo_chat 3) (Inr env) =
     (ingest (demo_chat 3) msg, Some ack) \<and> msg_From msg = DeriveAddress demo_hashes (replicate 32 1)"
proof -
  obtain p q where e: "ChatText_Marshal demo_chat_codec (generateID (sd_rand demo_send), ''hi'') = Inr p"
    "ChatAck_Marshal demo_chat_codec (generateID (sd_rand demo_send)) = Inr q" using demo_chat_encodes by blast
  let ?env = "WrapMessage demo_ed25519 0 CHAT_TEXT p (svc_Identity (demo_chat_svc 1))"
  have dec: "ChatText_Unmarshal demo_chat_codec p = Inr (generateID (sd_rand demo_send), ''hi'')"
    using demo_chat_codec_ok e(1) by (auto simp: chat_codec_ok_def)
  have key: "PubKey ?env = replicate 32 1" by (simp add: demo_chat_svc_def)
  have "Type ?env = CHAT_TEXT" "VerifyEnvelope demo_ed25519 ?env" "Payload ?env = p"
    using VerifyEnvelope_WrapMessage[OF demo_params(3,4) demo_chat_facts(2)] by simp_all
  with dec e(2) obtain s1 ack where "chat_handleIncoming demo_hashes demo_ed25519 demo_chat_codec 0 0 (demo_chat 2) (Inr ?env) = (s1, Some ack)"
    using handleIncoming_accepts[of ?env demo_ed25519 "demo_chat 2" "demo_chat_svc 2" demo_chat_codec] demo_chat_facts by metis
  from chat_replay_accepted[OF this demo_chat_facts(1,4,3), of 9 9] key show ?thesis by metis
qed

end
