(* ===== verification/Contacts.thy ===== *)
theory Contacts
  imports Routing
begin

text \<open>
  The contact store (\<open>src/internal/contacts/contact.go\<close>, \<open>store.go\<close>): contacts by address, saved as
  one JSON array. The file is its decoded content, a list whose elements may be \<open>null\<close>. The map is an
  association list with distinct keys; the order in which Go walks it is the order of the list.
\<close>

section \<open>Model\<close>

record contact =
  ct_Address :: string
  ct_Alias :: string
  ct_PublicKey :: bytes
  ct_OnionAddr :: string
  ct_AddedAt :: time
  ct_LastSeen :: time

type_synonym contact_store = "(string \<times> contact) list"

definition NewStore :: contact_store where
  "NewStore = []"

text \<open>\<open>Add\<close> keeps the times of a contact it already has.\<close>

definition ct_Add :: "time \<Rightarrow> contact_store \<Rightarrow> contact \<Rightarrow> contact_store" where
  "ct_Add now s c =
     (case map_of s (ct_Address c) of
        Some e \<Rightarrow> AList.update (ct_Address c)
          (e\<lparr>ct_Alias := ct_Alias c, ct_PublicKey := ct_PublicKey c, ct_OnionAddr := ct_OnionAddr c\<rparr>) s
      | None \<Rightarrow> AList.update (ct_Address c) (c\<lparr>ct_AddedAt := now\<rparr>) s)"

definition ct_Remove :: "contact_store \<Rightarrow> string \<Rightarrow> contact_store \<times> bool" where
  "ct_Remove s addr =
     (case map_of s addr of None \<Rightarrow> (s, False) | Some _ \<Rightarrow> (AList.delete addr s, True))"

definition ct_Get :: "contact_store \<Rightarrow> string \<Rightarrow> contact option" where
  "ct_Get s addr = map_of s addr"

definition ct_List :: "contact_store \<Rightarrow> contact list" where
  "ct_List s = map snd s"

text \<open>\<open>Save\<close>: the array written, given the outcome of creating the directory and of writing.\<close>

definition ct_Save :: "unit res \<Rightarrow> unit res \<Rightarrow> contact_store \<Rightarrow> contact option list res" where
  "ct_Save mkdir wr s =
     (let list = map snd s
      in if \<not> list_all (\<lambda>c. json_time_ok (ct_AddedAt c) \<and> json_time_ok (ct_LastSeen c)) list
         then Inl ''marshalling contacts''
         else (case mkdir of
                 Inl e \<Rightarrow> Inl ''creating directory''
               | Inr _ \<Rightarrow> (case wr of Inl e \<Rightarrow> Inl ''writing contacts file'' | Inr _ \<Rightarrow> Inr (map Some list))))"

text \<open>What \<open>Load\<close> may find at the path: no file, a read error, bytes that do not decode, or an array.\<close>

datatype contacts_file = NoFile | ReadError | BadJson | Array "contact option list"

text \<open>The loop of \<open>Load\<close>; a \<open>null\<close> element is a nil pointer, dereferenced.\<close>

fun load_contacts :: "contact_store \<Rightarrow> contact option list \<Rightarrow> contact_store res" where
  "load_contacts s [] = Inr s"
| "load_contacts s (None # cs) = Inl ''panic: nil pointer dereference''"
| "load_contacts s (Some c # cs) = load_contacts (AList.update (ct_Address c) c s) cs"

definition ct_Load :: "contacts_file \<Rightarrow> contact_store \<Rightarrow> contact_store res" where
  "ct_Load f s =
     (case f of
        NoFile \<Rightarrow> Inr s
      | ReadError \<Rightarrow> Inl ''reading contacts file''
      | BadJson \<Rightarrow> Inl ''unmarshalling contacts''
      | Array list \<Rightarrow> load_contacts [] list)"

section \<open>Invariant\<close>

definition contacts_ok :: "contact_store \<Rightarrow> bool" where
  "contacts_ok s \<longleftrightarrow> distinct (map fst s) \<and> list_all (\<lambda>(k, c). k = ct_Address c) s"

lemma contacts_ok_update:
  assumes "contacts_ok s" "ct_Address c = k"
  shows "contacts_ok (AList.update k c s)"
proof -
  have "distinct (map fst (AList.update k c s))" using assms(1) by (simp add: contacts_ok_def distinct_update)
  then show ?thesis using assms set_alist_update[of k c s] by (auto simp: contacts_ok_def list_all_iff)
qed

lemma contacts_ok_key: "contacts_ok s \<Longrightarrow> map_of s k = Some c \<Longrightarrow> ct_Address c = k"
  by (auto simp: contacts_ok_def list_all_iff dest!: map_of_SomeD)

lemma contacts_ok_New [inv_intros]: "contacts_ok NewStore"
  by (simp add: contacts_ok_def NewStore_def)

lemma contacts_ok_Add [inv_intros]: "contacts_ok s \<Longrightarrow> contacts_ok (ct_Add now s c)"
  by (auto simp: ct_Add_def dest: contacts_ok_key intro!: contacts_ok_update split: option.splits)

lemma contacts_ok_Remove [inv_intros]: "contacts_ok s \<Longrightarrow> contacts_ok (fst (ct_Remove s a))"
  by (auto simp: ct_Remove_def contacts_ok_def list_all_iff AList.delete_eq distinct_map_filter split: option.splits)

lemma load_contacts_ok: "contacts_ok s \<Longrightarrow> load_contacts s cs = Inr s' \<Longrightarrow> contacts_ok s'"
  by (induction s cs rule: load_contacts.induct) (auto simp: contacts_ok_update)

lemma contacts_ok_Load [inv_intros]: "contacts_ok s \<Longrightarrow> ct_Load f s = Inr s' \<Longrightarrow> contacts_ok s'"
  using load_contacts_ok[of "[]"] by (auto simp: ct_Load_def contacts_ok_def split: contacts_file.splits)

section \<open>Round trip\<close>

lemma load_contacts_append:
  "\<lbrakk> distinct (map fst (s @ t)); list_all (\<lambda>(k, c). k = ct_Address c) t \<rbrakk> \<Longrightarrow>
     load_contacts s (map (\<lambda>e. Some (snd e)) t) = Inr (s @ t)"
proof (induction t arbitrary: s)
  case (Cons e t)
  obtain k c where e: "e = (k, c)" by fastforce
  have upd: "AList.update (ct_Address c) c s = s @ [(k, c)]"
    using Cons.prems e by (simp add: alist_update_append)
  have "load_contacts (s @ [(k, c)]) (map (\<lambda>e. Some (snd e)) t) = Inr ((s @ [(k, c)]) @ t)"
    using Cons.prems e by (intro Cons.IH) auto
  then show ?case using e upd by simp
qed simp

lemma Save_then_Load:
  "contacts_ok s \<Longrightarrow> ct_Save mk wr s = Inr list \<Longrightarrow> ct_Load (Array list) s' = Inr s"
  using load_contacts_append[of "[]" s]
  by (auto simp: ct_Save_def ct_Load_def contacts_ok_def Let_def comp_def split: if_splits sum.splits)

section \<open>The interface\<close>

text \<open>What the signaling layer relies on of a contact book: who is known after each change.\<close>

locale contact_book =
  fixes knows :: "'s \<Rightarrow> string \<Rightarrow> bool"
    and add_contact :: "'s \<Rightarrow> 'c \<Rightarrow> 's"
    and drop_contact :: "'s \<Rightarrow> string \<Rightarrow> 's"
    and addr_of :: "'c \<Rightarrow> string"
  assumes knows_add: "knows (add_contact s c) a \<longleftrightarrow> a = addr_of c \<or> knows s a"
    and knows_drop: "knows (drop_contact s b) a \<longleftrightarrow> a \<noteq> b \<and> knows s a"
begin

lemma knows_adds: "knows (foldl add_contact s cs) a \<longleftrightarrow> a \<in> addr_of ` set cs \<or> knows s a"
  by (induction cs arbitrary: s) (auto simp: knows_add)

lemma add_drop_unknown: "\<not> knows s (addr_of c) \<Longrightarrow> knows (drop_contact (add_contact s c) (addr_of c)) a = knows s a"
  by (auto simp: knows_add knows_drop)

end

definition ct_knows :: "contact_store \<Rightarrow> string \<Rightarrow> bool" where
  "ct_knows s a \<longleftrightarrow> ct_Get s a \<noteq> None"

interpretation book: contact_book ct_knows "ct_Add now" "\<lambda>s a. fst (ct_Remove s a)" ct_Address for now
  by unfold_locales
    (auto simp: ct_knows_def ct_Get_def ct_Add_def ct_Remove_def AList.update_conv' AList.delete_conv' split: option.splits)

end
