(* ===== verification/Node_Core.thy ===== *)
theory Node_Core
  imports Event_Bus Signaling
begin

text \<open>
  The node (\<open>src/internal/node/node.go\<close>): its identity and Tor state, the requests of unknown peers that
  wait for the user, and the calls it passes on to the subsystems wired into it. A decision channel is its
  buffer of one decision; subsystems are optional functions.
\<close>

section \<open>State\<close>

record node =
  nd_keypair :: keypair
  nd_address :: string
  nd_bus :: "string event_bus"
  torState :: string
  onionAddr :: string
  pendingReqs :: "(string \<times> nat) list"
  decisions :: "nat \<Rightarrow> conn_decision list"
  sendMsg :: "(string \<Rightarrow> string \<Rightarrow> string res) option"
  sendFile :: "(string \<Rightarrow> string \<Rightarrow> string res) option"
  acceptFile :: "(string \<Rightarrow> string \<Rightarrow> unit res) option"
  rejectFile :: "(string \<Rightarrow> string \<Rightarrow> unit res) option"

definition node_New :: "hashes \<Rightarrow> keypair \<Rightarrow> node" where
  "node_New HF kp =
     \<lparr>nd_keypair = kp, nd_address = DeriveAddress HF (PublicKey kp), nd_bus = NewEventBus, torState = ''disabled'',
      onionAddr = '''', pendingReqs = [], decisions = (\<lambda>_. []), sendMsg = None, sendFile = None, acceptFile = None,
      rejectFile = None\<rparr>"

definition SetTorState :: "node \<Rightarrow> string \<Rightarrow> node" where "SetTorState n st = n\<lparr>torState := st\<rparr>"
definition TorState :: "node \<Rightarrow> string" where "TorState n = torState n"
definition SetOnionAddr :: "node \<Rightarrow> string \<Rightarrow> node" where "SetOnionAddr n a = n\<lparr>onionAddr := a\<rparr>"
definition node_OnionAddr :: "node \<Rightarrow> string" where "node_OnionAddr n = onionAddr n"

section \<open>Requests of unknown peers\<close>

text \<open>A request with the channel its decision goes to.\<close>

record connection_request =
  cr_Service :: string
  cr_FromAddress :: string
  cr_Decision :: nat

definition handleConnectionRequest :: "node \<Rightarrow> connection_request \<Rightarrow> node" where
  "handleConnectionRequest n cr =
     n\<lparr>pendingReqs := AList.update (cr_FromAddress cr) (cr_Decision cr) (pendingReqs n),
       nd_bus := Publish (nd_bus n) \<lparr>ev_Type = EventConnectionReq, ev_Payload = cr_FromAddress cr\<rparr>\<rparr>"

text \<open>A pending request is taken out and decided. The send into a full channel would block for ever.\<close>

definition decide_pending :: "node \<Rightarrow> string \<Rightarrow> conn_decision \<Rightarrow> (node \<times> unit res) option" where
  "decide_pending n addr d =
     (case map_of (pendingReqs n) addr of
        None \<Rightarrow> Some (n\<lparr>pendingReqs := AList.delete addr (pendingReqs n)\<rparr>, Inl ''no pending request'')
      | Some ch \<Rightarrow>
          if decisions n ch = []
          then Some (n\<lparr>pendingReqs := AList.delete addr (pendingReqs n), decisions := (decisions n)(ch := [d])\<rparr>, Inr ())
          else None)"

definition AcceptConnection :: "node \<Rightarrow> string \<Rightarrow> (node \<times> unit res) option" where
  "AcceptConnection n addr = decide_pending n addr \<lparr>dec_Accepted = True, dec_Reason = ''''\<rparr>"

definition RejectConnection :: "node \<Rightarrow> string \<Rightarrow> string \<Rightarrow> (node \<times> unit res) option" where
  "RejectConnection n addr reason = decide_pending n addr \<lparr>dec_Accepted = False, dec_Reason = reason\<rparr>"

section \<open>Calls passed on\<close>

definition node_SendMessage :: "node \<Rightarrow> string \<Rightarrow> string \<Rightarrow> string res" where
  "node_SendMessage n addr t = (case sendMsg n of None \<Rightarrow> Inl ''chat not initialized'' | Some fn \<Rightarrow> fn addr t)"

definition SendFile :: "node \<Rightarrow> string \<Rightarrow> string \<Rightarrow> string res" where
  "SendFile n addr path = (case sendFile n of None \<Rightarrow> Inl ''file transfer not initialized'' | Some fn \<Rightarrow> fn addr path)"

definition node_AcceptFile :: "node \<Rightarrow> string \<Rightarrow> string \<Rightarrow> unit res" where
  "node_AcceptFile n tid path = (case acceptFile n of None \<Rightarrow> Inl ''file transfer not initialized'' | Some fn \<Rightarrow> fn tid path)"

definition node_RejectFile :: "node \<Rightarrow> string \<Rightarrow> string \<Rightarrow> unit res" where
  "node_RejectFile n tid reason = (case rejectFile n of None \<Rightarrow> Inl ''file transfer not initialized'' | Some fn \<Rightarrow> fn tid reason)"

section \<open>Decisions\<close>

text \<open>Channels of pending requests are distinct and still empty, so a decision never blocks.\<close>

definition pending_ok :: "node \<Rightarrow> bool" where
  "pending_ok n \<longleftrightarrow> distinct (map fst (pendingReqs n)) \<and> distinct (map snd (pendingReqs n)) \<and>
     (\<forall>(a, ch) \<in> set (pendingReqs n). decisions n ch = [])"

lemma pending_ok_New [inv_intros]: "pending_ok (node_New HF kp)"
  by (simp add: pending_ok_def node_New_def)

lemma pending_ok_request [inv_intros]:
  assumes "pending_ok n" "decisions n (cr_Decision cr) = []" "cr_Decision cr \<notin> snd ` set (pendingReqs n)"
  shows "pending_ok (handleConnectionRequest n cr)"
  using assms set_alist_update[of "cr_FromAddress cr" "cr_Decision cr" "pendingReqs n"]
  by (auto simp: pending_ok_def handleConnectionRequest_def distinct_update snd_update_alist)

lemma decide_pending_ok:
  assumes "pending_ok n"
  obtains n' r where "decide_pending n a d = Some (n', r)" "pending_ok n'" "map_of (pendingReqs n') a = None"
    "\<And>b. b \<noteq> a \<Longrightarrow> map_of (pendingReqs n') b = map_of (pendingReqs n) b"
    "\<And>ch. map_of (pendingReqs n) a = Some ch \<Longrightarrow> r = Inr () \<and> decisions n' = (decisions n)(ch := [d])"
    "map_of (pendingReqs n) a = None \<Longrightarrow> decisions n' = decisions n \<and> (\<exists>e. r = Inl e)"
proof (cases "map_of (pendingReqs n) a")
  case None
  have "pending_ok (n\<lparr>pendingReqs := AList.delete a (pendingReqs n)\<rparr>)"
    using assms by (auto simp: pending_ok_def AList.delete_eq distinct_map_filter)
  with None show thesis
    by (intro that[of "n\<lparr>pendingReqs := AList.delete a (pendingReqs n)\<rparr>" "Inl ''no pending request''"])
      (simp_all add: decide_pending_def delete_conv')
next
  case (Some ch)
  then have mem: "(a, ch) \<in> set (pendingReqs n)" by (rule map_of_SomeD)
  with assms have empty: "decisions n ch = []" by (auto simp: pending_ok_def)
  have other: "ch' \<noteq> ch" if "(b, ch') \<in> set (pendingReqs n)" "b \<noteq> a" for b ch'
  proof
    assume "ch' = ch"
    then have "(b, ch') = (a, ch)"
      using assms mem that(1) inj_onD[of snd "set (pendingReqs n)" "(b, ch)" "(a, ch)"] by (simp add: pending_ok_def distinct_map)
    with that(2) show False by simp
  qed
  let ?n = "n\<lparr>pendingReqs := AList.delete a (pendingReqs n), decisions := (decisions n)(ch := [d])\<rparr>"
  have "pending_ok ?n"
    using assms other by (auto simp: pending_ok_def AList.delete_eq distinct_map_filter)
  with Some empty show thesis by (intro that[of ?n "Inr ()"]) (simp_all add: decide_pending_def delete_conv')
qed

end
