(* ===== verification/Access_Control.thy ===== *)
theory Access_Control
  imports Signaling_Props Contacts Node_Core Registry_Props
begin

text \<open>
  Who gets through: the gate of a registered service (\<open>src/internal/daemon/service_gate.go\<close>), the wiring of
  the node service and of registered services into the signaling server (\<open>src/internal/daemon/daemon.go\<close>),
  and what they mean for the responder's decision.
\<close>

section \<open>The gate\<close>

definition serviceConnectionGate :: "service \<Rightarrow> string \<Rightarrow> conn_decision" where
  "serviceConnectionGate svc from_addr =
     (let allowlist = filter (\<lambda>a. a \<noteq> '''') (Allowlist (Manifest svc))
      in case acl (Manifest svc) of
           ACLPublic \<Rightarrow> \<lparr>dec_Accepted = True, dec_Reason = ''''\<rparr>
         | ACLAllowlist \<Rightarrow>
             if from_addr \<in> set allowlist then \<lparr>dec_Accepted = True, dec_Reason = ''''\<rparr>
             else \<lparr>dec_Accepted = False, dec_Reason = ''not on allowlist''\<rparr>
         | ACLContacts \<Rightarrow> \<lparr>dec_Accepted = False, dec_Reason = ''no per-service contacts configured''\<rparr>)"

section \<open>The wiring\<close>

text \<open>The hook run when a service is registered: its gate is the callback, and it has no contact store.\<close>

definition registered_config :: "bool \<Rightarrow> string list \<Rightarrow> service \<Rightarrow> service_config" where
  "registered_config listener addrs svc =
     \<lparr>cfg_Name = Name svc, cfg_Keypair = Some (svc_Identity svc), cfg_Address = svc_Address svc, cfg_Contacts = None,
      cfg_OnRequest = True, cfg_Listener = listener, cfg_LocalAddrs = Some addrs\<rparr>"

definition bind_registered :: "server \<Rightarrow> bool \<Rightarrow> string list \<Rightarrow> service \<Rightarrow> server \<times> unit res" where
  "bind_registered s listener addrs svc =
     (if \<not> listener then (s, Inl ''no tor listener for service'')
      else (case AddService s (registered_config listener addrs svc) of
              (s', Inl e) \<Rightarrow> (s', Inl ''signaling.AddService'')
            | (s', Inr _) \<Rightarrow> (s', Inr ())))"

text \<open>The node service: its contact store, and the user through the node's pending requests.\<close>

definition node_config :: "string \<Rightarrow> keypair \<Rightarrow> string \<Rightarrow> contact_store \<Rightarrow> bool \<Rightarrow> string list \<Rightarrow> service_config" where
  "node_config name kp addr cs listener addrs =
     \<lparr>cfg_Name = name, cfg_Keypair = Some kp, cfg_Address = addr, cfg_Contacts = Some (ct_knows cs), cfg_OnRequest = True,
      cfg_Listener = listener, cfg_LocalAddrs = Some addrs\<rparr>"

section \<open>Access\<close>

definition acl_allows :: "manifest \<Rightarrow> string \<Rightarrow> bool" where
  "acl_allows m a \<longleftrightarrow> acl m = ACLPublic \<or> acl m = ACLAllowlist \<and> a \<noteq> '''' \<and> a \<in> set (Allowlist m)"

lemma gate_decision: "dec_Accepted (serviceConnectionGate svc a) \<longleftrightarrow> acl_allows (Manifest svc) a"
  by (auto simp: serviceConnectionGate_def acl_allows_def Let_def split: ACL.splits)

lemma response_consents:
  assumes "handleEnvelopeForService HF E s c kp io t decoded = (s', resps, out)" "r \<in> set resps"
  obtains req where "decoded = Some req" "Accepted r \<longleftrightarrow> consents c io (FromAddress req)" "resps = [r]"
  using assms(1)
proof (cases rule: handler_cases)
  case (valid nc' req)
  with assms(2) that show thesis by blast
qed (use assms(2) in simp_all)


section \<open>The contact list over time\<close>

text \<open>Changes of the store, with restarts that save it and load it back; a save that fails leaves it.\<close>

datatype store_op = SAdd time contact | SRemove string | SReload "unit res" "unit res"

definition store_step :: "contact_store \<Rightarrow> store_op \<Rightarrow> contact_store" where
  "store_step s oper = (case oper of
     SAdd now c \<Rightarrow> ct_Add now s c
   | SRemove a \<Rightarrow> fst (ct_Remove s a)
   | SReload mk wr \<Rightarrow> (case ct_Save mk wr s of
        Inl e \<Rightarrow> s
      | Inr file \<Rightarrow> (case ct_Load (Array file) NewStore of Inl e \<Rightarrow> s | Inr s' \<Rightarrow> s')))"

text \<open>The specification: the last change to an address decides.\<close>

definition known_after :: "store_op list \<Rightarrow> string \<Rightarrow> bool" where
  "known_after ops a = foldl (\<lambda>k oper. case oper of
     SAdd now c \<Rightarrow> ct_Address c = a \<or> k | SRemove b \<Rightarrow> b \<noteq> a \<and> k | SReload mk wr \<Rightarrow> k) False ops"

lemma reload_same:
  assumes "contacts_ok s"
  shows "store_step s (SReload mk wr) = s"
  using Save_then_Load[OF assms, of mk wr] by (auto simp: store_step_def split: sum.splits)

lemma store_step_ok: "contacts_ok s \<Longrightarrow> contacts_ok (store_step s oper)"
  by (cases oper) (auto simp: reload_same, auto simp: store_step_def intro: inv_intros)

lemma store_run:
  "contacts_ok (foldl store_step NewStore ops) \<and> (ct_knows (foldl store_step NewStore ops) a \<longleftrightarrow> known_after ops a)"
proof (induction ops rule: rev_induct)
  case Nil
  then show ?case using contacts_ok_New by (simp add: known_after_def ct_knows_def ct_Get_def NewStore_def)
next
  case (snoc oper ops)
  let ?s = "foldl store_step NewStore ops"
  have "contacts_ok ?s" "ct_knows ?s a \<longleftrightarrow> known_after ops a" using snoc.IH by auto
  then show ?case
    using store_step_ok[of ?s oper] book.knows_add[of _ ?s] book.knows_drop[of ?s] reload_same[of ?s]
    by (cases oper) (auto simp: known_after_def, auto simp: store_step_def)
qed


section \<open>Concrete requests\<close>

definition demo_svc :: service where
  "demo_svc = \<lparr>Name = ''bot'', svc_Address = demo_peer_addr 2, svc_OnionAddr = ''x.onion'', svc_Identity = demo_kp 2,
     Manifest = \<lparr>Description = '''', acl = ACLAllowlist, Allowlist = [demo_peer_addr 1]\<rparr>, Handlers = None\<rparr>"

definition demo_gate_io :: responder_io where
  "demo_gate_io = (demo_responder_io True)\<lparr>user_decision := Some (serviceConnectionGate demo_svc (demo_peer_addr 1))\<rparr>"

lemma demo_peer_addr_ne: "demo_peer_addr b \<noteq> ''''"
  by (simp add: demo_peer_addr_def DeriveAddress_def demo_hashes_def Let_def)

lemma demo_gate: "acl_allows (Manifest demo_svc) (demo_peer_addr 1)"
  by (simp add: acl_allows_def demo_svc_def demo_peer_addr_ne)

lemma demo_bind: "\<exists>s1. bind_registered NewServer True [] demo_svc = (s1, Inr ()) \<and> nc s1 = Map.empty \<and>
    services s1 = [(''bot'', \<lparr>cfg = registered_config True [] demo_svc, accept = None\<rparr>)]"
  by (simp add: bind_registered_def AddService_def registered_config_def demo_svc_def NewServer_def NewNonceCache_def demo_peer_addr_ne Let_def)

lemma demo_answers:
  assumes "nc s = Map.empty" "consents c io (demo_peer_addr 1)" "cfg_Address c = demo_peer_addr 2"
    and "rq_times io = (2000000, 2000000, 2000000)" "rsp_rand io = Inr m" "rsp_write io = Inr ()"
  shows "\<exists>s' r out. handleEnvelopeForService demo_hashes demo_ed25519 s c kp io CONN_REQUEST (Some demo_request) = (s', [r], out)"
proof -
  obtain nc' where "ValidateConnRequest 2000000 2000000 2000000 (nc s) (Some demo_request) = (nc', Inr demo_request)"
    using demo_valid assms(1) by auto
  from handler_accepts[OF this assms(4) _ _ assms(5,6), of c] assms(2,3) show ?thesis by simp
qed



end
