(* ===== verification/Discovery_Manager.thy ===== *)
theory Discovery_Manager
  imports Dht_Props "HOL-Library.Sublist"
begin

text \<open>
  The discovery manager and the mDNS entries it consumes (\<open>src/internal/discovery/manager.go\<close>,
  \<open>mdns.go\<close>): peers found on the local network are de-duplicated into a bounded channel, lookups try mDNS
  first and the DHT then, and a periodic tick evicts, announces and saves. What the zeroconf library reports
  while a lookup waits is an argument, as is how the wait ends; the network of the DHT is the parameter of
  \<open>Dht\<close>. A nil dereference is the result \<open>None\<close>.
\<close>

section \<open>mDNS entries\<close>

definition cut_prefix :: "string \<Rightarrow> string \<Rightarrow> string option" where
  "cut_prefix pre s = (if take (length pre) s = pre then Some (drop (length pre) s) else None)"

text \<open>The loop over the TXT records; a later record overrides an earlier one.\<close>

definition read_txt :: "string \<times> string \<Rightarrow> string \<Rightarrow> string \<times> string" where
  "read_txt ao txt =
     (let ao1 = (case cut_prefix ''addr='' txt of Some v \<Rightarrow> (v, snd ao) | None \<Rightarrow> ao)
      in case cut_prefix ''onion='' txt of Some v \<Rightarrow> (fst ao1, v) | None \<Rightarrow> ao1)"

record mdns =
  md_localAddr :: string
  md_onionAddr :: string

definition mdns_txt :: "mdns \<Rightarrow> string list" where
  "mdns_txt m = [''addr='' @ md_localAddr m, ''onion='' @ md_onionAddr m]"

definition entryToPeer :: "hashes \<Rightarrow> time \<Rightarrow> mdns \<Rightarrow> string list option \<Rightarrow> peer_info option" where
  "entryToPeer HF now m entry =
     (case entry of
        None \<Rightarrow> None
      | Some txts \<Rightarrow>
          (case foldl read_txt ('''', '''') txts of (addr, onion) \<Rightarrow>
             if addr = '''' \<or> onion = '''' then None
             else if addr = md_localAddr m then None
             else (case NodeIDFromAddress HF addr of
                     Inl e \<Rightarrow> None
                   | Inr i \<Rightarrow> Some \<lparr>ID = i, Address = addr, OnionAddr = onion, LastSeen = now, Failures = 0\<rparr>)))"

definition ParseMDNSEntry :: "hashes \<Rightarrow> time \<Rightarrow> string \<Rightarrow> string list \<Rightarrow> peer_info option" where
  "ParseMDNSEntry HF now localAddr txtRecords =
     entryToPeer HF now \<lparr>md_localAddr = localAddr, md_onionAddr = ''''\<rparr> (Some txtRecords)"

section \<open>The manager\<close>

definition peerChanBuffer :: nat where "peerChanBuffer = 64"
definition DefaultRTMaxAge :: duration where "DefaultRTMaxAge = 168 * hour"

text \<open>The callback installed in mDNS: the general one, or that of a lookup for an address.\<close>

datatype mdns_cb = CbEmit | CbFind string

record manager =
  mg_dht :: "dht option"
  mg_mdns :: "(mdns \<times> mdns_cb option) option"
  peerCh :: "peer_info list"
  mg_seen :: "string list"
  rtPath :: string
  rtMaxAge :: duration

definition set_cb :: "manager \<Rightarrow> mdns_cb \<Rightarrow> manager" where
  "set_cb m cb = m\<lparr>mg_mdns := map_option (\<lambda>(md, _). (md, Some cb)) (mg_mdns m)\<rparr>"

definition NewManager :: "dht option \<Rightarrow> mdns option \<Rightarrow> manager" where
  "NewManager d md = set_cb \<lparr>mg_dht = d, mg_mdns = map_option (\<lambda>x. (x, None)) md, peerCh = [], mg_seen = [],
     rtPath = '''', rtMaxAge = DefaultRTMaxAge\<rparr> CbEmit"

definition emitIfNew :: "manager \<Rightarrow> peer_info \<Rightarrow> manager" where
  "emitIfNew m p =
     (if Address p \<in> set (mg_seen m) then m
      else (let m1 = m\<lparr>mg_seen := Address p # mg_seen m\<rparr>
            in if length (peerCh m1) < peerChanBuffer then m1\<lparr>peerCh := peerCh m1 @ [p]\<rparr> else m1))"

text \<open>A receive from the channel returned by \<open>PeerChan\<close>.\<close>

definition PeerChan_recv :: "manager \<Rightarrow> (manager \<times> peer_info) option" where
  "PeerChan_recv m = (case peerCh m of [] \<Rightarrow> None | p # ps \<Rightarrow> Some (m\<lparr>peerCh := ps\<rparr>, p))"

datatype wait_end = GotResult | TimedOut | CtxDone

definition dht_find :: "hashes \<Rightarrow> 'w network \<Rightarrow> 'w \<Rightarrow> manager \<Rightarrow> string \<Rightarrow> 'w \<times> manager \<times> peer_info res" where
  "dht_find HF N w m addr =
     (case mg_dht m of
        None \<Rightarrow> (w, m, Inl ''peer not found (no discovery backends available)'')
      | Some d \<Rightarrow>
          (case Lookup HF N w d addr of (s, r) \<Rightarrow>
             (lk_world s, m\<lparr>mg_dht := Some (lk_dht s)\<rparr>,
              (case r of Found p \<Rightarrow> Inr p | NotFound \<Rightarrow> Inl ''peer not found'' | ContextDone \<Rightarrow> Inl ''context done''
               | BadAddress \<Rightarrow> Inl ''invalid address''))))"

text \<open>The lookup: \<open>found\<close> are the peers mDNS reports while it waits, in order. The result channel keeps the first
  that matches; the wait ends by it, by the timeout or by the context.\<close>

definition FindPeer ::
  "hashes \<Rightarrow> 'w network \<Rightarrow> 'w \<Rightarrow> manager \<Rightarrow> string \<Rightarrow> peer_info list \<Rightarrow> wait_end \<Rightarrow> 'w \<times> manager \<times> peer_info res" where
  "FindPeer HF N w m addr found wend =
     (case mg_mdns m of
        None \<Rightarrow> dht_find HF N w m addr
      | Some _ \<Rightarrow>
          (let m1 = foldl emitIfNew (set_cb m (CbFind addr)) found
           in case (wend, find (\<lambda>p. Address p = addr) found) of
                (GotResult, Some p) \<Rightarrow> (w, m1, Inr p)
              | (CtxDone, _) \<Rightarrow> (w, m1, Inl ''context done'')
              | _ \<Rightarrow> dht_find HF N w (set_cb m1 CbEmit) addr))"

definition save_rt :: "unit res \<Rightarrow> unit res \<Rightarrow> manager \<Rightarrow> dht \<Rightarrow> peer_info list res option" where
  "save_rt mk wr m d = (if rtPath m \<noteq> '''' then Some (rt_Save mk wr (rt d)) else None)"

text \<open>\<open>AddNode\<close>: the result and what was saved, if the path is set; a failed announce or save is logged.\<close>

definition AddNode ::
  "'w network \<Rightarrow> unit res \<Rightarrow> unit res \<Rightarrow> 'w \<Rightarrow> manager \<Rightarrow> string \<Rightarrow>
     'w \<times> manager \<times> nat res \<times> peer_info list res option" where
  "AddNode N mk wr w m onion =
     (case mg_dht m of
        None \<Rightarrow> (w, m, Inl ''DHT not initialized'', None)
      | Some d \<Rightarrow>
          (case Bootstrap N w d onion of
             (w1, d1, Inl e) \<Rightarrow> (w1, m\<lparr>mg_dht := Some d1\<rparr>, Inl e, None)
           | (w1, d1, Inr n) \<Rightarrow>
               (case Announce N w1 d1 of (w2, d2, _) \<Rightarrow>
                  (w2, m\<lparr>mg_dht := Some d2\<rparr>, Inr n, save_rt mk wr m d2))))"

definition RTSize :: "manager \<Rightarrow> nat" where
  "RTSize m = (case mg_dht m of None \<Rightarrow> 0 | Some d \<Rightarrow> Size (rt d))"

definition ListPeers :: "manager \<Rightarrow> peer_info list" where
  "ListPeers m = (case mg_dht m of None \<Rightarrow> [] | Some d \<Rightarrow> AllPeers (rt d))"

definition SetRTPath :: "manager \<Rightarrow> string \<Rightarrow> manager" where "SetRTPath m p = m\<lparr>rtPath := p\<rparr>"
definition SetRTMaxAge :: "manager \<Rightarrow> duration \<Rightarrow> manager" where "SetRTMaxAge m d = m\<lparr>rtMaxAge := d\<rparr>"

definition mg_AddLocalIdentity :: "hashes \<Rightarrow> time \<Rightarrow> manager \<Rightarrow> string \<Rightarrow> string \<Rightarrow> manager res" where
  "mg_AddLocalIdentity HF now m addr onion =
     (case mg_dht m of
        None \<Rightarrow> Inl ''DHT not initialized''
      | Some d \<Rightarrow> (case AddLocalIdentity HF now d addr onion of
                    Inl e \<Rightarrow> Inl e | Inr d' \<Rightarrow> Inr (m\<lparr>mg_dht := Some d'\<rparr>)))"

definition mg_RemoveLocalIdentity :: "manager \<Rightarrow> string \<Rightarrow> manager" where
  "mg_RemoveLocalIdentity m addr =
     (case mg_dht m of None \<Rightarrow> m | Some d \<Rightarrow> m\<lparr>mg_dht := Some (fst (RemoveLocalIdentity d addr))\<rparr>)"

definition EvictStale :: "time \<Rightarrow> manager \<Rightarrow> manager \<times> nat" where
  "EvictStale now m =
     (case mg_dht m of
        None \<Rightarrow> (m, 0)
      | Some d \<Rightarrow>
          if rtMaxAge m \<le> 0 then (m, 0)
          else (case Evict now (rt d) (rtMaxAge m) of (t, n) \<Rightarrow> (m\<lparr>mg_dht := Some (d\<lparr>rt := t\<rparr>)\<rparr>, n)))"

text \<open>One tick of the announce loop.\<close>

definition announce_tick ::
  "'w network \<Rightarrow> unit res \<Rightarrow> unit res \<Rightarrow> 'w \<Rightarrow> manager \<Rightarrow> ('w \<times> manager \<times> peer_info list res option) option" where
  "announce_tick N mk wr w m =
     (case mg_dht (fst (EvictStale (clock N w) m)) of
        None \<Rightarrow> None
      | Some d \<Rightarrow>
          (case Announce N w d of (w', d', _) \<Rightarrow>
             Some (w', (fst (EvictStale (clock N w) m))\<lparr>mg_dht := Some d'\<rparr>, save_rt mk wr m d')))"

section \<open>Local announcements\<close>

lemma cut_own_prefix [simp]: "cut_prefix p (p @ v) = Some v"
  by (simp add: cut_prefix_def)

lemma read_own_txt:
  "foldl read_txt ('''', '''') (mdns_txt m) = (md_localAddr m, md_onionAddr m)"
  by (simp add: mdns_txt_def read_txt_def cut_prefix_def)

text \<open>What a node announces on the local network is what its neighbours read. The TXT records one node
  registers are turned by another into a peer with its address, its onion and the node ID of its address.\<close>

theorem mdns_roundtrip:
  assumes "NodeIDFromAddress HF (md_localAddr them) = Inr i" and "md_localAddr them \<noteq> ''''" "md_onionAddr them \<noteq> ''''"
    and "md_localAddr them \<noteq> md_localAddr us"
  shows "entryToPeer HF now us (Some (mdns_txt them)) =
    Some \<lparr>ID = i, Address = md_localAddr them, OnionAddr = md_onionAddr them, LastSeen = now, Failures = 0\<rparr>"
  using assms by (simp add: entryToPeer_def read_own_txt)

section \<open>The peer channel\<close>

text \<open>The channel with its history: \<open>out\<close> is what the consumer received.\<close>

definition chan_inv :: "manager \<Rightarrow> peer_info list \<Rightarrow> bool" where
  "chan_inv m out \<longleftrightarrow> distinct (map Address (out @ peerCh m)) \<and> length (peerCh m) \<le> peerChanBuffer \<and>
     Address ` set (out @ peerCh m) \<subseteq> set (mg_seen m)"

lemma chan_inv_emit: "chan_inv m out \<Longrightarrow> chan_inv (emitIfNew m p) out"
  by (auto simp: chan_inv_def emitIfNew_def Let_def)

lemma chan_inv_emits: "chan_inv m out \<Longrightarrow> chan_inv (foldl emitIfNew m ps) out"
  by (induction ps arbitrary: m) (auto intro: chan_inv_emit)

lemma emits_frame [simp]:
  "mg_dht (foldl emitIfNew m ps) = mg_dht m" "mg_mdns (foldl emitIfNew m ps) = mg_mdns m"
proof -
  have "mg_dht (emitIfNew m p) = mg_dht m \<and> mg_mdns (emitIfNew m p) = mg_mdns m" for m p by (simp add: emitIfNew_def Let_def)
  then have "mg_dht (foldl emitIfNew m ps) = mg_dht m \<and> mg_mdns (foldl emitIfNew m ps) = mg_mdns m"
    by (induction ps arbitrary: m) auto
  then show "mg_dht (foldl emitIfNew m ps) = mg_dht m" "mg_mdns (foldl emitIfNew m ps) = mg_mdns m" by auto
qed

lemma set_cb_frame [simp]:
  "mg_dht (set_cb m cb) = mg_dht m" "peerCh (set_cb m cb) = peerCh m" "mg_seen (set_cb m cb) = mg_seen m" "rtMaxAge (set_cb m cb) = rtMaxAge m"
  "rtPath (set_cb m cb) = rtPath m"
  by (simp_all add: set_cb_def)

lemma chan_inv_frame: "peerCh m' = peerCh m \<Longrightarrow> mg_seen m' = mg_seen m \<Longrightarrow> chan_inv m' out = chan_inv m out"
  by (simp add: chan_inv_def)

section \<open>The manager over time\<close>

text \<open>Every call of the daemon, with what the consumer of the channel has received.\<close>

inductive mg_reach :: "hashes \<Rightarrow> unit network \<Rightarrow> manager \<Rightarrow> peer_info list \<Rightarrow> bool" for HF N where
  mg_new: "(\<And>d. dopt = Some d \<Longrightarrow> dht_inv d) \<Longrightarrow> mg_reach HF N (NewManager dopt md) []"
| mg_report: "mg_reach HF N m out \<Longrightarrow> mg_mdns m \<noteq> None \<Longrightarrow> mg_reach HF N (emitIfNew m p) out"
| mg_recv: "mg_reach HF N m out \<Longrightarrow> PeerChan_recv m = Some (m', p) \<Longrightarrow> mg_reach HF N m' (out @ [p])"
| mg_find: "mg_reach HF N m out \<Longrightarrow> mg_reach HF N (fst (snd (FindPeer HF N w m addr found wend))) out"
| mg_addnode: "mg_reach HF N m out \<Longrightarrow> mg_reach HF N (fst (snd (AddNode N mk wr w m onion))) out"
| mg_path: "mg_reach HF N m out \<Longrightarrow> mg_reach HF N (SetRTPath m p) out"
| mg_age: "mg_reach HF N m out \<Longrightarrow> mg_reach HF N (SetRTMaxAge m d) out"
| mg_add: "mg_reach HF N m out \<Longrightarrow> mg_AddLocalIdentity HF now m addr onion = Inr m' \<Longrightarrow> mg_reach HF N m' out"
| mg_remove: "mg_reach HF N m out \<Longrightarrow> mg_reach HF N (mg_RemoveLocalIdentity m addr) out"
| mg_evict: "mg_reach HF N m out \<Longrightarrow> mg_reach HF N (fst (EvictStale now m)) out"
| mg_tick: "mg_reach HF N m out \<Longrightarrow> announce_tick N mk wr w m = Some (w', m', saved) \<Longrightarrow> mg_reach HF N m' out"

definition dht_ok :: "manager \<Rightarrow> bool" where
  "dht_ok m \<longleftrightarrow> (\<forall>d. mg_dht m = Some d \<longrightarrow> dht_inv d)"

lemma dht_inv_Announce: "dht_inv d \<Longrightarrow> dht_inv (fst (snd (Announce N w d)))"
  using Announce_dht[of d N w] by (auto simp: dht_inv_rt_update inv_intros dht_invD)

lemma dht_find_ok:
  assumes "dht_ok m" "dht_find HF N w m addr = (w', m', r)"
  shows "dht_ok m'" "peerCh m' = peerCh m" "mg_seen m' = mg_seen m" "mg_mdns m' = mg_mdns m" "r = Inr p \<Longrightarrow> Address p = addr"
proof -
  have "dht_ok m' \<and> peerCh m' = peerCh m \<and> mg_seen m' = mg_seen m \<and> mg_mdns m' = mg_mdns m \<and> (r = Inr p \<longrightarrow> Address p = addr)"
  proof (cases "mg_dht m")
    case None
    with assms show ?thesis by (auto simp: dht_find_def)
  next
    case (Some d)
    obtain s x where l: "Lookup HF N w d addr = (s, x)" by fastforce
    from Lookup_ok[OF _ l] assms Some show ?thesis
      by (auto simp: dht_find_def l dht_ok_def lookup_ok_def good_result_def split: lookup_result.splits)
  qed
  then show "dht_ok m'" "peerCh m' = peerCh m" "mg_seen m' = mg_seen m" "mg_mdns m' = mg_mdns m" "r = Inr p \<Longrightarrow> Address p = addr" by auto
qed

lemma FindPeer_cases:
  assumes "FindPeer HF N w m addr found wend = (w', m', r)"
  obtains (dht) m1 where "dht_find HF N w m1 addr = (w', m', r)" "mg_dht m1 = mg_dht m"
      "peerCh m1 = peerCh (foldl emitIfNew m (if mg_mdns m = None then [] else found))"
      "mg_seen m1 = mg_seen (foldl emitIfNew m (if mg_mdns m = None then [] else found))"
  | (local) p where "r = Inr p" "Address p = addr" "m' = foldl emitIfNew (set_cb m (CbFind addr)) found"
  | (ended) "r = Inl ''context done''" "m' = foldl emitIfNew (set_cb m (CbFind addr)) found"
proof (cases "mg_mdns m")
  case None
  with assms show thesis by (intro dht[of m]) (simp_all add: FindPeer_def)
next
  case (Some md)
  have "peerCh (foldl emitIfNew (set_cb m cb) found) = peerCh (foldl emitIfNew m found) \<and>
      mg_seen (foldl emitIfNew (set_cb m cb) found) = mg_seen (foldl emitIfNew m found)" for cb
  proof (induction found arbitrary: m)
    case (Cons p ps)
    have "emitIfNew (set_cb m cb) p = set_cb (emitIfNew m p) cb" by (simp add: emitIfNew_def set_cb_def Let_def)
    with Cons[of "emitIfNew m p"] show ?case by simp
  qed simp
  with Some assms that show thesis
    by (cases wend; cases "find (\<lambda>p. Address p = addr) found") (auto simp: FindPeer_def Let_def dest: find_Some_mem)
qed

lemma FindPeer_ok:
  assumes "dht_ok m" "chan_inv m out" "FindPeer HF N w m addr found wend = (w', m', r)"
  shows "dht_ok m' \<and> chan_inv m' out \<and> (\<forall>p. r = Inr p \<longrightarrow> Address p = addr)"
  using assms(3)
proof (cases rule: FindPeer_cases)
  case (dht m1)
  have "dht_ok m1" using assms(1) dht(2) by (simp add: dht_ok_def)
  note ok = dht_find_ok[OF this dht(1)]
  have "chan_inv m' out"
    using chan_inv_emits[OF assms(2)] chan_inv_frame[of m' "foldl emitIfNew m (if mg_mdns m = None then [] else found)"] ok(2,3) dht(3,4)
    by simp
  with ok show ?thesis by blast
next
  case (local p)
  have "chan_inv (set_cb m (CbFind addr)) out" using assms(2) chan_inv_frame[of "set_cb m (CbFind addr)" m] by simp
  with local assms(1) show ?thesis by (simp add: chan_inv_emits dht_ok_def)
next
  case ended
  have "chan_inv (set_cb m (CbFind addr)) out" using assms(2) chan_inv_frame[of "set_cb m (CbFind addr)" m] by simp
  with ended assms(1) show ?thesis by (simp add: chan_inv_emits dht_ok_def)
qed

lemma dht_ok_ops:
  assumes "dht_ok m"
  shows "dht_ok (fst (snd (AddNode N mk wr w m onion)))" "dht_ok (mg_RemoveLocalIdentity m addr)" "dht_ok (fst (EvictStale now m))"
    "mg_AddLocalIdentity HF now m addr onion = Inr m' \<Longrightarrow> dht_ok m'"
    "announce_tick N mk wr w m = Some (w', m', saved) \<Longrightarrow> dht_ok m'"
proof -
  show "dht_ok (fst (snd (AddNode N mk wr w m onion)))"
    using assms dht_inv_Bootstrap[of _ N w onion] dht_inv_Announce[of _ N]
    by (auto simp: AddNode_def dht_ok_def split: option.splits prod.splits sum.splits) (metis fst_conv snd_conv)+
  show "dht_ok (mg_RemoveLocalIdentity m addr)"
    using assms by (auto simp: mg_RemoveLocalIdentity_def dht_ok_def dht_inv_RemoveLocalIdentity split: option.splits)
  show ev: "dht_ok (fst (EvictStale now m))" for now
    using assms by (auto simp: EvictStale_def dht_ok_def case_prod_unfold dht_inv_rt_update dht_invD rt_inv_Evict split: option.splits)
  show "mg_AddLocalIdentity HF now m addr onion = Inr m' \<Longrightarrow> dht_ok m'"
    using assms by (auto simp: mg_AddLocalIdentity_def dht_ok_def dht_inv_AddLocalIdentity split: option.splits sum.splits)
  show "announce_tick N mk wr w m = Some (w', m', saved) \<Longrightarrow> dht_ok m'"
    using ev[of "clock N w"] dht_inv_Announce[of _ N w]
    by (auto simp: announce_tick_def dht_ok_def split: option.splits prod.splits) (metis fst_conv snd_conv)
qed

lemma chan_ops_frame:
  "peerCh (fst (snd (AddNode N mk wr w m onion))) = peerCh m" "mg_seen (fst (snd (AddNode N mk wr w m onion))) = mg_seen m"
  "peerCh (mg_RemoveLocalIdentity m addr) = peerCh m" "mg_seen (mg_RemoveLocalIdentity m addr) = mg_seen m"
  "peerCh (fst (EvictStale now m)) = peerCh m" "mg_seen (fst (EvictStale now m)) = mg_seen m"
  "mg_AddLocalIdentity HF now m addr onion = Inr m' \<Longrightarrow> peerCh m' = peerCh m \<and> mg_seen m' = mg_seen m"
  "announce_tick N mk wr w m = Some (w', m', saved) \<Longrightarrow> peerCh m' = peerCh m \<and> mg_seen m' = mg_seen m"
  by (auto simp: AddNode_def mg_RemoveLocalIdentity_def EvictStale_def mg_AddLocalIdentity_def announce_tick_def
      split: option.splits prod.splits sum.splits if_splits)

lemma mg_reach_inv: "mg_reach HF N m out \<Longrightarrow> dht_ok m \<and> chan_inv m out"
proof (induction rule: mg_reach.induct)
  case (mg_new dopt md)
  then show ?case by (auto simp: dht_ok_def chan_inv_def NewManager_def)
next
  case (mg_report m out p)
  then show ?case using emits_frame(1)[of m "[p]"] by (simp add: chan_inv_emit dht_ok_def)
next
  case (mg_recv m out m' p)
  then obtain ps where "peerCh m = p # ps" "m' = m\<lparr>peerCh := ps\<rparr>" by (auto simp: PeerChan_recv_def split: list.splits)
  with mg_recv show ?case by (simp add: chan_inv_def dht_ok_def)
next
  case (mg_find m out w addr found wend)
  then show ?case using FindPeer_ok[of m out HF N w addr found wend] by (metis prod.collapse)
next
  case (mg_path m out p)
  then show ?case by (simp add: SetRTPath_def dht_ok_def chan_inv_def)
next
  case (mg_age m out d)
  then show ?case by (simp add: SetRTMaxAge_def dht_ok_def chan_inv_def)
next
  case (mg_add m out now addr onion m')
  then show ?case using dht_ok_ops(4) chan_ops_frame(7) chan_inv_frame[of m' m] by metis
next
  case (mg_tick m out mk wr w w' m' saved)
  then show ?case using dht_ok_ops(5) chan_ops_frame(8) chan_inv_frame[of m' m] by metis
qed (simp_all add: dht_ok_ops(1-3) chan_inv_frame[OF chan_ops_frame(1,2)] chan_inv_frame[OF chan_ops_frame(3,4)]
    chan_inv_frame[OF chan_ops_frame(5,6)])

section \<open>Properties\<close>


text \<open>A peer that was seen and is neither delivered nor waiting.\<close>

definition lost :: "manager \<Rightarrow> peer_info list \<Rightarrow> string \<Rightarrow> bool" where
  "lost m out a \<longleftrightarrow> a \<in> set (mg_seen m) \<and> a \<notin> Address ` set (out @ peerCh m)"

text \<open>Reports of mDNS and receives of the consumer.\<close>

datatype chan_op = CReport peer_info | CRecv

definition chan_step :: "manager \<times> peer_info list \<Rightarrow> chan_op \<Rightarrow> manager \<times> peer_info list" where
  "chan_step mo oper = (case (mo, oper) of
     ((m, out), CReport p) \<Rightarrow> (emitIfNew m p, out)
   | ((m, out), CRecv) \<Rightarrow> (case PeerChan_recv m of None \<Rightarrow> (m, out) | Some (m', p) \<Rightarrow> (m', out @ [p])))"

lemma lost_step: "lost m out a \<Longrightarrow> chan_step (m, out) oper = (m', out') \<Longrightarrow> lost m' out' a"
  by (cases oper) (auto simp: lost_def chan_step_def emitIfNew_def PeerChan_recv_def Let_def split: list.splits if_splits)

lemma lost_run: "lost m out a \<Longrightarrow> foldl chan_step (m, out) ops = (m', out') \<Longrightarrow> lost m' out' a"
proof (induction ops arbitrary: m out)
  case (Cons oper ops)
  obtain m1 out1 where "chan_step (m, out) oper = (m1, out1)" by (cases "chan_step (m, out) oper")
  with Cons.prems Cons.IH lost_step[OF Cons.prems(1)] show ?case by (metis foldl_Cons)
qed simp

text \<open>A peer that does not fit is lost for good. When mDNS reports a new peer while 64 are waiting, it is marked as
  seen and dropped, and whatever is reported and received afterwards, the consumer never gets a peer with that address.\<close>

theorem full_channel_loses_peer:
  assumes "mg_reach HF N m out" and "length (peerCh m) = peerChanBuffer" "Address p \<notin> set (mg_seen m)"
    and "foldl chan_step (emitIfNew m p, out) ops = (m', out')"
  shows "Address p \<notin> Address ` set (out' @ peerCh m')"
proof -
  have "Address p \<notin> Address ` set (out @ peerCh m)" using assms(3) mg_reach_inv[OF assms(1)] by (auto simp: chan_inv_def)
  with assms(2,3) have "lost (emitIfNew m p) out (Address p)" by (auto simp: lost_def emitIfNew_def Let_def)
  from lost_run[OF this assms(4)] show ?thesis by (simp add: lost_def)
qed

section \<open>A concrete manager\<close>

definition demo_seen :: "nat \<Rightarrow> peer_info" where
  "demo_seen n = \<lparr>ID = replicate 20 1, Address = replicate n (CHR ''E''), OnionAddr = ''x.onion'', LastSeen = 0, Failures = 0\<rparr>"

definition demo_mg :: "nat \<Rightarrow> manager" where
  "demo_mg n = foldl emitIfNew (NewManager (Some demo_dht) (Some \<lparr>md_localAddr = ''me'', md_onionAddr = ''me.onion''\<rparr>)) (map demo_seen [0..<n])"

lemma demo_mg_state:
  "n \<le> 64 \<Longrightarrow> peerCh (demo_mg n) = map demo_seen [0..<n] \<and> set (mg_seen (demo_mg n)) = Address ` demo_seen ` {0..<n} \<and> mg_mdns (demo_mg n) \<noteq> None"
proof (induction n)
  case 0
  then show ?case by (simp add: demo_mg_def NewManager_def set_cb_def)
next
  case (Suc n)
  have step: "demo_mg (Suc n) = emitIfNew (demo_mg n) (demo_seen n)" by (simp add: demo_mg_def)
  have "Address (demo_seen n) \<notin> Address ` demo_seen ` {0..<n}" by (auto simp: demo_seen_def)
  with Suc step show ?case by (simp add: emitIfNew_def Let_def peerChanBuffer_def atLeast0_lessThan_Suc)
qed

lemma demo_mg_reach: "n \<le> 64 \<Longrightarrow> mg_reach demo_hashes demo_net (demo_mg n) []"
proof (induction n)
  case 0
  then show ?case
    using mg_new[of "Some demo_dht" demo_hashes demo_net] dht_inv_demo by (simp add: demo_mg_def)
next
  case (Suc n)
  have step: "demo_mg (Suc n) = emitIfNew (demo_mg n) (demo_seen n)" by (simp add: demo_mg_def)
  show ?case unfolding step by (rule mg_report) (use Suc demo_mg_state[of n] in auto)
qed

theorem full_channel_loses_peer_witness:
  "length (peerCh (demo_mg 64)) = 64 \<and>
   (case foldl chan_step (emitIfNew (demo_mg 64) (demo_seen 64), []) [CRecv, CReport (demo_seen 64), CRecv] of (m, out) \<Rightarrow>
      Address (demo_seen 64) \<notin> Address ` set (out @ peerCh m))"
proof -
  obtain m out where r: "foldl chan_step (emitIfNew (demo_mg 64) (demo_seen 64), []) [CRecv, CReport (demo_seen 64), CRecv] = (m, out)"
    by (cases "foldl chan_step (emitIfNew (demo_mg 64) (demo_seen 64), []) [CRecv, CReport (demo_seen 64), CRecv]")
  have l: "length (peerCh (demo_mg 64)) = peerChanBuffer" using demo_mg_state[of 64] by (simp add: peerChanBuffer_def)
  have "Address (demo_seen 64) \<notin> set (mg_seen (demo_mg 64))" using demo_mg_state[of 64] by (auto simp: demo_seen_def)
  from full_channel_loses_peer[OF demo_mg_reach l this r] l r show ?thesis by (simp add: peerChanBuffer_def)
qed


theorem mdns_roundtrip_witness:
  "\<exists>p. entryToPeer demo_hashes 5 \<lparr>md_localAddr = ''me'', md_onionAddr = ''me.onion''\<rparr>
     (Some (mdns_txt \<lparr>md_localAddr = demo_addr, md_onionAddr = ''x.onion''\<rparr>)) = Some p \<and> Address p = demo_addr"
proof -
  obtain i where i: "NodeIDFromAddress demo_hashes demo_addr = Inr i"
    by (auto simp: NodeIDFromAddress_def demo_addr_def demo_hashes_def split: if_splits)
  have "demo_addr \<noteq> ''''" "demo_addr \<noteq> ''me''" by (simp_all add: demo_addr_def numeral_eq_Suc)
  with i show ?thesis
    using mdns_roundtrip[of demo_hashes "\<lparr>md_localAddr = demo_addr, md_onionAddr = ''x.onion''\<rparr>" i
        "\<lparr>md_localAddr = ''me'', md_onionAddr = ''me.onion''\<rparr>" 5] by simp
qed

end
