(* ===== verification/Presence.thy ===== *)
theory Presence
  imports Connector Codec
begin

text \<open>
  Presence (\<open>src/internal/transport/presence.go\<close>) and the automatic reconnection of the connector
  (\<open>StartAutoReconnect\<close> in \<open>connector.go\<close>): connected peers are pinged at every tick, changes are
  reported, and three missed pings in a row start a reconnection. What the stream does in one ping is a
  record argument; the protobuf encodings of ping and pong are a parameter.
\<close>

section \<open>Ping and pong\<close>

record ping_codec =
  ping_Marshal :: "i64 \<Rightarrow> bytes res"
  ping_Unmarshal :: "bytes \<Rightarrow> i64 res"
  pong_Marshal :: "i64 \<Rightarrow> bytes res"

text \<open>What one ping meets: the clock when it starts, the outcomes of opening and writing, what is read, and the
  time since the start.\<close>

record ping_io =
  pg_open :: "unit res"
  pg_now :: time
  pg_write :: "unit res"
  pg_read :: "envelope res"
  pg_since :: duration

text \<open>The envelope written, if any, and the result.\<close>

definition PingPeer :: "ed25519 \<Rightarrow> ping_codec \<Rightarrow> keypair \<Rightarrow> ping_io \<Rightarrow> envelope option \<times> duration res" where
  "PingPeer E C kp io =
     (case pg_open io of
        Inl e \<Rightarrow> (None, Inl ''opening presence stream'')
      | Inr _ \<Rightarrow>
          (case ping_Marshal C (unix_millis (pg_now io)) of
             Inl e \<Rightarrow> (None, Inl ''marshaling ping'')
           | Inr payload \<Rightarrow>
               (let env = WrapMessage E (pg_now io) PING payload kp
                in case pg_write io of
                     Inl e \<Rightarrow> (None, Inl ''sending ping'')
                   | Inr _ \<Rightarrow>
                       (case pg_read io of
                          Inl e \<Rightarrow> (Some env, Inl ''reading pong'')
                        | Inr resp \<Rightarrow>
                            if Type resp \<noteq> PONG then (Some env, Inl ''unexpected response type'')
                            else (Some env, Inr (pg_since io))))))"

definition handlePing :: "ed25519 \<Rightarrow> ping_codec \<Rightarrow> keypair \<Rightarrow> time \<Rightarrow> envelope res \<Rightarrow> envelope option" where
  "handlePing E C kp now read =
     (case read of
        Inl e \<Rightarrow> None
      | Inr env \<Rightarrow>
          if Type env \<noteq> PING then None
          else (case ping_Unmarshal C (Payload env) of
                  Inl e \<Rightarrow> None
                | Inr ts \<Rightarrow>
                    (case pong_Marshal C ts of
                       Inl e \<Rightarrow> None
                     | Inr p \<Rightarrow> Some (WrapMessage E now PONG p kp))))"

section \<open>Online states\<close>

text \<open>A Go map with boolean values, read with the zero value for a missing key; and the calls of \<open>onChange\<close>.\<close>

type_synonym presence = "string \<Rightarrow> bool"

record online_status =
  os_Address :: string
  os_Online :: bool

definition NewPresence :: presence where "NewPresence = (\<lambda>_. False)"

definition IsOnline :: "presence \<Rightarrow> string \<Rightarrow> bool" where "IsOnline p addr = p addr"

definition ping_one :: "presence \<times> online_status list \<Rightarrow> peer_conn \<times> duration res \<Rightarrow> presence \<times> online_status list" where
  "ping_one s pr = (case (s, pr) of ((p, calls), (pc, r)) \<Rightarrow>
     (let nowOnline = (\<not> isl r); wasOnline = p (pc_Address pc)
      in (p(pc_Address pc := nowOnline),
          if nowOnline \<noteq> wasOnline then calls @ [\<lparr>os_Address = pc_Address pc, os_Online = nowOnline\<rparr>] else calls)))"

definition pingAll :: "presence \<Rightarrow> (peer_conn \<times> duration res) list \<Rightarrow> presence \<times> online_status list" where
  "pingAll p prs = foldl ping_one (p, []) prs"

text \<open>The loop of \<open>Start\<close>: one round of pings per tick, with the calls accumulated.\<close>

definition presence_ticks :: "presence \<Rightarrow> (peer_conn \<times> duration res) list list \<Rightarrow> presence \<times> online_status list" where
  "presence_ticks p rounds =
     foldl (\<lambda>(p, calls) prs. case pingAll p prs of (p', cs) \<Rightarrow> (p', calls @ cs)) (p, []) rounds"

section \<open>Automatic reconnection\<close>

definition maxMissed :: int where "maxMissed = 3"

text \<open>The failure counts and the reconnections started, after the ping of one connected peer.\<close>

definition reconnect_one ::
  "(string \<Rightarrow> int) \<times> string list \<Rightarrow> peer_conn \<times> duration res \<Rightarrow> (string \<Rightarrow> int) \<times> string list" where
  "reconnect_one s pr = (case (s, pr) of ((failures, started), (pc, r)) \<Rightarrow>
     if pc_PeerID pc = '''' then (failures, started)
     else if isl r then
       (let n = failures (pc_Address pc) + 1
        in if n \<ge> maxMissed then (failures(pc_Address pc := 0), started @ [pc_Address pc])
           else (failures(pc_Address pc := n), started))
     else (failures(pc_Address pc := 0), started))"

definition reconnect_tick ::
  "connector \<Rightarrow> (string \<Rightarrow> duration res) \<Rightarrow> (string \<Rightarrow> int) \<times> string list \<Rightarrow> (string \<Rightarrow> int) \<times> string list" where
  "reconnect_tick c ping s =
     foldl reconnect_one s (map (\<lambda>pc. (pc, ping (pc_PeerID pc))) (filter connected (map snd (peers c))))"

section \<open>Properties\<close>

text \<open>The statuses reported for one address.\<close>

definition reports :: "string \<Rightarrow> online_status list \<Rightarrow> bool list" where
  "reports a calls = map os_Online (filter (\<lambda>c. os_Address c = a) calls)"

fun alternating :: "bool \<Rightarrow> bool list \<Rightarrow> bool" where
  "alternating b [] = True"
| "alternating b (x # xs) = (x = (\<not> b) \<and> alternating x xs)"

lemma alternating_append:
  "alternating b (xs @ ys) \<longleftrightarrow> alternating b xs \<and> alternating (if xs = [] then b else last xs) ys"
  by (induction b xs rule: alternating.induct) auto

text \<open>From a state \<open>b\<close> of the address to \<open>b'\<close>, the calls made report the changes between.\<close>

definition tracked :: "string \<Rightarrow> bool \<Rightarrow> online_status list \<Rightarrow> bool \<Rightarrow> online_status list \<Rightarrow> bool" where
  "tracked a b c0 b' c1 \<longleftrightarrow> (\<exists>new. reports a c1 = reports a c0 @ new \<and> alternating b new \<and> b' = (if new = [] then b else last new))"

lemma tracked_refl: "tracked a b c b c"
  by (simp add: tracked_def)

lemma tracked_trans:
  assumes "tracked a b c0 b1 c1" "tracked a b1 c1 b2 c2"
  shows "tracked a b c0 b2 c2"
proof -
  obtain n1 n2 where "reports a c1 = reports a c0 @ n1" "alternating b n1" "b1 = (if n1 = [] then b else last n1)"
    "reports a c2 = reports a c1 @ n2" "alternating b1 n2" "b2 = (if n2 = [] then b1 else last n2)"
    using assms unfolding tracked_def by blast
  then show ?thesis unfolding tracked_def by (intro exI[of _ "n1 @ n2"]) (simp add: alternating_append)
qed

lemma reports_append: "reports a (xs @ ys) = reports a xs @ reports a ys"
  by (simp add: reports_def)

lemma tracked_one:
  assumes "ping_one (p, calls) pr = (p', calls')"
  shows "tracked a (p a) calls (p' a) calls'"
proof -
  obtain pc r where pr: "pr = (pc, r)" by (cases pr)
  show ?thesis
  proof (cases "pc_Address pc = a \<and> (\<not> isl r) \<noteq> p a")
    case True
    then show ?thesis using assms unfolding tracked_def pr
      by (intro exI[of _ "[\<not> isl r]"]) (auto simp: ping_one_def Let_def reports_def)
  next
    case False
    then show ?thesis using assms unfolding tracked_def pr
      by (intro exI[of _ "[]"]) (auto simp: ping_one_def Let_def reports_def split: if_splits)
  qed
qed

lemma tracked_fold: "foldl ping_one (p, calls) prs = (p', calls') \<Longrightarrow> tracked a (p a) calls (p' a) calls'"
proof (induction prs arbitrary: p calls)
  case Nil
  then show ?case by (simp add: tracked_refl)
next
  case (Cons pr prs)
  obtain p1 c1 where s: "ping_one (p, calls) pr = (p1, c1)" by (cases "ping_one (p, calls) pr")
  with Cons.prems have "foldl ping_one (p1, c1) prs = (p', calls')" by simp
  from tracked_trans[OF tracked_one[OF s] Cons.IH[OF this]] show ?case .
qed

lemma tracked_round: "pingAll p prs = (p', cs) \<Longrightarrow> tracked a (p a) calls (p' a) (calls @ cs)"
  using tracked_fold[of p "[]" prs p' cs a] by (simp add: pingAll_def tracked_def reports_append) (simp add: reports_def)

lemma tracked_ticks:
  "foldl (\<lambda>(p, calls) prs. case pingAll p prs of (p', cs) \<Rightarrow> (p', calls @ cs)) (p, calls) rounds = (p', calls') \<Longrightarrow>
     tracked a (p a) calls (p' a) calls'"
proof (induction rounds arbitrary: p calls)
  case Nil
  then show ?case by (simp add: tracked_refl)
next
  case (Cons r rs)
  obtain p1 cs where s: "pingAll p r = (p1, cs)" by (cases "pingAll p r")
  with Cons.prems have "foldl (\<lambda>(p, calls) prs. case pingAll p prs of (p', cs) \<Rightarrow> (p', calls @ cs)) (p1, calls @ cs) rs = (p', calls')"
    by simp
  from tracked_trans[OF tracked_round[OF s, of a calls] Cons.IH[OF this]] show ?case .
qed

text \<open>Presence reports changes and only changes. Over any number of rounds of pings, whatever their outcomes, the
  statuses reported for an address alternate, starting with online, and the last one is what \<open>IsOnline\<close> answers.\<close>

theorem presence_reports_changes:
  "case presence_ticks NewPresence rounds of (p, calls) \<Rightarrow>
     alternating False (reports a calls) \<and> IsOnline p a = (reports a calls \<noteq> [] \<and> last (reports a calls))"
proof -
  obtain p calls where r: "presence_ticks NewPresence rounds = (p, calls)" by (cases "presence_ticks NewPresence rounds")
  from tracked_ticks[OF this[unfolded presence_ticks_def], of a] r show ?thesis
    by (simp add: tracked_def NewPresence_def IsOnline_def) (simp add: reports_def)
qed

section \<open>Missed pings\<close>

text \<open>The pings of one peer over the ticks, \<open>True\<close> for a pong; and the misses since the last one.\<close>

fun misses :: "bool list \<Rightarrow> nat" where
  "misses [] = 0"
| "misses (ok # hist) = (if ok then 0 else Suc (misses hist))"

definition one_peer :: "connector \<Rightarrow> string \<Rightarrow> string \<Rightarrow> bool" where
  "one_peer c a pid \<longleftrightarrow> pid \<noteq> '''' \<and> (\<exists>pc. filter connected (map snd (peers c)) = [pc] \<and> pc_Address pc = a \<and> pc_PeerID pc = pid)"

definition ping_result :: "bool \<Rightarrow> duration res" where
  "ping_result ok = (if ok then Inr 0 else Inl ''missed'')"


definition demo_pinged :: connector where
  "demo_pinged = (NewConnector demo_hashes \<lparr>cc_Keypair = \<lparr>pub = [], priv = []\<rparr>, cc_Host = True, cc_NATCfg = DefaultNATConfig,
     cc_MaxPeers = 0, cc_MaxXfers = 0\<rparr>)\<lparr>peers := [(''E'', (new_pc 0 ''E'')\<lparr>pc_State := StateConnected, pc_PeerID := ''p''\<rparr>)]\<rparr>"


section \<open>Honest peers\<close>

text \<open>The encodings as protobuf documents them: a marshalled ping decodes to its timestamp, a pong is marshalled.\<close>

definition ping_codec_ok :: "ping_codec \<Rightarrow> bool" where
  "ping_codec_ok C \<longleftrightarrow> (\<forall>ts. \<exists>b. ping_Marshal C ts = Inr b \<and> ping_Unmarshal C b = Inr ts) \<and> (\<forall>ts. \<exists>b. pong_Marshal C ts = Inr b)"

text \<open>A ping answered by an honest peer succeeds, and the answer is an authentic envelope of that peer.\<close>

lemma ping_answered:
  assumes "ping_codec_ok C" "pg_open io = Inr ()" "pg_write io = Inr ()"
    and "fst (PingPeer E C kp io) = Some ping" and "handlePing E C kp' now (Inr ping) = Some pong" "pg_read io = Inr pong"
  shows "snd (PingPeer E C kp io) = Inr (pg_since io)"
proof -
  have "Type pong = PONG" using assms(5)
    by (auto simp: handlePing_def WrapMessage_def Let_def split: if_splits sum.splits)
  with assms show ?thesis by (auto simp: PingPeer_def Let_def split: sum.splits)
qed

lemma ping_always_answered:
  assumes "ping_codec_ok C" "fst (PingPeer E C kp io) = Some ping"
  shows "\<exists>pong. handlePing E C kp' now (Inr ping) = Some pong"
proof -
  obtain b where b: "ping_Marshal C (unix_millis (pg_now io)) = Inr b" "ping_Unmarshal C b = Inr (unix_millis (pg_now io))"
    using assms(1) unfolding ping_codec_ok_def by blast
  then have "ping = WrapMessage E (pg_now io) PING b kp"
    using assms(2) by (auto simp: PingPeer_def Let_def split: sum.splits if_splits)
  moreover obtain q where "pong_Marshal C (unix_millis (pg_now io)) = Inr q" using assms(1) unfolding ping_codec_ok_def by blast
  ultimately show ?thesis using b by (simp add: handlePing_def WrapMessage_def Let_def)
qed

end
