(* ===== verification/File_Offers.thy ===== *)
theory File_Offers
  imports File_Transfer_Props Event_Bus Go_Strconv
begin

text \<open>
  The offer that precedes a file transfer (\<open>src/internal/filetransfer/sender.go\<close>, \<open>receiver.go\<close>): the receiver
  parks an offer under the transfer id the peer chose, publishes it and waits for the user; the sender offers a
  file and sends its chunks when the offer is accepted. An offer in memory is an index into the receiver's table
  of offers, its decision channel a buffer of one; any number of offers are handled at once, so the handler is cut
  where it waits for the decision.
\<close>

section \<open>The receiver\<close>

record file_offer =
  of_TransferID :: string
  of_Filename :: string
  of_Size :: u64
  of_RootHash :: bytes
  of_ChunkSize :: u32
  of_ChunkCount :: u32
  of_FromAddr :: string

record file_decision =
  fd_Accept :: bool
  fd_SavePath :: string
  fd_Reason :: string

record receiver =
  rv_saveDir :: string
  rv_lookup :: "(string \<Rightarrow> service option) option"
  rv_serviceName :: string
  rv_bus :: "nat event_bus"
  rv_pending :: "(string \<times> nat) list"
  rv_transfers :: "(string \<times> transfer) list"
  offers :: "file_offer list"
  rv_decisions :: "nat \<Rightarrow> file_decision list"

definition NewReceiver :: "nat event_bus \<Rightarrow> string \<Rightarrow> (string \<Rightarrow> service option) option \<Rightarrow> string \<Rightarrow> receiver" where
  "NewReceiver b dir look name = \<lparr>rv_saveDir = dir, rv_lookup = look, rv_serviceName = name, rv_bus = b, rv_pending = [],
     rv_transfers = [], offers = [], rv_decisions = (\<lambda>_. [])\<rparr>"

definition rv_resolveService :: "receiver \<Rightarrow> service res" where
  "rv_resolveService r =
     (case rv_lookup r of
        None \<Rightarrow> Inl ''filetransfer: no service registry configured''
      | Some get \<Rightarrow> (case get (rv_serviceName r) of
                      None \<Rightarrow> Inl ''filetransfer: service not registered'' | Some svc \<Rightarrow> Inr svc))"

text \<open>The send into the decision channel blocks while the channel is full: \<open>None\<close>.\<close>

definition decide_file :: "receiver \<Rightarrow> string \<Rightarrow> file_decision \<Rightarrow> (receiver \<times> unit res) option" where
  "decide_file r tid d =
     (case map_of (rv_pending r) tid of
        None \<Rightarrow> Some (r, Inl ''no pending offer with ID'')
      | Some i \<Rightarrow> if rv_decisions r i = [] then Some (r\<lparr>rv_decisions := (rv_decisions r)(i := [d])\<rparr>, Inr ()) else None)"

definition AcceptFile :: "receiver \<Rightarrow> string \<Rightarrow> string \<Rightarrow> (receiver \<times> unit res) option" where
  "AcceptFile r tid savePath = decide_file r tid \<lparr>fd_Accept = True, fd_SavePath = savePath, fd_Reason = ''''\<rparr>"

definition RejectFile :: "receiver \<Rightarrow> string \<Rightarrow> string \<Rightarrow> (receiver \<times> unit res) option" where
  "RejectFile r tid reason = decide_file r tid \<lparr>fd_Accept = False, fd_SavePath = '''', fd_Reason = reason\<rparr>"

definition rv_GetTransfer :: "receiver \<Rightarrow> string \<Rightarrow> transfer option" where
  "rv_GetTransfer r tid = map_of (rv_transfers r) tid"

text \<open>Parking an offer and publishing it.\<close>

definition park_offer :: "receiver \<Rightarrow> file_offer \<Rightarrow> receiver \<times> nat" where
  "park_offer r fo =
     (let i = length (offers r)
      in (r\<lparr>offers := offers r @ [fo], rv_decisions := (rv_decisions r)(i := []),
            rv_pending := AList.update (of_TransferID fo) i (rv_pending r),
            rv_bus := Publish (rv_bus r) \<lparr>ev_Type = EventFileOffer, ev_Payload = i\<rparr>\<rparr>, i))"

definition OnFileOffer :: "receiver \<Rightarrow> string \<Rightarrow> string \<Rightarrow> string \<Rightarrow> int \<Rightarrow> receiver \<times> unit res" where
  "OnFileOffer r fromAddr oid filename sz =
     (case rv_resolveService r of
        Inl e \<Rightarrow> (r, Inl e)
      | Inr _ \<Rightarrow> (fst (park_offer r \<lparr>of_TransferID = oid, of_Filename = filename, of_Size = word_of_int sz, of_RootHash = [],
                    of_ChunkSize = 0, of_ChunkCount = 0, of_FromAddr = fromAddr\<rparr>), Inr ()))"

text \<open>\<open>handleIncoming\<close> up to the wait: the envelope read and its decoded offer, if the payload decodes.\<close>

definition receive_offer ::
  "hashes \<Rightarrow> ed25519 \<Rightarrow> (bytes \<Rightarrow> file_offer_msg option) \<Rightarrow> receiver \<Rightarrow> envelope res \<Rightarrow> receiver \<times> (nat \<times> service) option" where
  "receive_offer HF E unmarshal r read =
     (case read of
        Inl e \<Rightarrow> (r, None)
      | Inr env \<Rightarrow>
          if Type env \<noteq> FILE_OFFER then (r, None)
          else if \<not> VerifyEnvelope E env then (r, None)
          else (case rv_resolveService r of
                  Inl e \<Rightarrow> (r, None)
                | Inr svc \<Rightarrow>
                    if \<not> AsFile svc then (r, None)
                    else (case unmarshal (Payload env) of
                            None \<Rightarrow> (r, None)
                          | Some m \<Rightarrow>
                              (case park_offer r \<lparr>of_TransferID = fo_TransferId m, of_Filename = fo_Filename m, of_Size = fo_Size m,
                                      of_RootHash = fo_RootHash m, of_ChunkSize = fo_ChunkSize m, of_ChunkCount = fo_ChunkCount m,
                                      of_FromAddr = DeriveAddress HF (PubKey env)\<rparr> of
                                 (r', i) \<Rightarrow> (r', Some (i, svc))))))"

definition offered_transfer :: "file_offer \<Rightarrow> transfer" where
  "offered_transfer fo =
     \<lparr>xf_ID = of_TransferID fo, xf_Filename = of_Filename fo, xf_FileSize = sint (of_Size fo), xf_ChunkSize = uint (of_ChunkSize fo),
      xf_Total = of_ChunkCount fo, xf_RootHash = of_RootHash fo, xf_PeerAddr = of_FromAddr fo, xf_Direction = ''receive'',
      xf_acked = 0, xf_failed = False\<rparr>"

text \<open>The rest of the handler, once there is a decision or the two minutes are over; the file written, if any, and
  \<open>None\<close> while the fuel of the chunk loop does not suffice.\<close>

definition the_decision :: "receiver \<Rightarrow> nat \<Rightarrow> bool \<Rightarrow> file_decision" where
  "the_decision r i timed_out = (case rv_decisions r i of
     d # ds \<Rightarrow> if timed_out then \<lparr>fd_Accept = False, fd_SavePath = '''', fd_Reason = ''timed out''\<rparr> else d
   | [] \<Rightarrow> \<lparr>fd_Accept = False, fd_SavePath = '''', fd_Reason = ''timed out''\<rparr>)"

definition finish_offer ::
  "nat \<Rightarrow> (bytes \<Rightarrow> bytes) \<Rightarrow> 'w stream_io \<Rightarrow> disk \<Rightarrow> receiver \<Rightarrow> nat \<Rightarrow> bool \<Rightarrow> 'w \<Rightarrow>
     ('w \<times> receiver \<times> (string \<times> bytes) option) option" where
  "finish_offer n sha io dk r i timed_out w =
     (let fo = offers r ! i; d = the_decision r i timed_out; tid = of_TransferID fo;
          r1 = r\<lparr>rv_decisions := (rv_decisions r)(i := []), rv_pending := AList.delete tid (rv_pending r)\<rparr>
      in if \<not> fd_Accept d then Some (fst (st_write io w (FileReject tid (fd_Reason d))), r1, None)
         else (case st_write io w (FileAccept tid) of
                 (w1, Inl e) \<Rightarrow> Some (w1, r1, None)
               | (w1, Inr _) \<Rightarrow>
                   (let saveDir = (if fd_SavePath d = '''' then rv_saveDir r else fd_SavePath d); x = offered_transfer fo;
                        r2 = r1\<lparr>rv_transfers := AList.update tid x (rv_transfers r1)\<rparr>
                    in case receiveChunks n sha io dk saveDir \<lparr>chunks = [], r_xfer = x, r_progress = []\<rparr> w1 of
                         None \<Rightarrow> None
                       | Some (w2, rcv, out, res) \<Rightarrow>
                           Some (w2, r2\<lparr>rv_transfers := AList.update tid ((r_xfer rcv)\<lparr>xf_failed := isl res\<rparr>) (rv_transfers r2)\<rparr>, out))))"

section \<open>The sender\<close>

record sender =
  sn_lookup :: "(string \<Rightarrow> service option) option"
  sn_serviceName :: string
  sn_transfers :: "(string \<times> transfer) list"
  sn_cancelled :: "string list"

definition NewSender :: "(string \<Rightarrow> service option) option \<Rightarrow> string \<Rightarrow> sender" where
  "NewSender look name = \<lparr>sn_lookup = look, sn_serviceName = name, sn_transfers = [], sn_cancelled = []\<rparr>"

definition sn_resolveService :: "sender \<Rightarrow> service res" where
  "sn_resolveService s =
     (case sn_lookup s of
        None \<Rightarrow> Inl ''filetransfer: no service registry configured''
      | Some get \<Rightarrow> (case get (sn_serviceName s) of
                      None \<Rightarrow> Inl ''filetransfer: service not registered'' | Some svc \<Rightarrow> Inr svc))"

definition generateTransferID :: "bytes \<Rightarrow> string" where
  "generateTransferID b = hex_encode b"

definition sn_GetTransfer :: "sender \<Rightarrow> string \<Rightarrow> transfer option" where
  "sn_GetTransfer s tid = map_of (sn_transfers s) tid"

definition CancelTransfer :: "sender \<Rightarrow> string \<Rightarrow> sender" where
  "CancelTransfer s tid = (if map_of (sn_transfers s) tid \<noteq> None then s\<lparr>sn_cancelled := sn_cancelled s @ [tid]\<rparr> else s)"

text \<open>What one \<open>OfferFile\<close> meets besides the stream: whether the peer is connected, the sixteen random bytes of the id,
  whether the stream opens, whether the offer marshals, and whether the context ends while it waits for the answer.\<close>

record offer_io =
  oi_peer :: bool
  oi_id :: bytes
  oi_open :: "unit res"
  oi_marshal :: "unit res"
  oi_ctx_done :: bool

definition sent_transfer :: "string \<Rightarrow> string \<Rightarrow> string \<Rightarrow> chunker \<Rightarrow> merkle_tree \<Rightarrow> transfer" where
  "sent_transfer tid peerAddr filePath c tree =
     \<lparr>xf_ID = tid, xf_Filename = Base filePath, xf_FileSize = FileSize c, xf_ChunkSize = ChunkSize c, xf_Total = TotalChunks c,
      xf_RootHash = Root tree, xf_PeerAddr = peerAddr, xf_Direction = ''send'', xf_acked = 0, xf_failed = False\<rparr>"

definition offer_of :: "transfer \<Rightarrow> file_offer_msg" where
  "offer_of x = \<lparr>fo_TransferId = xf_ID x, fo_Filename = xf_Filename x, fo_Size = word_of_int (xf_FileSize x),
     fo_RootHash = xf_RootHash x, fo_ChunkSize = word_of_int (xf_ChunkSize x), fo_ChunkCount = xf_Total x\<rparr>"

text \<open>The wait for the answer and the transfer that follows an acceptance.\<close>

definition await_answer ::
  "nat \<Rightarrow> (bytes \<Rightarrow> bytes) \<Rightarrow> 'w stream_io \<Rightarrow> offer_io \<Rightarrow> chunker \<Rightarrow> merkle_tree \<Rightarrow> transfer \<Rightarrow> 'w \<Rightarrow>
     ('w \<times> transfer \<times> transfer res) option" where
  "await_answer n sha io oio c tree x w =
     (case st_read io w of
        (w1, got) \<Rightarrow>
          if oi_ctx_done oio then Some (w1, x, Inl ''context done'')
          else (case got of
                  Inl e \<Rightarrow> Some (w1, x, Inl ''reading response'')
                | Inr (FileReject t reason) \<Rightarrow> Some (w1, x, Inl ''file rejected by peer'')
                | Inr (FileAccept t) \<Rightarrow>
                    (case sendChunks n sha io c tree x w1 of
                       None \<Rightarrow> None
                     | Some (w2, s, Inl e) \<Rightarrow> Some (w2, (s_xfer s)\<lparr>xf_failed := True\<rparr>, Inl e)
                     | Some (w2, s, Inr _) \<Rightarrow> Some (fst (st_read io w2), s_xfer s, Inr (s_xfer s)))
                | Inr m \<Rightarrow> Some (w1, x, Inl ''unexpected response type'')))"

definition OfferFile ::
  "nat \<Rightarrow> (bytes \<Rightarrow> bytes) \<Rightarrow> 'w stream_io \<Rightarrow> offer_io \<Rightarrow> sender \<Rightarrow> string \<Rightarrow> string \<Rightarrow> 'w \<Rightarrow>
     ('w \<times> sender \<times> transfer res) option" where
  "OfferFile n sha io oio s peerAddr filePath w =
     (case sn_resolveService s of
        Inl e \<Rightarrow> Some (w, s, Inl e)
      | Inr svc \<Rightarrow>
        if \<not> oi_peer oio then Some (w, s, Inl ''peer not connected'')
        else (case NewChunker (st_files io w) filePath of
          Inl e \<Rightarrow> Some (w, s, Inl ''creating chunker'')
        | Inr c \<Rightarrow>
          (case AllChunkHashes sha (st_files io w) c of
             Inl e \<Rightarrow> Some (w, s, Inl ''computing chunk hashes'')
           | Inr hs \<Rightarrow>
             (case BuildMerkleTree sha hs of
                Inl e \<Rightarrow> Some (w, s, Inl ''building merkle tree'')
              | Inr tree \<Rightarrow>
                (let tid = generateTransferID (oi_id oio); x = sent_transfer tid peerAddr filePath c tree;
                     s1 = s\<lparr>sn_transfers := AList.update tid x (sn_transfers s)\<rparr>
                 in case oi_open oio of
                      Inl e \<Rightarrow> Some (w, s1, Inl ''opening stream'')
                    | Inr _ \<Rightarrow>
                      (case oi_marshal oio of
                         Inl e \<Rightarrow> Some (w, s1, Inl ''marshaling offer'')
                       | Inr _ \<Rightarrow>
                         (case st_write io w (FileOfferMsg (offer_of x)) of
                            (w1, Inl e) \<Rightarrow> Some (w1, s1, Inl ''sending offer'')
                          | (w1, Inr _) \<Rightarrow>
                              map_option (\<lambda>(w2, x', res). (w2, s1\<lparr>sn_transfers := AList.update tid x' (sn_transfers s1)\<rparr>, res))
                                (await_answer n sha io oio c tree x w1))))))))"

section \<open>Paths\<close>

lemma reassemble_path: "reassemble dk x cs sd = (Some (path, out), res) \<Longrightarrow> path = Join sd (xf_Filename x)"
  by (auto simp: reassemble_def Let_def split: if_splits sum.splits prod.splits)

lemma receiveChunks_path:
  "receiveChunks n sha io dk sd r w = Some (w', r', Some (path, out), res) \<Longrightarrow> path = Join sd (xf_Filename (r_xfer r))"
proof (induction n arbitrary: r w)
  case (Suc n)
  then show ?case
    by (auto simp: recv_msg_def Let_def dest!: reassemble_path Suc.IH split: prod.splits sum.splits recv_action.splits file_msg.splits if_splits)
qed simp

text \<open>What a finished offer that wrote a file went through.\<close>

lemma finish_offer_file:
  assumes "finish_offer n sha io dk r i t w = Some (w', r', Some (path, out))"
  obtains d w1 rcv res where "\<not> t" "rv_decisions r i \<noteq> []" "d = hd (rv_decisions r i)" "fd_Accept d"
    "receiveChunks n sha io dk (if fd_SavePath d = '''' then rv_saveDir r else fd_SavePath d)
       \<lparr>chunks = [], r_xfer = offered_transfer (offers r ! i), r_progress = []\<rparr> w1 = Some (w', rcv, Some (path, out), res)"
    "map_of (rv_transfers r') (of_TransferID (offers r ! i)) = Some ((r_xfer rcv)\<lparr>xf_failed := isl res\<rparr>)"
proof -
  have acc: "fd_Accept (the_decision r i t)" using assms by (auto simp: finish_offer_def Let_def split: if_splits)
  then have d: "\<not> t" "rv_decisions r i \<noteq> []" "the_decision r i t = hd (rv_decisions r i)"
    by (auto simp: the_decision_def split: list.splits if_splits)
  with assms acc show thesis
    by (auto simp: finish_offer_def Let_def update_conv' split: sum.splits prod.splits option.splits intro!: that)
qed

section \<open>Consent\<close>

text \<open>The receiver over time, with the acceptances of the user.\<close>

inductive rv_reach :: "receiver \<Rightarrow> (string \<times> string) list \<Rightarrow> bool" where
  rv_new: "rv_reach (NewReceiver b dir look name) []"
| rv_offer: "rv_reach r acc \<Longrightarrow> receive_offer HF E un r read = (r', x) \<Longrightarrow> rv_reach r' acc"
| rv_synthetic: "rv_reach r acc \<Longrightarrow> OnFileOffer r a oid f sz = (r', x) \<Longrightarrow> rv_reach r' acc"
| rv_accept: "rv_reach r acc \<Longrightarrow> AcceptFile r tid p = Some (r', x) \<Longrightarrow> rv_reach r' (acc @ [(tid, p)])"
| rv_reject: "rv_reach r acc \<Longrightarrow> RejectFile r tid reason = Some (r', x) \<Longrightarrow> rv_reach r' acc"
| rv_finish: "rv_reach r acc \<Longrightarrow> finish_offer n sha (io :: unit stream_io) dk r i t w = Some (w', r', out) \<Longrightarrow> rv_reach r' acc"

definition rv_inv :: "receiver \<Rightarrow> (string \<times> string) list \<Rightarrow> bool" where
  "rv_inv r acc \<longleftrightarrow>
     (\<forall>(tid, i) \<in> set (rv_pending r). i < length (offers r) \<and> of_TransferID (offers r ! i) = tid) \<and>
     (\<forall>i. \<forall>d \<in> set (rv_decisions r i). i < length (offers r) \<and>
        (fd_Accept d \<longrightarrow> (of_TransferID (offers r ! i), fd_SavePath d) \<in> set acc))"

lemma rv_inv_park: "rv_inv r acc \<Longrightarrow> rv_inv (fst (park_offer r fo)) acc"
  using set_alist_update[of "of_TransferID fo" "length (offers r)" "rv_pending r"]
  by (fastforce simp: rv_inv_def park_offer_def Let_def nth_append split: if_splits)

lemma rv_inv_decide:
  assumes "rv_inv r acc" "decide_file r tid d = Some (r', x)" and "fd_Accept d \<longrightarrow> (tid, fd_SavePath d) \<in> set acc'" "set acc \<subseteq> set acc'"
  shows "rv_inv r' acc'"
proof (cases "map_of (rv_pending r) tid")
  case None
  then show ?thesis using assms by (fastforce simp: decide_file_def rv_inv_def)
next
  case (Some i)
  from map_of_SomeD[OF this] have "i < length (offers r)" "of_TransferID (offers r ! i) = tid" using assms(1) by (auto simp: rv_inv_def)
  with Some assms show ?thesis by (fastforce simp: decide_file_def rv_inv_def split: if_splits)
qed

lemma finish_offer_frame:
  assumes "finish_offer n sha io dk r i t w = Some (w', r', out)"
  shows "offers r' = offers r" "rv_decisions r' = (rv_decisions r)(i := [])"
    "rv_pending r' = AList.delete (of_TransferID (offers r ! i)) (rv_pending r)"
  using assms by (auto simp: finish_offer_def Let_def split: if_splits sum.splits prod.splits option.splits)

lemma rv_inv_finish: "rv_inv r acc \<Longrightarrow> finish_offer n sha io dk r i t w = Some (w', r', out) \<Longrightarrow> rv_inv r' acc"
  by (auto simp: rv_inv_def finish_offer_frame AList.delete_eq)

lemma rv_reach_inv: "rv_reach r acc \<Longrightarrow> rv_inv r acc"
proof (induction rule: rv_reach.induct)
  case (rv_offer r acc HF E un read r' x)
  then have "r' = r \<or> (\<exists>fo. r' = fst (park_offer r fo))"
    by (auto simp: receive_offer_def split: sum.splits if_splits option.splits prod.splits) (metis fst_conv)+
  then show ?case using rv_offer.IH rv_inv_park by blast
next
  case (rv_synthetic r acc a oid f sz r' x)
  then have "r' = r \<or> (\<exists>fo. r' = fst (park_offer r fo))"
    by (auto simp: OnFileOffer_def split: sum.splits)
  then show ?case using rv_synthetic.IH rv_inv_park by blast
next
  case (rv_accept r acc tid p r' x)
  then show ?case by (auto simp: AcceptFile_def intro!: rv_inv_decide[of r acc tid _ r' x "acc @ [(tid, p)]"])
next
  case (rv_reject r acc tid reason r' x)
  then show ?case by (auto simp: RejectFile_def intro!: rv_inv_decide[of r acc tid _ r' x acc])
next
  case (rv_finish r acc n sha io dk i t w w' r' out)
  then show ?case by (auto intro: rv_inv_finish)
qed (simp add: rv_inv_def NewReceiver_def)

section \<open>Properties\<close>

lemma Join_plain: "dir \<noteq> '''' \<Longrightarrow> plain f \<Longrightarrow> Join dir f = path_of (is_rooted dir) (clean_elems dir @ [f])"
  by (simp add: Join_def Clean_def clean_elems_Join_plain is_rooted_append)

lemma Join_dotdot:
  assumes "clean_elems dir = es @ [e]" "dir \<noteq> ''''" "e \<noteq> ''..''" "plain f"
  shows "Join dir (''..'' @ slash # f) = path_of (is_rooted dir) (es @ [f])"
  using clean_elems_Join_dotdot[OF assms(2,1,3,4)] assms(2) by (simp add: Join_def Clean_def is_rooted_append)

text \<open>C34: A file is written only for an accepted transfer id. Over any history of offers, decisions and finished
  transfers, a handler that writes a file does so after the user accepted the id of its offer, at the offered name joined to the
  directory the user gave, or to the default one.\<close>

theorem file_needs_acceptance:
  assumes "rv_reach r acc" and "finish_offer n sha io dk r i t w = Some (w', r', Some (path, out))"
  shows "\<exists>dir. (of_TransferID (offers r ! i), dir) \<in> set acc \<and>
    path = Join (if dir = '''' then rv_saveDir r else dir) (of_Filename (offers r ! i))"
  using assms(2)
proof (cases rule: finish_offer_file)
  case (1 d w1 rcv res)
  then have "d \<in> set (rv_decisions r i)" by simp
  then have "(of_TransferID (offers r ! i), fd_SavePath d) \<in> set acc" using rv_reach_inv[OF assms(1)] 1(4) by (auto simp: rv_inv_def)
  moreover have "path = Join (if fd_SavePath d = '''' then rv_saveDir r else fd_SavePath d) (of_Filename (offers r ! i))"
    using receiveChunks_path[OF 1(5)] by (simp add: offered_transfer_def)
  ultimately show ?thesis by blast
qed

text \<open>The offered name can lead out of the save directory. A plain name stays in it; but the name is joined as the peer
  sent it, so one that begins with a parent step is written beside the directory and not in it.\<close>

theorem offered_name_escapes:
  assumes "finish_offer n sha io dk r i t w = Some (w', r', Some (path, out))" and "rv_decisions r i = [d]"
    and "dir = (if fd_SavePath d = '''' then rv_saveDir r else fd_SavePath d)" "clean_elems dir = es @ [e]" "e \<noteq> ''..''" "dir \<noteq> ''''"
    and "plain f"
  shows "(of_Filename (offers r ! i) = f \<longrightarrow> path = path_of (is_rooted dir) (es @ [e, f])) \<and>
    (of_Filename (offers r ! i) = ''..'' @ slash # f \<longrightarrow> path = path_of (is_rooted dir) (es @ [f]))"
  using assms(1)
proof (cases rule: finish_offer_file)
  case (1 d' w1 rcv res)
  then have "path = Join dir (of_Filename (offers r ! i))"
    using receiveChunks_path[OF 1(5)] assms(2,3) by (simp add: offered_transfer_def)
  then show ?thesis using Join_plain[OF assms(6,7)] Join_dotdot[OF assms(4,6,5,7)] assms(4) by simp
qed

text \<open>Accepting an offer can accept another one. Offers wait under the transfer id their sender chose, so a second offer
  with the id of one that is waiting takes its place: the user's acceptance of that id goes to the second offer, and the
  first never gets it.\<close>

theorem same_id_takes_acceptance:
  assumes "park_offer r fo1 = (r1, i)" "park_offer r1 fo2 = (r2, j)" and "of_TransferID fo2 = of_TransferID fo1"
  shows "\<exists>r3. AcceptFile r2 (of_TransferID fo1) dir = Some (r3, Inr ()) \<and> offers r3 ! i = fo1 \<and> offers r3 ! j = fo2 \<and>
    rv_decisions r3 i = [] \<and> fd_Accept (the_decision r3 j False) \<and> \<not> fd_Accept (the_decision r3 i False)"
proof -
  have ij: "i = length (offers r)" "j = Suc i" "offers r2 = offers r @ [fo1, fo2]" "map_of (rv_pending r2) (of_TransferID fo1) = Some j"
    "rv_decisions r2 j = []" "rv_decisions r2 i = []"
    using assms by (auto simp: park_offer_def Let_def update_conv')
  then show ?thesis by (simp add: AcceptFile_def decide_file_def the_decision_def nth_append)
qed


section \<open>A concrete offer\<close>

definition demo_file_svc :: service where
  "demo_file_svc = \<lparr>Name = ''node'', svc_Address = '''', svc_OnionAddr = '''', svc_Identity = \<lparr>pub = [], priv = []\<rparr>,
     Manifest = \<lparr>Description = '''', acl = ACLContacts, Allowlist = []\<rparr>, Handlers = Some [FileHandler]\<rparr>"

definition demo_offer_env :: envelope where
  "demo_offer_env = WrapMessage demo_ed25519 0 FILE_OFFER [] \<lparr>pub = replicate 32 1, priv = replicate 64 1\<rparr>"

definition demo_offer_msg :: "string \<Rightarrow> bytes \<Rightarrow> file_offer_msg option" where
  "demo_offer_msg nm _ = Some ((offer_of (sent_transfer ''t'' '''' ''f'' demo_chunker demo_ftree))\<lparr>fo_Filename := nm\<rparr>)"

definition demo_rv0 :: receiver where
  "demo_rv0 = NewReceiver NewEventBus ''/home/d'' (Some (\<lambda>_. Some demo_file_svc)) ''node''"

definition demo_parked :: "string \<Rightarrow> receiver \<times> (nat \<times> service) option" where
  "demo_parked nm = receive_offer demo_hashes demo_ed25519 (demo_offer_msg nm) demo_rv0 (Inr demo_offer_env)"

definition demo_accepted :: "string \<Rightarrow> receiver" where
  "demo_accepted nm = fst (the (AcceptFile (fst (demo_parked nm)) ''t'' ''''))"

lemma demo_parked_ok: "snd (demo_parked nm) = Some (0, demo_file_svc)" "offers (demo_accepted nm) ! 0 = offers (fst (demo_parked nm)) ! 0"
  "AcceptFile (fst (demo_parked nm)) ''t'' '''' = Some (demo_accepted nm, Inr ())" "rv_saveDir (demo_accepted nm) = ''/home/d''"
  "of_Filename (offers (demo_accepted nm) ! 0) = nm" "of_TransferID (offers (demo_accepted nm) ! 0) = ''t''"
  "rv_decisions (demo_accepted nm) 0 = [\<lparr>fd_Accept = True, fd_SavePath = '''', fd_Reason = ''''\<rparr>]"
  by (simp_all add: demo_accepted_def demo_parked_def receive_offer_def demo_offer_env_def WrapMessage_def VerifyEnvelope_def FromPublicKey_def
      PublicKeySize_def Verify_def Sign_def demo_ed25519_def ed_public_def PublicKey_def rv_resolveService_def demo_rv0_def NewReceiver_def
      AsFile_def implements_def demo_file_svc_def demo_offer_msg_def park_offer_def offer_of_def sent_transfer_def AcceptFile_def decide_file_def Let_def)

lemma demo_chunks_valid:
  "chunk_valid demo_sha (Root demo_ftree) (honest_chunk demo_sha demo_chunker demo_ftree demo_content ''t'' 0)"
  "chunk_valid demo_sha (Root demo_ftree) (honest_chunk demo_sha demo_chunker demo_ftree demo_content ''t'' 1)"
  by code_simp+

lemma demo_chunk_fields:
  "fc_Index (honest_chunk demo_sha demo_chunker demo_ftree demo_content ''t'' n) = of_nat n"
  "fc_Data (honest_chunk demo_sha demo_chunker demo_ftree demo_content ''t'' 0) = [1, 2]"
  "fc_Data (honest_chunk demo_sha demo_chunker demo_ftree demo_content ''t'' 1) = [9]"
  by (simp_all add: honest_chunk_def nth_piece_def piece_def demo_chunker_def demo_content_def)

lemma demo_receive:
  assumes "xf_RootHash x = Root demo_ftree" "xf_Total x = 2"
  shows "\<exists>r'. receiveChunks 3 demo_sha demo_chunk_io demo_disk d \<lparr>chunks = [], r_xfer = x, r_progress = []\<rparr> 0 =
    Some (3, r', Some (Join d (xf_Filename x), demo_content), Inr ())"
proof -
  define fc where "fc = honest_chunk demo_sha demo_chunker demo_ftree demo_content ''t''"
  have v: "chunk_valid demo_sha (Root demo_ftree) (fc 0)" "chunk_valid demo_sha (Root demo_ftree) (fc (Suc 0))"
    "fc_Index (fc 0) = 0" "fc_Index (fc (Suc 0)) = 1" "fc_Data (fc 0) = [1, 2]" "fc_Data (fc (Suc 0)) = [9]"
    using demo_chunks_valid demo_chunk_fields unfolding fc_def by simp_all
  have rd: "st_read demo_chunk_io 0 = (1, Inr (FileChunkMsg (fc 0)))" "st_read demo_chunk_io (Suc 0) = (2, Inr (FileChunkMsg (fc (Suc 0))))"
    "st_read demo_chunk_io 2 = (3, Inr (FileComplete ''t''))" "\<And>w m. st_write demo_chunk_io w m = (w, Inr ())"
    by (simp_all add: demo_chunk_io_def fc_def)
  have c: "[1, 2, 9] = demo_content" "[0..<2] = [0, Suc 0]" by (simp_all add: demo_content_def upt_rec)
  show ?thesis using assms v rd c
    by (simp add: numeral_3_eq_3 recv_msg_def Let_def store_chunk_def demo_disk_def reassemble_def)
qed

lemma demo_finished:
  "\<exists>r'. finish_offer 3 demo_sha demo_chunk_io demo_disk (demo_accepted nm) 0 False 0 = Some (3, r', Some (Join ''/home/d'' nm, demo_content)) \<and>
     map_option xf_failed (rv_GetTransfer r' ''t'') = Some False"
proof -
  let ?x = "offered_transfer (offers (demo_accepted nm) ! 0)"
  have "xf_RootHash ?x = Root demo_ftree \<and> xf_Total ?x = 2 \<and> xf_Filename ?x = nm"
    by (simp add: offered_transfer_def demo_parked_ok(5) demo_parked_ok(2))
      (simp add: demo_parked_def receive_offer_def demo_offer_env_def WrapMessage_def VerifyEnvelope_def FromPublicKey_def
      PublicKeySize_def Verify_def Sign_def demo_ed25519_def ed_public_def PublicKey_def rv_resolveService_def demo_rv0_def NewReceiver_def
      AsFile_def implements_def demo_file_svc_def demo_offer_msg_def park_offer_def offer_of_def sent_transfer_def Let_def TotalChunks_def demo_chunker_def)
  with demo_receive[of ?x "''/home/d''"] obtain rcv where
    "receiveChunks 3 demo_sha demo_chunk_io demo_disk ''/home/d'' \<lparr>chunks = [], r_xfer = ?x, r_progress = []\<rparr> 0 =
       Some (3, rcv, Some (Join ''/home/d'' nm, demo_content), Inr ())" by auto
  moreover have "st_write demo_chunk_io 0 m = (0, Inr ())" for m by (simp add: demo_chunk_io_def)
  ultimately show ?thesis
    by (simp add: finish_offer_def the_decision_def demo_parked_ok(4-7) rv_GetTransfer_def update_conv' Let_def)
qed

lemma demo_rv_reach: "rv_reach (demo_accepted nm) [(''t'', '''')]"
proof -
  have "rv_reach demo_rv0 []" unfolding demo_rv0_def by (rule rv_new)
  then have "rv_reach (fst (demo_parked nm)) []"
    unfolding demo_parked_def by (rule rv_offer) (rule prod.collapse[symmetric])
  from rv_accept[OF this demo_parked_ok(3)] show ?thesis by simp
qed

theorem file_needs_acceptance_witness:
  "\<exists>w' r' path out dir. finish_offer 3 demo_sha demo_chunk_io demo_disk (demo_accepted ''f'') 0 False 0 = Some (w', r', Some (path, out)) \<and>
     (''t'', dir) \<in> {(''t'', '''')} \<and> path = Join (if dir = '''' then ''/home/d'' else dir) ''f''"
proof -
  obtain r' where f: "finish_offer 3 demo_sha demo_chunk_io demo_disk (demo_accepted ''f'') 0 False 0 =
      Some (3, r', Some (Join ''/home/d'' ''f'', demo_content))" using demo_finished by blast
  from file_needs_acceptance[OF demo_rv_reach this] f show ?thesis by (auto simp: demo_parked_ok)
qed

theorem offered_name_escapes_witness:
  "\<exists>r'. finish_offer 3 demo_sha demo_chunk_io demo_disk (demo_accepted ''../key'') 0 False 0 = Some (3, r', Some (''/home/key'', demo_content))"
proof -
  obtain r' where f: "finish_offer 3 demo_sha demo_chunk_io demo_disk (demo_accepted ''../key'') 0 False 0 =
      Some (3, r', Some (Join ''/home/d'' ''../key'', demo_content))" using demo_finished by blast
  have e: "clean_elems ''/home/d'' = [''home''] @ [''d'']" and p: "plain ''key''" by code_simp+
  have "Join ''/home/d'' ''../key'' = path_of (is_rooted ''/home/d'') ([''home''] @ [''key''])"
    using offered_name_escapes[OF f demo_parked_ok(7) _ _ _ _ p, of "''/home/d''" "[''home'']" "''d''"] e
    by (simp add: demo_parked_ok(4-7) slash_def)
  moreover have "path_of (is_rooted ''/home/d'') ([''home''] @ [''key'']) = ''/home/key''" by code_simp
  ultimately show ?thesis using f by metis
qed

theorem same_id_takes_acceptance_witness:
  "let fo = \<lambda>nm. \<lparr>of_TransferID = ''t'', of_Filename = nm, of_Size = 1, of_RootHash = [], of_ChunkSize = 1, of_ChunkCount = 1, of_FromAddr = ''a''\<rparr>;
       r2 = fst (park_offer (fst (park_offer demo_rv0 (fo ''photo''))) (fo ''../key''))
   in \<exists>r3. AcceptFile r2 ''t'' '''' = Some (r3, Inr ()) \<and> offers r3 ! 1 = fo ''../key'' \<and> fd_Accept (the_decision r3 1 False)"
proof -
  let ?fo = "\<lambda>nm. \<lparr>of_TransferID = ''t'', of_Filename = nm, of_Size = 1, of_RootHash = [], of_ChunkSize = 1, of_ChunkCount = 1, of_FromAddr = ''a''\<rparr>"
  let ?r1 = "fst (park_offer demo_rv0 (?fo ''photo''))"
  have "park_offer demo_rv0 (?fo ''photo'') = (?r1, 0)" "park_offer ?r1 (?fo ''../key'') = (fst (park_offer ?r1 (?fo ''../key'')), 1)"
    by (simp_all add: park_offer_def demo_rv0_def NewReceiver_def Let_def)
  from same_id_takes_acceptance[OF this, of "''''"] show ?thesis unfolding Let_def by (simp only: file_offer.select_convs simp_thms) blast
qed


end
