(* ===== verification/Api_Auth.thy ===== *)
theory Api_Auth
  imports Identity Go_Strconv
begin

text \<open>
  Authentication of gRPC calls (\<open>src/internal/api/auth.go\<close>): the client signs the decimal text of its clock
  with the admin key and sends it in three headers; the two interceptors verify them before the handler runs.
  The incoming metadata maps a header to its values, and is \<open>None\<close> when the context has none.
\<close>

section \<open>Model\<close>

datatype grpc_code = Unauthenticated | PermissionDenied | Unimplemented | InvalidArgument | AlreadyExists
  | Internal | NotFoundCode | FailedPrecondition | StreamBroken

type_synonym 'a rpc = "(grpc_code \<times> string) + 'a"
type_synonym metadata = "string \<Rightarrow> string list"

definition headerPubKey :: string where "headerPubKey = ''x-auth-pubkey''"
definition headerTimestamp :: string where "headerTimestamp = ''x-auth-timestamp''"
definition headerSignature :: string where "headerSignature = ''x-auth-signature''"
definition authFreshness :: duration where "authFreshness = 5 * minute"

text \<open>\<open>time.Unix(ts, 0)\<close>: the seconds since year 1 are kept in an \<open>int64\<close>, which wraps around.\<close>

definition time_of_unix :: "int \<Rightarrow> time" where
  "time_of_unix ts = (wrap64 (ts + 62135596800) - 62135596800) * second"

definition go_bytes :: "string \<Rightarrow> bytes" where
  "go_bytes s = map (\<lambda>c. of_nat (of_char c)) s"

definition mdGet :: "metadata \<Rightarrow> string \<Rightarrow> string" where
  "mdGet md key = (case md key of [] \<Rightarrow> '''' | v # vs \<Rightarrow> v)"

text \<open>The age of the timestamp, with the sign change of an \<open>int64\<close> duration.\<close>

definition auth_age :: "time \<Rightarrow> int \<Rightarrow> duration" where
  "auth_age now ts = (let age = time_sub now (time_of_unix ts) in if age < 0 then wrap64 (- age) else age)"

definition verifyAuth :: "ed25519 \<Rightarrow> time \<Rightarrow> metadata option \<Rightarrow> bytes \<Rightarrow> unit rpc" where
  "verifyAuth E now ctx adminPubKey =
     (case ctx of
        None \<Rightarrow> Inl (Unauthenticated, ''missing metadata'')
      | Some md \<Rightarrow>
          (let pubHex = mdGet md headerPubKey; tsStr = mdGet md headerTimestamp; sigHex = mdGet md headerSignature
           in if pubHex = '''' \<or> tsStr = '''' \<or> sigHex = '''' then Inl (Unauthenticated, ''missing auth headers'')
              else (case hex_decode pubHex of
                      None \<Rightarrow> Inl (Unauthenticated, ''invalid public key'')
                    | Some pubBytes \<Rightarrow>
                        if length pubBytes \<noteq> PublicKeySize then Inl (Unauthenticated, ''invalid public key'')
                        else if pubBytes \<noteq> adminPubKey then Inl (PermissionDenied, ''unauthorized public key'')
                        else (case ParseInt tsStr of
                                None \<Rightarrow> Inl (Unauthenticated, ''invalid timestamp'')
                              | Some ts \<Rightarrow>
                                  if auth_age now ts > authFreshness then Inl (Unauthenticated, ''timestamp too old'')
                                  else (case hex_decode sigHex of
                                          None \<Rightarrow> Inl (Unauthenticated, ''invalid signature encoding'')
                                        | Some sig \<Rightarrow>
                                            if ed_verify E adminPubKey (go_bytes tsStr) sig then Inr ()
                                            else Inl (Unauthenticated, ''invalid signature''))))))"

text \<open>The interceptors; a handler is a function of the server's state.\<close>

definition AdminKeyUnaryInterceptor ::
  "ed25519 \<Rightarrow> bytes \<Rightarrow> time \<Rightarrow> metadata option \<Rightarrow> ('s \<Rightarrow> 's \<times> 'r rpc) \<Rightarrow> 's \<Rightarrow> 's \<times> 'r rpc" where
  "AdminKeyUnaryInterceptor E adminPubKey now ctx handler s =
     (case verifyAuth E now ctx adminPubKey of Inl e \<Rightarrow> (s, Inl e) | Inr _ \<Rightarrow> handler s)"

definition AdminKeyStreamInterceptor ::
  "ed25519 \<Rightarrow> bytes \<Rightarrow> time \<Rightarrow> metadata option \<Rightarrow> ('s \<Rightarrow> 's \<times> unit rpc) \<Rightarrow> 's \<Rightarrow> 's \<times> unit rpc" where
  "AdminKeyStreamInterceptor E adminPubKey now ctx handler s =
     (case verifyAuth E now ctx adminPubKey of Inl e \<Rightarrow> (s, Inl e) | Inr _ \<Rightarrow> handler s)"

text \<open>The client's credentials.\<close>

definition GetRequestMetadata :: "ed25519 \<Rightarrow> time \<Rightarrow> bytes \<Rightarrow> (string \<times> string) list" where
  "GetRequestMetadata E now privKey =
     (let pubKey = ed_public privKey; ts = FormatInt (now div second); sig = ed_sign E privKey (go_bytes ts)
      in [(headerPubKey, hex_encode pubKey), (headerTimestamp, ts), (headerSignature, hex_encode sig)])"

definition received :: "(string \<times> string) list \<Rightarrow> metadata" where
  "received hs = (\<lambda>k. map snd (filter (\<lambda>h. fst h = k) hs))"

section \<open>Ages\<close>

text \<open>What the freshness check lets through: a window of five minutes each way, and the times so far ahead that
  the difference does not fit a duration.\<close>

definition fresh :: "time \<Rightarrow> int \<Rightarrow> bool" where
  "fresh now ts \<longleftrightarrow> \<bar>now - time_of_unix ts\<bar> \<le> authFreshness \<or> time_of_unix ts - now \<ge> 2 ^ 63"

lemma auth_age_fresh: "auth_age now ts \<le> authFreshness \<longleftrightarrow> fresh now ts"
proof (cases "time_of_unix ts - now \<ge> 2 ^ 63")
  case True
  then show ?thesis
    by (simp add: auth_age_def time_sub_def fresh_def wrap64_def authFreshness_def go_time)
next
  case False
  let ?d = "now - time_of_unix ts"
  have "?d > - (2 ^ 63)" using False by simp
  then have "auth_age now ts = (if ?d < 0 then - ?d else min (2 ^ 63 - 1) ?d)"
    by (auto simp: auth_age_def time_sub_def Let_def wrap64_id)
  with False show ?thesis by (auto simp: fresh_def authFreshness_def go_time)
qed

lemma time_of_unix_small: "- (2 ^ 62) \<le> ts \<Longrightarrow> ts < 2 ^ 62 \<Longrightarrow> time_of_unix ts = ts * second"
  by (simp add: time_of_unix_def wrap64_id)

lemma fresh_near:
  assumes "0 \<le> t" "t < 2 ^ 62" and "\<bar>now - t\<bar> \<le> authFreshness - second"
  shows "fresh now (t div second)"
proof -
  have "t div second < 2 ^ 62" "0 \<le> t div second" using assms(1,2) by (simp_all add: second_def)
  then have "now - time_of_unix (t div second) = (now - t) + t mod second"
    using time_of_unix_small[of "t div second"] by (simp add: minus_div_mult_eq_mod[symmetric])
  moreover have "0 \<le> t mod second" "t mod second < second" by (simp_all add: second_def)
  ultimately show ?thesis using assms(3) unfolding fresh_def by linarith
qed

definition signatures_nonempty :: "ed25519 \<Rightarrow> bool" where
  "signatures_nonempty E \<longleftrightarrow> (\<forall>k m. length k = PrivateKeySize \<longrightarrow> ed_sign E k m \<noteq> [])"

lemma received_headers:
  "mdGet (received (GetRequestMetadata E now k)) headerPubKey = hex_encode (ed_public k)"
  "mdGet (received (GetRequestMetadata E now k)) headerTimestamp = FormatInt (now div second)"
  "mdGet (received (GetRequestMetadata E now k)) headerSignature = hex_encode (ed_sign E k (go_bytes (FormatInt (now div second))))"
  by (simp_all add: mdGet_def received_def GetRequestMetadata_def Let_def headerPubKey_def headerTimestamp_def headerSignature_def)

lemma FormatInt_ne [simp]: "FormatInt i \<noteq> []"
  by (simp add: FormatInt_def)

text \<open>A token of the admin key is judged by its timestamp alone.\<close>

lemma signed_token:
  assumes "ed25519_keys E" "ed25519_correct E" "signatures_nonempty E" "length seed = 32"
    and "0 \<le> t" "t < 2 ^ 62 * second" "fresh now (t div second)"
  shows "verifyAuth E now (Some (received (GetRequestMetadata E t (ed_new_key E seed)))) (ed_public (ed_new_key E seed)) = Inr ()"
proof -
  let ?k = "ed_new_key E seed" and ?ts = "t div second"
  have k: "length ?k = 64" and pl: "length (ed_public ?k) = 32"
    using assms(1,4) by (auto simp: ed25519_keys_def ed_public_def)
  have range: "0 \<le> ?ts" "?ts < 2 ^ 62" using assms(5,6) by (auto simp: second_def)
  have parse: "ParseInt (FormatInt ?ts) = Some ?ts" using range by (intro ParseInt_FormatInt) auto
  have ne: "hex_encode (ed_public ?k) \<noteq> []" using pl by auto
  have "\<not> auth_age now ?ts > authFreshness" using assms(7) auth_age_fresh by (simp add: not_less)
  moreover have "ed_sign E ?k m \<noteq> []" for m using assms(3) k by (simp add: signatures_nonempty_def PrivateKeySize_def)
  moreover have "ed_verify E (ed_public ?k) m (ed_sign E ?k m)" for m using assms(2,4) by (simp add: ed25519_correct_def)
  ultimately show ?thesis using parse ne pl by (simp add: verifyAuth_def received_headers PublicKeySize_def)
qed

section \<open>Properties\<close>

text \<open>C32: An authenticated call runs its handler only with the admin's signature. When a call through the
  interceptor changes the server or succeeds, the headers carry the admin key and a decimal timestamp that
  the admin key signed, and the timestamp is within five minutes of the server's clock, or more than the
  range of a duration ahead of it.\<close>

theorem handler_needs_admin:
  assumes "AdminKeyUnaryInterceptor E adminPubKey now ctx handler s = (s', r)" and "s' \<noteq> s \<or> (\<exists>x. r = Inr x)"
  shows "\<exists>md ts sig. ctx = Some md \<and> hex_decode (mdGet md headerPubKey) = Some adminPubKey \<and>
    ParseInt (mdGet md headerTimestamp) = Some ts \<and> fresh now ts \<and> hex_decode (mdGet md headerSignature) = Some sig \<and>
    ed_verify E adminPubKey (go_bytes (mdGet md headerTimestamp)) sig \<and> handler s = (s', r)"
proof -
  have ok: "verifyAuth E now ctx adminPubKey = Inr ()" and h: "handler s = (s', r)"
    using assms by (auto simp: AdminKeyUnaryInterceptor_def split: sum.splits)
  from ok obtain md where md: "ctx = Some md" by (cases ctx) (auto simp: verifyAuth_def)
  from ok md h show ?thesis
    by (auto simp: verifyAuth_def Let_def auth_age_fresh[symmetric] not_less split: if_splits option.splits)
qed

text \<open>The client's credentials are accepted. What \<open>SignedCredentials\<close> sends, with clocks that differ by
  less than five minutes less a second, passes the interceptor of a server whose admin key it is.\<close>

theorem credentials_accepted:
  assumes "ed25519_keys E" "ed25519_correct E" "signatures_nonempty E" and "length seed = 32"
    and "0 \<le> t" "t < 2 ^ 62" and "\<bar>now - t\<bar> \<le> authFreshness - second"
  shows "verifyAuth E now (Some (received (GetRequestMetadata E t (ed_new_key E seed)))) (ed_public (ed_new_key E seed)) = Inr ()"
  using assms(5,6) by (intro signed_token[OF assms(1-4) _ _ fresh_near[OF assms(5-7)]]) (simp_all add: second_def)

text \<open>A token dated past the range of a duration never grows stale. The age of such a timestamp saturates at
  the least \<open>int64\<close>, whose negation is itself, so a signature over the timestamp 17179869184 (the year 2514) is
  accepted at every time from 1970 until past the year 2200, and not only in the five minutes around its date.\<close>

theorem far_future_token_accepted:
  assumes "ed25519_keys E" "ed25519_correct E" "signatures_nonempty E" and "length seed = 32"
    and "0 \<le> now" "now \<le> 7900000000 * second"
  shows "verifyAuth E now (Some (received (GetRequestMetadata E (17179869184 * second) (ed_new_key E seed))))
    (ed_public (ed_new_key E seed)) = Inr ()"
proof -
  have "time_of_unix 17179869184 - now \<ge> 2 ^ 63" using assms(6) by (simp add: time_of_unix_small second_def)
  then have "fresh now (17179869184 * second div second)" by (simp add: fresh_def second_def)
  then show ?thesis by (intro signed_token[OF assms(1-4)]) (simp_all add: second_def)
qed

section \<open>Concrete calls\<close>

lemma demo_signatures: "signatures_nonempty demo_ed25519"
  by (auto simp: signatures_nonempty_def demo_ed25519_def PrivateKeySize_def ed_public_def)

lemmas demo_auth = demo_ed25519_keys demo_ed25519_correct demo_signatures

theorem credentials_accepted_witness:
  "verifyAuth demo_ed25519 (1000 * second) (Some (received (GetRequestMetadata demo_ed25519 (1200 * second)
      (ed_new_key demo_ed25519 (replicate 32 7))))) (ed_public (ed_new_key demo_ed25519 (replicate 32 7))) = Inr ()"
  by (rule credentials_accepted[OF demo_auth]) (simp_all add: authFreshness_def go_time)

theorem far_future_token_accepted_witness:
  "verifyAuth demo_ed25519 (1000 * second) (Some (received (GetRequestMetadata demo_ed25519 (17179869184 * second)
      (ed_new_key demo_ed25519 (replicate 32 7))))) (ed_public (ed_new_key demo_ed25519 (replicate 32 7))) = Inr ()"
  by (rule far_future_token_accepted[OF demo_auth]) (simp_all add: go_time)

theorem handler_needs_admin_witness:
  "\<exists>ts sig. fresh (1000 * second) ts \<and>
     ed_verify demo_ed25519 (ed_public (ed_new_key demo_ed25519 (replicate 32 7))) (go_bytes (FormatInt ts)) sig"
proof -
  let ?md = "received (GetRequestMetadata demo_ed25519 (1200 * second) (ed_new_key demo_ed25519 (replicate 32 7)))"
  let ?pk = "ed_public (ed_new_key demo_ed25519 (replicate 32 7))"
  have "verifyAuth demo_ed25519 (1000 * second) (Some ?md) ?pk = Inr ()"
    by (rule signed_token[OF demo_auth]) (simp_all add: authFreshness_def fresh_def time_of_unix_small go_time)
  then have "AdminKeyUnaryInterceptor demo_ed25519 ?pk (1000 * second) (Some ?md) (\<lambda>n. (Suc n, Inr ())) 0 = (1, Inr ())"
    by (simp add: AdminKeyUnaryInterceptor_def)
  from handler_needs_admin[OF this] obtain ts sig where r: "ParseInt (mdGet ?md headerTimestamp) = Some ts"
    "fresh (1000 * second) ts" "ed_verify demo_ed25519 ?pk (go_bytes (mdGet ?md headerTimestamp)) sig" by auto
  have h: "mdGet ?md headerTimestamp = FormatInt 1200" by (simp add: received_headers second_def)
  with r(1) ParseInt_FormatInt[of 1200] have "ts = 1200" by simp
  with r h show ?thesis by metis
qed

end
