(* ===== verification/Register_Service.thy ===== *)
theory Register_Service
  imports Registry_Props Api_Auth "HOL-Library.Sublist"
begin

text \<open>
  The RegisterService stream (\<open>src/internal/api/registerservice.go\<close>): an external process registers a service
  over a bidirectional gRPC stream, receives its inbound events through a bounded queue and answers connection
  requests. The action loop, the event forwarder and any number of handler calls run concurrently; they are one
  step relation on the state of the stream, one step per channel or lock operation. Handler call \<open>i\<close> makes at
  most one decision channel, and that channel is named \<open>i\<close>; a channel is its buffer.
\<close>

section \<open>Messages\<close>

record proto_manifest =
  pm_Name :: string
  pm_Description :: string
  pm_Acl :: int
  pm_Allowlist :: "string list"

text \<open>A payload is \<open>None\<close> where the wrapped message is nil.\<close>

datatype client_msg =
    CManifest "proto_manifest option"
  | CSendMessage "(string \<times> string) option"
  | CAccept "string option"
  | CReject "(string \<times> string) option"
  | CUnknown

datatype server_msg =
    SRegistered string string
  | SError string
  | SChatEvent string string i64
  | SRequestEvent string string

definition is_event :: "server_msg \<Rightarrow> bool" where
  "is_event m = (case m of SChatEvent a t ts \<Rightarrow> True | SRequestEvent i a \<Rightarrow> True | _ \<Rightarrow> False)"

definition eventQueueSize :: nat where "eventQueueSize = 256"

section \<open>Validation\<close>

definition validateManifest :: "hashes \<Rightarrow> proto_manifest \<Rightarrow> unit res" where
  "validateManifest HF m =
     (if pm_Name m = '''' then Inl ''manifest.name is empty''
      else if pm_Acl m < 0 \<or> pm_Acl m > 2 then Inl ''manifest.acl invalid''
      else if pm_Acl m = 2 \<and> list_ex (\<lambda>a. \<not> Validate HF a) (pm_Allowlist m)
           then Inl ''manifest.allowlist is not a valid ensemble address''
      else Inr ())"

definition aclFromProto :: "int \<Rightarrow> ACL" where
  "aclFromProto a = (if a = 0 then ACLPublic else if a = 1 then ACLContacts else if a = 2 then ACLAllowlist else ACLPublic)"

section \<open>The stream\<close>

record connection_decision =
  cd_Accepted :: bool
  cd_Reason :: string

text \<open>\<open>rs_alive\<close> tells whether a send on the gRPC stream succeeds; \<open>rs_sent\<close> is what was sent.\<close>

record reg_stream =
  events :: "server_msg list"
  events_closed :: bool
  pending :: "(string \<times> nat) list"
  chans :: "nat \<Rightarrow> connection_decision list"
  idN :: u64
  dropCount :: int
  rs_alive :: bool
  rs_sent :: "server_msg list"

definition new_stream :: reg_stream where
  "new_stream = \<lparr>events = [], events_closed = False, pending = [], chans = (\<lambda>_. []), idN = 0, dropCount = 0,
     rs_alive = True, rs_sent = []\<rparr>"

definition rs_put :: "reg_stream \<Rightarrow> string \<Rightarrow> nat \<Rightarrow> reg_stream" where
  "rs_put s i ch = s\<lparr>pending := AList.update i ch (pending s)\<rparr>"

definition rs_take :: "reg_stream \<Rightarrow> string \<Rightarrow> reg_stream \<times> nat option" where
  "rs_take s i = (case map_of (pending s) i of
     None \<Rightarrow> (s, None) | Some ch \<Rightarrow> (s\<lparr>pending := AList.delete i (pending s)\<rparr>, Some ch))"

text \<open>A send into a decision channel that gives up when the channel is full.\<close>

definition offer_decision :: "reg_stream \<Rightarrow> nat \<Rightarrow> connection_decision \<Rightarrow> reg_stream \<times> bool" where
  "offer_decision s ch d = (if chans s ch = [] then (s\<lparr>chans := (chans s)(ch := [d])\<rparr>, True) else (s, False))"

definition dropAll :: "reg_stream \<Rightarrow> string \<Rightarrow> reg_stream" where
  "dropAll s reason =
     (foldl (\<lambda>s (i, ch). fst (offer_decision s ch \<lparr>cd_Accepted = False, cd_Reason = reason\<rparr>)) s (pending s))\<lparr>pending := []\<rparr>"

definition rs_send :: "reg_stream \<Rightarrow> server_msg \<Rightarrow> reg_stream \<times> bool" where
  "rs_send s m = (if rs_alive s then (s\<lparr>rs_sent := rs_sent s @ [m]\<rparr>, True) else (s, False))"

definition rs_sendError :: "reg_stream \<Rightarrow> string \<Rightarrow> reg_stream" where
  "rs_sendError s t = fst (rs_send s (SError t))"

section \<open>Actions of the client\<close>

definition handleSend ::
  "(string \<Rightarrow> string \<Rightarrow> string \<Rightarrow> string res) option \<Rightarrow> string \<Rightarrow> reg_stream \<Rightarrow> (string \<times> string) option \<Rightarrow> reg_stream" where
  "handleSend dispatcher serviceName s m =
     (case m of
        None \<Rightarrow> rs_sendError s ''send_message payload missing''
      | Some (toAddr, msg) \<Rightarrow>
          if toAddr = '''' \<or> msg = '''' then rs_sendError s ''send_message requires to_addr and text''
          else (case dispatcher of
                  None \<Rightarrow> rs_sendError s ''chat dispatcher not configured on this daemon''
                | Some send \<Rightarrow>
                    (case send serviceName toAddr msg of
                       Inl e \<Rightarrow> rs_sendError s (''send_message: '' @ e)
                     | Inr _ \<Rightarrow> s)))"

definition decide_request :: "reg_stream \<Rightarrow> string \<Rightarrow> connection_decision \<Rightarrow> reg_stream" where
  "decide_request s i d =
     (case rs_take s i of
        (s', None) \<Rightarrow> rs_sendError s' (''no pending connection request '' @ i)
      | (s', Some ch) \<Rightarrow>
          (case offer_decision s' ch d of
             (s2, True) \<Rightarrow> s2
           | (s2, False) \<Rightarrow> rs_sendError s2 (''connection request '' @ i @ '' already decided'')))"

definition handleAccept :: "reg_stream \<Rightarrow> string option \<Rightarrow> reg_stream" where
  "handleAccept s m =
     (if m = None \<or> m = Some '''' then rs_sendError s ''accept requires request_id''
      else decide_request s (the m) \<lparr>cd_Accepted = True, cd_Reason = ''''\<rparr>)"

definition handleReject :: "reg_stream \<Rightarrow> (string \<times> string) option \<Rightarrow> reg_stream" where
  "handleReject s m =
     (case m of
        None \<Rightarrow> rs_sendError s ''reject requires request_id''
      | Some (i, reason) \<Rightarrow>
          if i = '''' then rs_sendError s ''reject requires request_id''
          else decide_request s i \<lparr>cd_Accepted = False, cd_Reason = reason\<rparr>)"

text \<open>One turn of \<open>runActions\<close>: what \<open>Recv\<close> returned is handled, or ends the loop.\<close>

datatype recv = RMsg client_msg | REOF | RError string

definition run_action ::
  "(string \<Rightarrow> string \<Rightarrow> string \<Rightarrow> string res) option \<Rightarrow> string \<Rightarrow> bool \<Rightarrow> reg_stream \<Rightarrow> recv \<Rightarrow> reg_stream \<times> unit res option" where
  "run_action dispatcher serviceName ctx_dead s r =
     (case r of
        REOF \<Rightarrow> (s, Some (Inr ()))
      | RError e \<Rightarrow> (s, Some (if ctx_dead then Inr () else Inl e))
      | RMsg (CManifest m) \<Rightarrow> (rs_sendError s ''manifest may only be sent once, at the start of the stream'', None)
      | RMsg (CSendMessage m) \<Rightarrow> (handleSend dispatcher serviceName s m, None)
      | RMsg (CAccept m) \<Rightarrow> (handleAccept s m, None)
      | RMsg (CReject m) \<Rightarrow> (handleReject s m, None)
      | RMsg CUnknown \<Rightarrow> (rs_sendError s ''unknown ServiceClientMessage variant'', None))"

section \<open>Handler calls\<close>

text \<open>\<open>emit\<close> tries to send; when the queue is full it drops the oldest event and tries again. A send on the
  closed queue panics. A receive from it, once closed and empty, succeeds at once.\<close>

datatype emit_result = Emitted reg_stream | QueueFull | EmitPanic

definition emit_try :: "reg_stream \<Rightarrow> server_msg \<Rightarrow> emit_result" where
  "emit_try s ev = (if events_closed s then EmitPanic
     else if length (events s) < eventQueueSize then Emitted (s\<lparr>events := events s @ [ev]\<rparr>) else QueueFull)"

definition emit_drop :: "reg_stream \<Rightarrow> reg_stream" where
  "emit_drop s = (case events s of
     [] \<Rightarrow> if events_closed s then s\<lparr>dropCount := dropCount s + 1\<rparr> else s
   | _ # es \<Rightarrow> s\<lparr>events := es, dropCount := dropCount s + 1\<rparr>)"

definition newRequestID :: "reg_stream \<Rightarrow> string \<Rightarrow> reg_stream \<times> string" where
  "newRequestID s fromAddr = (let n = idN s + 1 in (s\<lparr>idN := n\<rparr>, fromAddr @ ''-'' @ format_nat (unat n)))"

text \<open>Where a handler call is. \<open>OnChatMessage\<close> only emits; \<open>OnConnectionRequest\<close> takes an id, parks its
  channel, emits the event and waits. In \<open>HEmit\<close> the flag tells that the queue was full at the last try.\<close>

datatype hcall =
    HNone
  | HPut string string
  | HEmit server_msg "string option" bool
  | HWait string
  | HChatDone
  | HDone string bool

text \<open>\<open>OnChatMessage\<close> emits its event and returns; \<open>OnConnectionRequest\<close>, once its channel is parked, emits the
  request under its id and waits for the decision.\<close>

definition chat_call :: "string \<Rightarrow> string \<Rightarrow> i64 \<Rightarrow> hcall" where
  [simp]: "chat_call fromAddr msg ts = HEmit (SChatEvent fromAddr msg ts) None False"

definition request_call :: "string \<Rightarrow> string \<Rightarrow> hcall" where
  [simp]: "request_call rid fromAddr = HEmit (SRequestEvent rid fromAddr) (Some rid) False"

definition emitted_call :: "string option \<Rightarrow> hcall" where
  [simp]: "emitted_call k = (case k of None \<Rightarrow> HChatDone | Some rid \<Rightarrow> HWait rid)"

text \<open>The forwarder takes the oldest event and writes it to the stream.\<close>

definition forward_event :: "reg_stream \<Rightarrow> (reg_stream \<times> bool) option" where
  "forward_event s = (case events s of [] \<Rightarrow> None | ev # es \<Rightarrow> Some (rs_send (s\<lparr>events := es\<rparr>) ev))"

section \<open>The whole stream\<close>

text \<open>The goroutine of the call: the action loop, then closing the queue, joining the forwarder and the deferred
  clean-up.\<close>

datatype main_pc = MActions | MClose | MJoin | MUnregister | MDropAll | MReturned

text \<open>\<open>sy_actions\<close> and \<open>sy_emitted\<close> record the client's messages and the events that entered the queue.\<close>

record ('d, 'k) reg_sys =
  strm :: reg_stream
  hcalls :: "nat \<Rightarrow> hcall"
  main :: main_pc
  forwarding :: bool
  ctx_dead :: bool
  sy_registry :: "('d, 'k) registry"
  crashed :: bool
  sy_actions :: "client_msg list"
  sy_emitted :: "server_msg list"

definition session :: "('d, 'k) registry \<Rightarrow> reg_stream \<Rightarrow> ('d, 'k) reg_sys" where
  "session r s = \<lparr>strm = s, hcalls = (\<lambda>_. HNone), main = MActions, forwarding = True, ctx_dead = False,
     sy_registry = r, crashed = False, sy_actions = [], sy_emitted = []\<rparr>"

definition hset :: "('d, 'k) reg_sys \<Rightarrow> nat \<Rightarrow> hcall \<Rightarrow> ('d, 'k) reg_sys" where
  "hset y i h = y\<lparr>hcalls := (hcalls y)(i := h)\<rparr>"

text \<open>The part of \<open>RegisterService\<close> up to the loops: what was written to the stream, and the registered service
  or the status returned.\<close>

definition written :: "bool \<Rightarrow> server_msg \<Rightarrow> server_msg list" where
  "written ok m = (if ok then [m] else [])"

definition proto_to_manifest :: "proto_manifest \<Rightarrow> manifest" where
  "proto_to_manifest m = \<lparr>Description = pm_Description m, acl = aclFromProto (pm_Acl m), Allowlist = pm_Allowlist m\<rparr>"

definition RegisterService_open ::
  "('d, 'k) reg_env \<Rightarrow> ('d, 'k) registry option \<Rightarrow> recv \<Rightarrow> bool \<Rightarrow>
     ('d, 'k) registry option \<times> server_msg list \<times> (string \<times> ('d, 'k) reg_sys) rpc" where
  "RegisterService_open env reg first ok =
     (case reg of
        None \<Rightarrow> (None, [], Inl (Unimplemented, ''service registry not configured on this daemon''))
      | Some r \<Rightarrow>
        (case first of
           REOF \<Rightarrow> (Some r, [], Inl (StreamBroken, ''EOF''))
         | RError e \<Rightarrow> (Some r, [], Inl (StreamBroken, e))
         | RMsg (CManifest (Some m)) \<Rightarrow>
             (case validateManifest (H env) m of
                Inl e \<Rightarrow> (Some r, written ok (SError e), Inl (InvalidArgument, e))
              | Inr _ \<Rightarrow>
                  (case Register env r (pm_Name m) (proto_to_manifest m) (Some [ChatHandler, ConnectionHandler]) of
                     (r', Inl e) \<Rightarrow> (Some r', written ok (SError (''registering service: '' @ e)),
                        Inl (if e = ErrAlreadyRegistered then AlreadyExists else Internal, e))
                   | (r', Inr svc) \<Rightarrow>
                       (case rs_send (new_stream\<lparr>rs_alive := ok\<rparr>) (SRegistered (svc_Address svc) (svc_OnionAddr svc)) of
                          (s, False) \<Rightarrow> (Some (fst (Unregister env r' (pm_Name m))), [], Inl (StreamBroken, ''send''))
                        | (s, True) \<Rightarrow> (Some r', rs_sent s, Inr (pm_Name m, session r' s)))))
         | RMsg m \<Rightarrow> (Some r, written ok (SError ''first message must be a ServiceManifest''),
                      Inl (InvalidArgument, ''first message must be a ServiceManifest''))))"

text \<open>The steps. A call of a handler starts while the registry has the service; the request context of a waiting
  call may end at any time; \<open>other\<close> stands for the rest of the daemon changing the registry.\<close>

inductive rs_step ::
  "('d, 'k) reg_env \<Rightarrow> (string \<Rightarrow> string \<Rightarrow> string \<Rightarrow> string res) option \<Rightarrow> string \<Rightarrow>
     ('d, 'k) reg_sys \<Rightarrow> ('d, 'k) reg_sys \<Rightarrow> bool" for env disp name where
  start_chat: "Get (sy_registry y) name = Some svc \<Longrightarrow> AsChat svc \<Longrightarrow> hcalls y i = HNone \<Longrightarrow>
     rs_step env disp name y (hset y i (chat_call a t ts))"
| start_request: "Get (sy_registry y) name = Some svc \<Longrightarrow> AsConnection svc \<Longrightarrow> hcalls y i = HNone \<Longrightarrow>
     newRequestID (strm y) a = (s, rid) \<Longrightarrow> rs_step env disp name y (hset (y\<lparr>strm := s\<rparr>) i (HPut rid a))"
| park: "hcalls y i = HPut rid a \<Longrightarrow>
     rs_step env disp name y (hset (y\<lparr>strm := rs_put (strm y) rid i\<rparr>) i (request_call rid a))"
| emit_ok: "hcalls y i = HEmit ev k False \<Longrightarrow> emit_try (strm y) ev = Emitted s \<Longrightarrow>
     rs_step env disp name y (hset (y\<lparr>strm := s, sy_emitted := sy_emitted y @ [ev]\<rparr>) i (emitted_call k))"
| emit_full: "hcalls y i = HEmit ev k False \<Longrightarrow> emit_try (strm y) ev = QueueFull \<Longrightarrow>
     rs_step env disp name y (hset y i (HEmit ev k True))"
| emit_panic: "hcalls y i = HEmit ev k False \<Longrightarrow> emit_try (strm y) ev = EmitPanic \<Longrightarrow>
     rs_step env disp name y (y\<lparr>crashed := True\<rparr>)"
| emit_make_room: "hcalls y i = HEmit ev k True \<Longrightarrow>
     rs_step env disp name y (hset (y\<lparr>strm := emit_drop (strm y)\<rparr>) i (HEmit ev k False))"
| decided: "hcalls y i = HWait rid \<Longrightarrow> chans (strm y) i = d # ds \<Longrightarrow>
     rs_step env disp name y (hset (y\<lparr>strm := (strm y)\<lparr>chans := (chans (strm y))(i := ds)\<rparr>\<rparr>) i (HDone rid (cd_Accepted d)))"
| gave_up: "hcalls y i = HWait rid \<Longrightarrow>
     rs_step env disp name y (hset (y\<lparr>strm := fst (rs_take (strm y) rid)\<rparr>) i (HDone rid False))"
| act: "main y = MActions \<Longrightarrow> run_action disp name (ctx_dead y) (strm y) (RMsg m) = (s, None) \<Longrightarrow>
     rs_step env disp name y (y\<lparr>strm := s, sy_actions := sy_actions y @ [m]\<rparr>)"
| act_end: "main y = MActions \<Longrightarrow> run_action disp name (ctx_dead y) (strm y) r = (s, Some res) \<Longrightarrow>
     rs_step env disp name y (y\<lparr>strm := s, main := MClose\<rparr>)"
| close: "main y = MClose \<Longrightarrow> rs_step env disp name y (y\<lparr>strm := (strm y)\<lparr>events_closed := True\<rparr>, main := MJoin\<rparr>)"
| forward: "forwarding y \<Longrightarrow> forward_event (strm y) = Some (s, ok) \<Longrightarrow>
     rs_step env disp name y (y\<lparr>strm := s, forwarding := ok\<rparr>)"
| forward_end: "forwarding y \<Longrightarrow> ctx_dead y \<or> events_closed (strm y) \<and> events (strm y) = [] \<Longrightarrow>
     rs_step env disp name y (y\<lparr>forwarding := False\<rparr>)"
| join: "main y = MJoin \<Longrightarrow> \<not> forwarding y \<Longrightarrow> rs_step env disp name y (y\<lparr>main := MUnregister\<rparr>)"
| unregister: "main y = MUnregister \<Longrightarrow>
     rs_step env disp name y (y\<lparr>sy_registry := fst (Unregister env (sy_registry y) name), main := MDropAll\<rparr>)"
| drop_all: "main y = MDropAll \<Longrightarrow>
     rs_step env disp name y (y\<lparr>strm := dropAll (strm y) ''service stream closed'', main := MReturned\<rparr>)"
| broken: "rs_step env disp name y (y\<lparr>strm := (strm y)\<lparr>rs_alive := False\<rparr>\<rparr>)"
| cancel: "rs_step env disp name y (y\<lparr>ctx_dead := True\<rparr>)"
| other: "Get r name = Get (sy_registry y) name \<Longrightarrow> rs_step env disp name y (y\<lparr>sy_registry := r\<rparr>)"

text \<open>A panic ends the process.\<close>

inductive rs_reach ::
  "('d, 'k) reg_env \<Rightarrow> (string \<Rightarrow> string \<Rightarrow> string \<Rightarrow> string res) option \<Rightarrow> string \<Rightarrow>
     ('d, 'k) reg_sys \<Rightarrow> ('d, 'k) reg_sys \<Rightarrow> bool" for env disp name y0 where
  reach_start: "rs_reach env disp name y0 y0"
| reach_step: "rs_reach env disp name y0 y \<Longrightarrow> \<not> crashed y \<Longrightarrow> rs_step env disp name y y' \<Longrightarrow> rs_reach env disp name y0 y'"

section \<open>Invariant\<close>

text \<open>The request a call is about, and the request it has parked and still waits for.\<close>

definition req_of :: "hcall \<Rightarrow> string option" where
  "req_of h = (case h of HEmit ev k b \<Rightarrow> k | HWait rid \<Rightarrow> Some rid | HDone rid b \<Rightarrow> Some rid | _ \<Rightarrow> None)"

definition awaits :: "hcall \<Rightarrow> string option" where
  "awaits h = (case h of HEmit ev k b \<Rightarrow> k | HWait rid \<Rightarrow> Some rid | _ \<Rightarrow> None)"

lemma hcall_simps [simp]:
  "req_of HNone = None" "req_of (HPut r a) = None" "req_of (HEmit ev k b) = k" "req_of (HWait r) = Some r"
  "req_of HChatDone = None" "req_of (HDone r x) = Some r"
  "awaits HNone = None" "awaits (HPut r a) = None" "awaits (HEmit ev k b) = k" "awaits (HWait r) = Some r"
  "awaits HChatDone = None" "awaits (HDone r x) = None"
  by (simp_all add: req_of_def awaits_def)

text \<open>Pending requests have one channel each, still empty, of a call that waits for it; a decision in a channel
  belongs to the request of its call, and accepts it only if the client said so.\<close>

definition pending_inv :: "(nat \<Rightarrow> hcall) \<Rightarrow> reg_stream \<Rightarrow> bool" where
  "pending_inv hc s \<longleftrightarrow> distinct (map snd (pending s)) \<and>
     (\<forall>(rid, i) \<in> set (pending s). chans s i = [] \<and> awaits (hc i) = Some rid)"

definition chans_inv :: "(nat \<Rightarrow> hcall) \<Rightarrow> client_msg list \<Rightarrow> reg_stream \<Rightarrow> bool" where
  "chans_inv hc acts s \<longleftrightarrow> (\<forall>i. \<forall>d \<in> set (chans s i). \<exists>rid. req_of (hc i) = Some rid \<and>
     (cd_Accepted d \<longrightarrow> CAccept (Some rid) \<in> set acts))"

definition consent_inv :: "(nat \<Rightarrow> hcall) \<Rightarrow> client_msg list \<Rightarrow> bool" where
  "consent_inv hc acts \<longleftrightarrow> (\<forall>i rid. hc i = HDone rid True \<longrightarrow> CAccept (Some rid) \<in> set acts)"

definition queue_inv :: "server_msg list \<Rightarrow> reg_stream \<Rightarrow> bool" where
  "queue_inv emitted s \<longleftrightarrow> length (events s) \<le> eventQueueSize \<and> subseq (filter is_event (rs_sent s) @ events s) emitted"

definition emitting_inv :: "(nat \<Rightarrow> hcall) \<Rightarrow> server_msg list \<Rightarrow> bool" where
  "emitting_inv hc emitted \<longleftrightarrow> (\<forall>i ev k b. hc i = HEmit ev k b \<longrightarrow> is_event ev) \<and> list_all is_event emitted"

definition rs_inv :: "('d, 'k) reg_sys \<Rightarrow> bool" where
  "rs_inv y \<longleftrightarrow> pending_inv (hcalls y) (strm y) \<and> chans_inv (hcalls y) (sy_actions y) (strm y) \<and>
     consent_inv (hcalls y) (sy_actions y) \<and> queue_inv (sy_emitted y) (strm y) \<and> emitting_inv (hcalls y) (sy_emitted y)"

lemmas rs_invs = pending_inv_def chans_inv_def consent_inv_def queue_inv_def emitting_inv_def

subsection \<open>Operations\<close>

lemma rs_send_frame [simp]:
  "pending (fst (rs_send s m)) = pending s" "chans (fst (rs_send s m)) = chans s" "events (fst (rs_send s m)) = events s"
  "events_closed (fst (rs_send s m)) = events_closed s"
  "rs_sent (fst (rs_send s m)) = (if rs_alive s then rs_sent s @ [m] else rs_sent s)"
  by (simp_all add: rs_send_def)

lemma rs_sendError_frame [simp]:
  "pending (rs_sendError s t) = pending s" "chans (rs_sendError s t) = chans s" "events (rs_sendError s t) = events s"
  "events_closed (rs_sendError s t) = events_closed s" "filter is_event (rs_sent (rs_sendError s t)) = filter is_event (rs_sent s)"
  by (simp_all add: rs_sendError_def is_event_def)

lemma sendError_invs [simp]:
  "pending_inv hc (rs_sendError s t) = pending_inv hc s" "chans_inv hc acts (rs_sendError s t) = chans_inv hc acts s"
  "queue_inv em (rs_sendError s t) = queue_inv em s"
  by (simp_all add: rs_invs)

text \<open>A decision for a pending request is always delivered, into the channel of the call that waits for it.\<close>

lemma decide_request_pending:
  assumes "pending_inv hc s" "map_of (pending s) rid = Some i"
  shows "decide_request s rid d = s\<lparr>pending := AList.delete rid (pending s), chans := (chans s)(i := [d])\<rparr>"
    and "awaits (hc i) = Some rid"
  using assms map_of_SomeD[OF assms(2)]
  by (auto simp: pending_inv_def decide_request_def rs_take_def offer_decision_def)

lemma pending_other:
  assumes "distinct (map snd ps)" "(a, i) \<in> set ps" "(b, j) \<in> set ps" "a \<noteq> b"
  shows "i \<noteq> j"
  using assms inj_onD[of snd "set ps" "(a, i)" "(b, j)"] by (auto simp: distinct_map)

lemma decide_request_invs:
  assumes "pending_inv hc s" "chans_inv hc acts s" and "cd_Accepted d \<longrightarrow> CAccept (Some rid) \<in> set acts"
  shows "pending_inv hc (decide_request s rid d)" "chans_inv hc acts (decide_request s rid d)"
    "queue_inv em (decide_request s rid d) = queue_inv em s"
proof -
  have "pending_inv hc (decide_request s rid d) \<and> chans_inv hc acts (decide_request s rid d) \<and>
    queue_inv em (decide_request s rid d) = queue_inv em s"
  proof (cases "map_of (pending s) rid")
    case None
    then show ?thesis using assms by (simp add: decide_request_def rs_take_def)
  next
    case (Some i)
    note dec = decide_request_pending[OF assms(1) Some] and mem = map_of_SomeD[OF Some]
    have "req_of (hc i) = Some rid" using dec(2) by (cases "hc i") auto
    moreover have "j \<noteq> i" if "(b, j) \<in> set (pending s)" "b \<noteq> rid" for b j
      using pending_other[OF _ that(1) mem that(2)] assms(1) by (simp add: pending_inv_def)
    ultimately show ?thesis using assms unfolding dec(1)
      by (auto simp: rs_invs AList.delete_eq distinct_map_filter)
  qed
  then show "pending_inv hc (decide_request s rid d)" "chans_inv hc acts (decide_request s rid d)"
    "queue_inv em (decide_request s rid d) = queue_inv em s" by auto
qed

lemma chans_inv_mono: "chans_inv hc acts s \<Longrightarrow> chans_inv hc (acts @ [m]) s"
  by (fastforce simp: chans_inv_def)

lemma run_action_invs:
  assumes "run_action disp name dead s (RMsg m) = (s', None)" and "pending_inv hc s" "chans_inv hc acts s" "queue_inv em s"
  shows "pending_inv hc s' \<and> chans_inv hc (acts @ [m]) s' \<and> queue_inv em s'"
proof -
  have c: "chans_inv hc (acts @ [m]) s" using assms(3) by (rule chans_inv_mono)
  note dec = decide_request_invs[OF assms(2) c]
  show ?thesis
  proof (cases m)
    case (CSendMessage x)
    with assms c show ?thesis by (auto simp: run_action_def handleSend_def split: option.splits if_splits sum.splits)
  next
    case (CAccept x)
    with assms c dec show ?thesis by (cases x) (auto simp: run_action_def handleAccept_def)
  next
    case (CReject x)
    with assms c dec show ?thesis by (auto simp: run_action_def handleReject_def split: option.splits if_splits)
  qed (use assms c in \<open>auto simp: run_action_def\<close>)
qed

lemma dropAll_frame:
  "events (dropAll s t) = events s" "rs_sent (dropAll s t) = rs_sent s" "pending (dropAll s t) = []"
  "d \<in> set (chans (dropAll s t) i) \<Longrightarrow> d \<in> set (chans s i) \<or> \<not> cd_Accepted d \<and> i \<in> snd ` set (pending s)"
proof -
  let ?f = "\<lambda>s (i, ch). fst (offer_decision s ch \<lparr>cd_Accepted = False, cd_Reason = t\<rparr>)"
  have "events (foldl ?f s ps) = events s \<and> rs_sent (foldl ?f s ps) = rs_sent s \<and>
     (d \<in> set (chans (foldl ?f s ps) i) \<longrightarrow> d \<in> set (chans s i) \<or> \<not> cd_Accepted d \<and> i \<in> snd ` set ps)" for ps
  proof (induction ps arbitrary: s)
    case (Cons p ps)
    obtain a ch where p: "p = (a, ch)" by (cases p)
    from Cons[of "?f s p"] show ?case by (auto simp: p offer_decision_def split: if_splits)
  qed simp
  from this[of "pending s"] show "events (dropAll s t) = events s" "rs_sent (dropAll s t) = rs_sent s" "pending (dropAll s t) = []"
    "d \<in> set (chans (dropAll s t) i) \<Longrightarrow> d \<in> set (chans s i) \<or> \<not> cd_Accepted d \<and> i \<in> snd ` set (pending s)"
    by (auto simp: dropAll_def)
qed

lemma dropAll_invs:
  assumes "pending_inv hc s" "chans_inv hc acts s"
  shows "pending_inv hc (dropAll s t)" "chans_inv hc acts (dropAll s t)" "queue_inv em (dropAll s t) = queue_inv em s"
proof -
  show "pending_inv hc (dropAll s t)" "queue_inv em (dropAll s t) = queue_inv em s" by (simp_all add: rs_invs dropAll_frame)
  show "chans_inv hc acts (dropAll s t)" unfolding chans_inv_def
  proof (intro allI ballI)
    fix i d
    assume "d \<in> set (chans (dropAll s t) i)"
    then consider "d \<in> set (chans s i)" | "\<not> cd_Accepted d" "i \<in> snd ` set (pending s)" using dropAll_frame(4) by blast
    then show "\<exists>rid. req_of (hc i) = Some rid \<and> (cd_Accepted d \<longrightarrow> CAccept (Some rid) \<in> set acts)"
    proof cases
      case 1
      with assms(2) show ?thesis by (auto simp: chans_inv_def)
    next
      case 2
      then obtain rid where "awaits (hc i) = Some rid" using assms(1) by (auto simp: pending_inv_def)
      with 2 show ?thesis by (cases "hc i") auto
    qed
  qed
qed

lemma subseq_drop_one: "subseq (xs @ y # ys) zs \<Longrightarrow> subseq (xs @ ys) zs"
  by (erule subseq_order.trans[rotated]) (simp add: subseq_append' list_emb_Cons)

lemma emit_drop_invs:
  "pending_inv hc (emit_drop s) = pending_inv hc s" "chans_inv hc acts (emit_drop s) = chans_inv hc acts s"
  "queue_inv em s \<Longrightarrow> queue_inv em (emit_drop s)"
  by (auto simp: rs_invs emit_drop_def split: list.splits intro: subseq_drop_one)

lemma emit_ok_invs:
  assumes "emit_try s ev = Emitted s'" "is_event ev"
  shows "pending_inv hc s' = pending_inv hc s" "chans_inv hc acts s' = chans_inv hc acts s"
    "queue_inv em s \<Longrightarrow> queue_inv (em @ [ev]) s'"
  using assms by (auto simp: rs_invs emit_try_def simp flip: append_assoc split: if_splits)

lemma hset_pending:
  "pending_inv hc s \<Longrightarrow> awaits h = awaits (hc i) \<Longrightarrow> pending_inv (hc(i := h)) s"
  by (auto simp: pending_inv_def split: prod.splits)

lemma hset_chans:
  "chans_inv hc acts s \<Longrightarrow> req_of h = req_of (hc i) \<Longrightarrow> chans_inv (hc(i := h)) acts s"
  by (simp add: chans_inv_def)

subsection \<open>Steps\<close>

lemma park_invs:
  assumes "pending_inv hc s" "chans_inv hc acts s" "hc i = HPut rid a"
  shows "pending_inv (hc(i := HEmit ev (Some rid) b)) (rs_put s rid i)" "chans_inv (hc(i := HEmit ev (Some rid) b)) acts (rs_put s rid i)"
proof -
  have "set (chans s i) = {}" using assms(2,3) unfolding chans_inv_def by (metis all_not_in_conv hcall_simps(2) option.distinct(1))
  then have empty: "chans s i = []" by simp
  have new: "i \<notin> snd ` set (pending s)" using assms(1,3) by (force simp: pending_inv_def)
  show "pending_inv (hc(i := HEmit ev (Some rid) b)) (rs_put s rid i)"
    unfolding pending_inv_def
  proof (intro conjI ballI)
    show "distinct (map snd (pending (rs_put s rid i)))"
      using assms(1) snd_update_alist[OF new] by (simp add: pending_inv_def rs_put_def)
    fix p
    assume "p \<in> set (pending (rs_put s rid i))"
    then have "p = (rid, i) \<or> p \<in> set (pending s)" using set_alist_update[of rid i "pending s"] by (auto simp: rs_put_def)
    moreover have "snd p \<noteq> i" if "p \<in> set (pending s)" using new that by auto
    ultimately show "case p of (rid', j) \<Rightarrow> chans (rs_put s rid i) j = [] \<and> awaits ((hc(i := HEmit ev (Some rid) b)) j) = Some rid'"
      using assms(1) empty by (cases p) (auto simp: pending_inv_def rs_put_def)
  qed
  show "chans_inv (hc(i := HEmit ev (Some rid) b)) acts (rs_put s rid i)"
    using assms(2) empty by (auto simp: chans_inv_def rs_put_def)
qed

lemma take_invs:
  assumes "pending_inv hc s" "awaits (hc i) = Some rid"
  shows "pending_inv (hc(i := HDone rid b)) (fst (rs_take s rid))"
  using assms by (force simp: pending_inv_def rs_take_def AList.delete_eq distinct_map_filter split: option.splits
      dest: map_of_eq_None_iff[THEN iffD1])

lemma rs_inv_step:
  assumes "rs_inv y" "rs_step env disp name y y'"
  shows "rs_inv y'"
  using assms(2)
proof cases
  case (start_chat svc i a t ts)
  with assms(1) show ?thesis
    by (auto simp: rs_inv_def hset_def intro!: hset_pending hset_chans) (auto simp: rs_invs is_event_def)
next
  case (start_request svc i a s rid)
  then have "s = (strm y)\<lparr>idN := idN s\<rparr>" by (auto simp: newRequestID_def Let_def)
  then have "pending s = pending (strm y)" "chans s = chans (strm y)" "events s = events (strm y)" "rs_sent s = rs_sent (strm y)"
    by (metis reg_stream.select_convs reg_stream.surjective reg_stream.update_convs(5))+
  with start_request assms(1) have "pending_inv (hcalls y) s" "chans_inv (hcalls y) (sy_actions y) s" "queue_inv (sy_emitted y) s"
    by (auto simp: rs_inv_def rs_invs)
  with start_request assms(1) show ?thesis
    by (auto simp: rs_inv_def hset_def intro!: hset_pending hset_chans) (auto simp: rs_invs)
next
  case (park i rid a)
  with assms(1) park_invs[of "hcalls y" "strm y" "sy_actions y" i rid a] show ?thesis
    by (auto simp: rs_inv_def hset_def) (auto simp: rs_invs rs_put_def is_event_def)
next
  case (emit_ok i ev k s)
  then have ev: "is_event ev" using assms(1) by (auto simp: rs_inv_def emitting_inv_def)
  with emit_ok assms(1) have s: "pending_inv (hcalls y) s" "chans_inv (hcalls y) (sy_actions y) s" "queue_inv (sy_emitted y @ [ev]) s"
    by (auto simp: rs_inv_def emit_ok_invs)
  with emit_ok assms(1) ev show ?thesis
    by (cases k) (auto simp: rs_inv_def hset_def consent_inv_def emitting_inv_def intro!: hset_pending hset_chans)
next
  case (emit_full i ev k)
  then have "is_event ev" using assms(1) by (auto simp: rs_inv_def emitting_inv_def)
  with emit_full assms(1) show ?thesis
    by (auto simp: rs_inv_def hset_def consent_inv_def emitting_inv_def intro!: hset_pending hset_chans)
next
  case (emit_make_room i ev k)
  then have "is_event ev" using assms(1) by (auto simp: rs_inv_def emitting_inv_def)
  with emit_make_room assms(1) show ?thesis
    by (auto simp: rs_inv_def hset_def consent_inv_def emitting_inv_def emit_drop_invs intro!: hset_pending hset_chans)
next
  case (decided i rid d ds)
  have nopend: "i \<notin> snd ` set (pending (strm y))" using assms(1) decided by (force simp: rs_inv_def pending_inv_def)
  have acc: "\<forall>x \<in> set (d # ds). cd_Accepted x \<longrightarrow> CAccept (Some rid) \<in> set (sy_actions y)"
    using assms(1) decided unfolding rs_inv_def chans_inv_def by (metis hcall_simps(4) option.inject)
  have "cd_Accepted d \<longrightarrow> CAccept (Some rid) \<in> set (sy_actions y)" using acc by simp
  moreover have "pending_inv ((hcalls y)(i := HDone rid (cd_Accepted d))) ((strm y)\<lparr>chans := (chans (strm y))(i := ds)\<rparr>)"
    using assms(1) nopend by (force simp: rs_inv_def pending_inv_def)
  moreover have "chans_inv (hcalls y) (sy_actions y) ((strm y)\<lparr>chans := (chans (strm y))(i := ds)\<rparr>)"
    using assms(1) decided acc unfolding rs_inv_def chans_inv_def by auto
  ultimately show ?thesis using assms(1) decided
    by (auto simp: rs_inv_def hset_def consent_inv_def emitting_inv_def queue_inv_def intro!: hset_chans)
next
  case (gave_up i rid)
  have "chans_inv (hcalls y) (sy_actions y) (fst (rs_take (strm y) rid))" "queue_inv (sy_emitted y) (fst (rs_take (strm y) rid))"
    using assms(1) by (auto simp: rs_inv_def chans_inv_def queue_inv_def rs_take_def split: option.splits)
  with gave_up assms(1) take_invs[of "hcalls y" "strm y" i rid False] show ?thesis
    by (auto simp: rs_inv_def hset_def consent_inv_def emitting_inv_def intro!: hset_chans)
next
  case (act m s)
  with assms(1) run_action_invs[OF act(3)] show ?thesis by (auto simp: rs_inv_def consent_inv_def)
next
  case (act_end r s res)
  then have "s = strm y" by (auto simp: run_action_def split: recv.splits client_msg.splits)
  with act_end assms(1) show ?thesis by (simp add: rs_inv_def)
next
  case (forward s ok)
  from forward(3) obtain ev es where ev: "events (strm y) = ev # es" "rs_send ((strm y)\<lparr>events := es\<rparr>) ev = (s, ok)"
    by (auto simp: forward_event_def split: list.splits)
  then have q: "subseq (filter is_event (rs_sent (strm y)) @ ev # es) (sy_emitted y)" "list_all is_event (sy_emitted y)"
    using assms(1) by (auto simp: rs_inv_def queue_inv_def emitting_inv_def)
  then have "is_event ev" using list_emb_set[OF q(1), of ev] by (auto simp: list_all_iff)
  with q ev assms(1) have "queue_inv (sy_emitted y) s" "pending s = pending (strm y)" "chans s = chans (strm y)"
    by (auto simp: rs_inv_def queue_inv_def rs_send_def split: if_splits intro: subseq_drop_one)
  with forward assms(1) show ?thesis by (simp add: rs_inv_def pending_inv_def chans_inv_def)
next
  case drop_all
  with assms(1) dropAll_invs[of "hcalls y" "strm y" "sy_actions y"] show ?thesis by (simp add: rs_inv_def)
qed (use assms(1) in \<open>simp_all add: rs_inv_def rs_invs\<close>)

lemma session_inv: "rs_inv (session r (fst (rs_send (new_stream\<lparr>rs_alive := ok\<rparr>) (SRegistered a b))))"
  by (simp add: rs_inv_def rs_invs session_def new_stream_def is_event_def)

text \<open>What a successful opening gives: the service in the registry, and a fresh session.\<close>

lemma open_ok:
  assumes "RegisterService_open env reg first ok = (reg', sent, Inr (name, y0))"
  obtains r r' m svc where "reg = Some r" "first = RMsg (CManifest (Some m))" "name = pm_Name m" "validateManifest (H env) m = Inr ()"
    "Register env r name (proto_to_manifest m) (Some [ChatHandler, ConnectionHandler]) = (r', Inr svc)" "reg' = Some r'"
    "y0 = session r' (fst (rs_send (new_stream\<lparr>rs_alive := ok\<rparr>) (SRegistered (svc_Address svc) (svc_OnionAddr svc))))"
    "sent = [SRegistered (svc_Address svc) (svc_OnionAddr svc)]"
  using assms
  by (auto simp: RegisterService_open_def rs_send_def new_stream_def split: option.splits recv.splits client_msg.splits sum.splits
      prod.splits if_splits)

lemma open_inv: "RegisterService_open env reg first ok = (reg', sent, Inr (name, y0)) \<Longrightarrow> rs_inv y0 \<and> \<not> crashed y0 \<and> main y0 = MActions"
  by (erule open_ok) (simp add: session_inv, simp add: session_def)

lemma reach_inv:
  "rs_reach env disp name y0 y \<Longrightarrow> rs_inv y0 \<Longrightarrow> rs_inv y"
  by (induction rule: rs_reach.induct) (auto intro: rs_inv_step)

lemma step_crash:
  "rs_step env disp name y y' \<Longrightarrow> \<not> crashed y \<Longrightarrow> crashed y' \<Longrightarrow> events_closed (strm y')"
  by (erule rs_step.cases) (auto simp: hset_def emit_try_def split: if_splits)

lemma reach_crash:
  "rs_reach env disp name y0 y \<Longrightarrow> \<not> crashed y0 \<Longrightarrow> crashed y \<Longrightarrow> events_closed (strm y)"
  by (induction rule: rs_reach.induct) (auto dest: step_crash)

lemma Unregister_gone: "Get (fst (Unregister env r name)) name = None"
  using Unregister_outcome[of env r name] by (cases "Unregister env r name") (auto split: option.splits)

lemma reach_unregistered:
  "rs_reach env disp name y0 y \<Longrightarrow> main y0 = MActions \<Longrightarrow> main y \<in> {MDropAll, MReturned} \<Longrightarrow> Get (sy_registry y) name = None"
proof (induction rule: rs_reach.induct)
  case (reach_step y y')
  from reach_step(3) show ?case
    by (cases rule: rs_step.cases) (use reach_step.IH reach_step.prems in \<open>auto simp: hset_def Unregister_gone\<close>)
qed simp

section \<open>Properties\<close>

text \<open>C33: An external service admits a peer only by its client's word. Over every interleaving of the action loop,
  the forwarder and any number of handler calls, a call of \<open>OnConnectionRequest\<close> answers yes only when the
  client sent an accept for the id of that very request; and a decision for a pending request always reaches the call that waits
  for it, whose channel is empty, so no decision is lost or refused as a second one.\<close>

theorem external_consent:
  assumes "RegisterService_open env reg first ok = (reg', sent, Inr (name, y0))" and "rs_reach env disp name y0 y"
  shows "(hcalls y i = HDone rid True \<longrightarrow> CAccept (Some rid) \<in> set (sy_actions y)) \<and>
    (map_of (pending (strm y)) rid = Some i \<longrightarrow> awaits (hcalls y i) = Some rid \<and>
       chans (decide_request (strm y) rid d) i = [d] \<and> rs_sent (decide_request (strm y) rid d) = rs_sent (strm y))"
proof -
  have inv: "rs_inv y" using reach_inv[OF assms(2)] open_inv[OF assms(1)] by blast
  then have p: "pending_inv (hcalls y) (strm y)" by (simp add: rs_inv_def)
  show ?thesis
    using inv decide_request_pending[OF p, of rid i] by (auto simp: rs_inv_def consent_inv_def)
qed

text \<open>Backpressure loses events but never reorders them. Whatever the speed of the client, the queue holds at
  most 256 events, and the events sent to the client, followed by those that wait, are a subsequence of the
  events that were emitted.\<close>

theorem event_queue_bounded:
  assumes "RegisterService_open env reg first ok = (reg', sent, Inr (name, y0))" and "rs_reach env disp name y0 y"
  shows "length (events (strm y)) \<le> eventQueueSize \<and>
    subseq (filter is_event (rs_sent (strm y)) @ events (strm y)) (sy_emitted y)"
  using reach_inv[OF assms(2)] open_inv[OF assms(1)] by (simp add: rs_inv_def queue_inv_def)

text \<open>The service goes with its stream. When the call has returned, the registry has no service under its
  name, whatever else changed the registry's other entries.\<close>

theorem stream_end_unregisters:
  assumes "RegisterService_open env reg first ok = (reg', sent, Inr (name, y0))" and "rs_reach env disp name y0 y"
    and "main y = MReturned"
  shows "Get (sy_registry y) name = None"
  using reach_unregistered[OF assms(2)] open_inv[OF assms(1)] assms(3) by simp

text \<open>A disconnect can crash the daemon. The queue is closed before the service leaves the registry, so from every
  state of a running stream with a handler call still to come there is an interleaving in which that call sends on the closed queue and
  panics; and a panic happens in no other way.\<close>

theorem disconnect_panics:
  assumes "RegisterService_open env reg first ok = (reg', sent, Inr (name, y0))" and "rs_reach env disp name y0 y"
  shows "(crashed y \<longrightarrow> events_closed (strm y)) \<and>
    (\<not> crashed y \<and> main y = MActions \<and> hcalls y i = HNone \<and> (\<exists>svc. Get (sy_registry y) name = Some svc \<and> AsChat svc) \<longrightarrow>
       (\<exists>y'. rs_reach env disp name y0 y' \<and> crashed y'))"
proof (intro conjI impI)
  assume "crashed y"
  then show "events_closed (strm y)" using reach_crash[OF assms(2)] open_inv[OF assms(1)] by blast
next
  assume a: "\<not> crashed y \<and> main y = MActions \<and> hcalls y i = HNone \<and> (\<exists>svc. Get (sy_registry y) name = Some svc \<and> AsChat svc)"
  then obtain svc where svc: "Get (sy_registry y) name = Some svc" "AsChat svc" by blast
  let ?ev = "SChatEvent '''' '''' 0"
  define y1 where "y1 = hset y i (HEmit ?ev None False)"
  define y2 where "y2 = y1\<lparr>strm := strm y1, main := MClose\<rparr>"
  define y3 where "y3 = y2\<lparr>strm := (strm y2)\<lparr>events_closed := True\<rparr>, main := MJoin\<rparr>"
  have r1: "rs_reach env disp name y0 y1"
    using reach_step[OF assms(2) _ start_chat[OF svc]] a unfolding y1_def chat_call_def by blast
  have c1: "\<not> crashed y1" "main y1 = MActions" "hcalls y1 i = HEmit ?ev None False" using a by (simp_all add: y1_def hset_def)
  have r2: "rs_reach env disp name y0 y2"
    using reach_step[OF r1 c1(1) act_end[OF c1(2), where r = REOF and s = "strm y1" and res = "Inr ()"]] by (simp add: run_action_def y2_def)
  have r3: "rs_reach env disp name y0 y3"
    using reach_step[OF r2 _ close] c1 by (simp add: y2_def y3_def)
  have "emit_try (strm y3) ?ev = EmitPanic" "hcalls y3 i = HEmit ?ev None False" "\<not> crashed y3"
    using c1 by (simp_all add: y3_def y2_def emit_try_def)
  then have "rs_reach env disp name y0 (y3\<lparr>crashed := True\<rparr>)" using reach_step[OF r3 _ emit_panic] by blast
  then show "\<exists>y'. rs_reach env disp name y0 y' \<and> crashed y'" by (intro exI[of _ "y3\<lparr>crashed := True\<rparr>"]) simp
qed

section \<open>A concrete session\<close>

definition demo_pm :: proto_manifest where
  "demo_pm = \<lparr>pm_Name = ''bot'', pm_Description = '''', pm_Acl = 0, pm_Allowlist = []\<rparr>"

lemma demo_open: "\<exists>r s svc. RegisterService_open (demo_reg_env 3) (Some demo_reg0) (RMsg (CManifest (Some demo_pm))) True =
    (Some r, [SRegistered (svc_Address svc) (svc_OnionAddr svc)], Inr (''bot'', session r s)) \<and>
  s = fst (rs_send new_stream (SRegistered (svc_Address svc) (svc_OnionAddr svc))) \<and>
  Get r ''bot'' = Some svc \<and> AsChat svc \<and> AsConnection svc"
proof -
  let ?R = "Register (demo_reg_env 3) demo_reg0 ''bot'' (proto_to_manifest demo_pm) (Some [ChatHandler, ConnectionHandler])"
  have "\<exists>r svc. ?R = (r, Inr svc) \<and> Get r ''bot'' = Some svc \<and> AsChat svc \<and> AsConnection svc"
    by (simp add: Register_def demo_reg_env_def demo_reg0_def registry_New_def demo_engine_def AddOnion_def add_prepare_def
        add_commit_def demo_listen_def register_insert_def register_advertise_def register_hook_def new_service_def Let_def
        Get_def AsChat_def AsConnection_def implements_def)
  then obtain r svc where "?R = (r, Inr svc)" "Get r ''bot'' = Some svc" "AsChat svc" "AsConnection svc" by blast
  then show ?thesis
    by (intro exI[of _ r] exI[of _ "fst (rs_send new_stream (SRegistered (svc_Address svc) (svc_OnionAddr svc)))"] exI[of _ svc])
      (simp add: RegisterService_open_def validateManifest_def demo_pm_def rs_send_def new_stream_def)
qed

text \<open>A request that is parked, surfaced and accepted.\<close>

lemma accept_run:
  assumes "Get r name = Some svc" "AsConnection svc" and "s = fst (rs_send new_stream m)"
  shows "\<exists>y rid. rs_reach env disp name (session r s) y \<and> hcalls y 0 = HDone rid True"
proof -
  let ?y0 = "session r s" and ?rid = "''peer'' @ ''-'' @ format_nat (unat (1 :: u64))"
  define y1 where "y1 = hset (?y0\<lparr>strm := s\<lparr>idN := 1\<rparr>\<rparr>) 0 (HPut ?rid ''peer'')"
  define y2 where "y2 = hset (y1\<lparr>strm := rs_put (strm y1) ?rid 0\<rparr>) 0 (HEmit (SRequestEvent ?rid ''peer'') (Some ?rid) False)"
  define y3 where "y3 = hset (y2\<lparr>strm := (strm y2)\<lparr>events := [SRequestEvent ?rid ''peer'']\<rparr>,
      sy_emitted := [SRequestEvent ?rid ''peer'']\<rparr>) 0 (HWait ?rid)"
  define y4 where "y4 = y3\<lparr>strm := decide_request (strm y3) ?rid \<lparr>cd_Accepted = True, cd_Reason = ''''\<rparr>,
      sy_actions := [CAccept (Some ?rid)]\<rparr>"
  define y5 where "y5 = hset (y4\<lparr>strm := (strm y4)\<lparr>chans := (chans (strm y4))(0 := [])\<rparr>\<rparr>) 0 (HDone ?rid True)"
  have s: "idN s = 0" "pending s = []" "chans s = (\<lambda>_. [])" "events s = []" "\<not> events_closed s"
    by (simp_all add: assms(3) rs_send_def new_stream_def)
  have "rs_step env disp name ?y0 y1"
    using start_request[of ?y0 name svc 0 "''peer''" "s\<lparr>idN := 1\<rparr>" ?rid env disp] assms s
    by (simp add: y1_def session_def newRequestID_def)
  moreover have "rs_step env disp name y1 y2"
    using park[of y1 0 ?rid "''peer''" env disp name] by (simp add: y2_def) (simp add: y1_def hset_def)
  moreover have "rs_step env disp name y2 y3"
    using emit_ok[of y2 0 "SRequestEvent ?rid ''peer''" "Some ?rid" "(strm y2)\<lparr>events := [SRequestEvent ?rid ''peer'']\<rparr>" env disp name] s
    by (simp add: y3_def) (simp add: y2_def y1_def hset_def rs_put_def emit_try_def eventQueueSize_def session_def)
  moreover have "rs_step env disp name y3 y4"
    using act[of y3 disp name "CAccept (Some ?rid)" "strm y4" env]
    by (simp add: y4_def run_action_def handleAccept_def) (simp add: y3_def y2_def y1_def hset_def session_def)
  moreover have "chans (strm y4) 0 = [\<lparr>cd_Accepted = True, cd_Reason = ''''\<rparr>]" "hcalls y4 0 = HWait ?rid"
    using s by (simp_all add: y4_def y3_def y2_def y1_def hset_def rs_put_def decide_request_def rs_take_def offer_decision_def session_def)
  then have "rs_step env disp name y4 y5"
    using decided[of y4 0 ?rid "\<lparr>cd_Accepted = True, cd_Reason = ''''\<rparr>" "[]" env disp name] by (simp add: y5_def)
  moreover have "\<not> crashed ?y0" "\<not> crashed y1" "\<not> crashed y2" "\<not> crashed y3" "\<not> crashed y4"
    by (simp_all add: y4_def y3_def y2_def y1_def hset_def session_def)
  ultimately have "rs_reach env disp name ?y0 y5" by (meson reach_start reach_step)
  then show ?thesis by (intro exI[of _ y5] exI[of _ ?rid]) (simp add: y5_def hset_def)
qed

theorem external_consent_witness:
  "\<exists>y0 y rid reg sent. RegisterService_open (demo_reg_env 3) (Some demo_reg0) (RMsg (CManifest (Some demo_pm))) True =
      (reg, sent, Inr (''bot'', y0)) \<and> rs_reach (demo_reg_env 3) None ''bot'' y0 y \<and> hcalls y 0 = HDone rid True \<and>
      CAccept (Some rid) \<in> set (sy_actions y)"
proof -
  obtain r s svc where o1: "RegisterService_open (demo_reg_env 3) (Some demo_reg0) (RMsg (CManifest (Some demo_pm))) True =
      (Some r, [SRegistered (svc_Address svc) (svc_OnionAddr svc)], Inr (''bot'', session r s))"
    and s: "s = fst (rs_send new_stream (SRegistered (svc_Address svc) (svc_OnionAddr svc)))" "Get r ''bot'' = Some svc" "AsConnection svc"
    using demo_open by blast
  obtain y rid where y: "rs_reach (demo_reg_env 3) None ''bot'' (session r s) y" "hcalls y 0 = HDone rid True"
    using accept_run[OF s(2,3,1)] by blast
  with external_consent[OF o1 y(1)] have "CAccept (Some rid) \<in> set (sy_actions y)" by blast
  with o1 y show ?thesis by blast
qed

theorem event_queue_bounded_witness:
  "\<exists>y0 y reg sent. RegisterService_open (demo_reg_env 3) (Some demo_reg0) (RMsg (CManifest (Some demo_pm))) True =
      (reg, sent, Inr (''bot'', y0)) \<and> rs_reach (demo_reg_env 3) None ''bot'' y0 y \<and> length (events (strm y)) \<le> 256"
proof -
  obtain r s svc where o1: "RegisterService_open (demo_reg_env 3) (Some demo_reg0) (RMsg (CManifest (Some demo_pm))) True =
      (Some r, [SRegistered (svc_Address svc) (svc_OnionAddr svc)], Inr (''bot'', session r s))"
    and s: "s = fst (rs_send new_stream (SRegistered (svc_Address svc) (svc_OnionAddr svc)))" "Get r ''bot'' = Some svc" "AsConnection svc"
    using demo_open by blast
  obtain y rid where y: "rs_reach (demo_reg_env 3) None ''bot'' (session r s) y" "hcalls y 0 = HDone rid True"
    using accept_run[OF s(2,3,1)] by blast
  with event_queue_bounded[OF o1 y(1)] o1 show ?thesis by (auto simp: eventQueueSize_def)
qed

theorem disconnect_panics_witness:
  "\<exists>y0 y reg sent. RegisterService_open (demo_reg_env 3) (Some demo_reg0) (RMsg (CManifest (Some demo_pm))) True =
      (reg, sent, Inr (''bot'', y0)) \<and> rs_reach (demo_reg_env 3) None ''bot'' y0 y \<and> crashed y"
proof -
  obtain r s svc where o1: "RegisterService_open (demo_reg_env 3) (Some demo_reg0) (RMsg (CManifest (Some demo_pm))) True =
      (Some r, [SRegistered (svc_Address svc) (svc_OnionAddr svc)], Inr (''bot'', session r s))" "Get r ''bot'' = Some svc" "AsChat svc"
    using demo_open by blast
  then have "\<not> crashed (session r s) \<and> main (session r s) = MActions \<and> hcalls (session r s) 0 = HNone \<and>
     (\<exists>svc. Get (sy_registry (session r s)) ''bot'' = Some svc \<and> AsChat svc)" by (simp add: session_def)
  with disconnect_panics[where i = 0 and disp = None, OF o1(1) reach_start] show ?thesis using o1(1) by blast
qed

lemma end_run:
  assumes "s = fst (rs_send new_stream m)"
  shows "\<exists>y. rs_reach env disp name (session r s) y \<and> main y = MReturned"
proof -
  let ?y0 = "session r s"
  define y1 where "y1 = ?y0\<lparr>strm := s, main := MClose\<rparr>"
  define y2 where "y2 = y1\<lparr>strm := (strm y1)\<lparr>events_closed := True\<rparr>, main := MJoin\<rparr>"
  define y3 where "y3 = y2\<lparr>forwarding := False\<rparr>"
  define y4 where "y4 = y3\<lparr>main := MUnregister\<rparr>"
  define y5 where "y5 = y4\<lparr>sy_registry := fst (Unregister env (sy_registry y4) name), main := MDropAll\<rparr>"
  define y6 where "y6 = y5\<lparr>strm := dropAll (strm y5) ''service stream closed'', main := MReturned\<rparr>"
  note ys = y6_def y5_def y4_def y3_def y2_def y1_def session_def
  have "rs_step env disp name ?y0 y1"
    using act_end[of ?y0 disp name REOF s "Inr ()" env] by (simp add: y1_def session_def run_action_def)
  moreover have "rs_step env disp name y1 y2" using close[of y1 env disp name] by (simp add: y2_def) (simp add: y1_def)
  moreover have "rs_step env disp name y2 y3"
    using forward_end[of y2 env disp name] by (simp add: y3_def) (simp add: ys assms rs_send_def new_stream_def)
  moreover have "rs_step env disp name y3 y4" using join[of y3 env disp name] by (simp add: y4_def) (simp add: ys)
  moreover have "rs_step env disp name y4 y5" using unregister[of y4 env disp name] by (simp add: y5_def) (simp add: ys)
  moreover have "rs_step env disp name y5 y6" using drop_all[of y5 env disp name] by (simp add: y6_def) (simp add: ys)
  moreover have "\<not> crashed ?y0" "\<not> crashed y1" "\<not> crashed y2" "\<not> crashed y3" "\<not> crashed y4" "\<not> crashed y5" by (simp_all add: ys)
  ultimately have "rs_reach env disp name ?y0 y6" by (meson reach_start reach_step)
  then show ?thesis by (intro exI[of _ y6]) (simp add: y6_def)
qed

theorem stream_end_unregisters_witness:
  "\<exists>y0 y reg sent. RegisterService_open (demo_reg_env 3) (Some demo_reg0) (RMsg (CManifest (Some demo_pm))) True =
      (Some reg, sent, Inr (''bot'', y0)) \<and> Get reg ''bot'' \<noteq> None \<and> rs_reach (demo_reg_env 3) None ''bot'' y0 y \<and>
      main y = MReturned \<and> Get (sy_registry y) ''bot'' = None"
proof -
  obtain r s svc where o1: "RegisterService_open (demo_reg_env 3) (Some demo_reg0) (RMsg (CManifest (Some demo_pm))) True =
      (Some r, [SRegistered (svc_Address svc) (svc_OnionAddr svc)], Inr (''bot'', session r s))" "Get r ''bot'' = Some svc"
    and s: "s = fst (rs_send new_stream (SRegistered (svc_Address svc) (svc_OnionAddr svc)))"
    using demo_open by blast
  obtain y where y: "rs_reach (demo_reg_env 3) None ''bot'' (session r s) y" "main y = MReturned"
    using end_run[OF s] by blast
  from stream_end_unregisters[OF o1(1) y] y o1 show ?thesis by blast
qed

end
