(* ===== verification/Node_System.thy ===== *)
theory Node_System
  imports Node_Core Connector_Props Discovery_Manager Contacts Transfer_Slots
begin

text \<open>
  The node with its subsystems (\<open>src/internal/node/node.go\<close>) and the adapters the daemon puts between them
  (\<open>src/internal/daemon/daemon.go\<close>): contacts, discovery, signaling client, connector and host are wired into
  the node one by one, and every call first looks whether what it needs is there. What the network does during a
  connect is a record argument, as in \<open>Connector\<close>, \<open>Discovery_Manager\<close> and \<open>Signaling\<close>.
\<close>

section \<open>State and wiring\<close>

record node_sys =
  ns_node :: node
  ns_contacts :: "contact_store option"
  ns_discovery :: "manager option"
  ns_client :: "client option"
  ns_connector :: "connector option"
  ns_host :: bool
  ns_activeXfers :: int

definition new_node_sys :: "hashes \<Rightarrow> keypair \<Rightarrow> node_sys" where
  "new_node_sys HF kp = \<lparr>ns_node = node_New HF kp, ns_contacts = None, ns_discovery = None, ns_client = None,
     ns_connector = None, ns_host = False, ns_activeXfers = 0\<rparr>"

definition SetContacts :: "node_sys \<Rightarrow> contact_store \<Rightarrow> node_sys" where "SetContacts s cs = s\<lparr>ns_contacts := Some cs\<rparr>"
definition SetHost :: "node_sys \<Rightarrow> node_sys" where "SetHost s = s\<lparr>ns_host := True\<rparr>"
definition SetConnector :: "node_sys \<Rightarrow> connector \<Rightarrow> node_sys" where "SetConnector s c = s\<lparr>ns_connector := Some c\<rparr>"
definition node_SetDiscovery :: "node_sys \<Rightarrow> manager \<Rightarrow> node_sys" where "node_SetDiscovery s m = s\<lparr>ns_discovery := Some m\<rparr>"
definition SetSignaling :: "node_sys \<Rightarrow> client \<Rightarrow> node_sys" where "SetSignaling s c = s\<lparr>ns_client := Some c\<rparr>"

section \<open>Discovery and connections\<close>

definition node_AddNode ::
  "'w network \<Rightarrow> unit res \<Rightarrow> unit res \<Rightarrow> 'w \<Rightarrow> node_sys \<Rightarrow> string \<Rightarrow> 'w \<times> node_sys \<times> nat res" where
  "node_AddNode N mk wr w s onion =
     (case ns_discovery s of
        None \<Rightarrow> (w, s, Inl ''discovery not initialized'')
      | Some m \<Rightarrow> (case AddNode N mk wr w m onion of (w', m', r, _) \<Rightarrow> (w', s\<lparr>ns_discovery := Some m'\<rparr>, r)))"

text \<open>What one connect meets: the clock and the flow of the connector, or, without one, what mDNS reports, how that wait
  ends, and the attempts of the signaling client with the ends of its context.\<close>

record connect_io =
  ci_now :: time
  ci_flow :: flow_io
  ci_found :: "peer_info list"
  ci_wait :: wait_end
  ci_attempt :: "string \<Rightarrow> nat \<Rightarrow> initiator_io"
  ci_ctx_err :: "nat \<Rightarrow> bool"
  ci_woken :: "nat \<Rightarrow> bool"

definition node_Connect ::
  "libp2p \<Rightarrow> hashes \<Rightarrow> ed25519 \<Rightarrow> kex \<Rightarrow> 'w network \<Rightarrow> connect_io \<Rightarrow> 'w \<Rightarrow> node_sys \<Rightarrow> string \<Rightarrow>
     'w \<times> node_sys \<times> state_event list \<times> handshake_result res" where
  "node_Connect L HF E X N io w s peerAddr =
     (case (ns_discovery s, ns_client s) of
        (Some disc, Some cl) \<Rightarrow>
          (case ns_connector s of
             Some conn \<Rightarrow>
               (case Connect L HF E X (ci_now io) (ci_flow io) conn peerAddr of
                  (conn', evs, Inl e) \<Rightarrow> (w, s\<lparr>ns_connector := Some conn'\<rparr>, evs, Inl ''connecting'')
                | (conn', evs, Inr pc) \<Rightarrow> (w, s\<lparr>ns_connector := Some conn'\<rparr>, evs, Inr \<lparr>PeerPubKey = [], PeerAddr = peerAddr\<rparr>))
           | None \<Rightarrow>
               (case FindPeer HF N w disc peerAddr (ci_found io) (ci_wait io) of
                  (w', disc', Inl e) \<Rightarrow> (w', s\<lparr>ns_discovery := Some disc'\<rparr>, [], Inl ''looking up peer'')
                | (w', disc', Inr p) \<Rightarrow>
                    (case RequestConnection (\<lambda>k. snd (attemptHandshake HF E cl (ci_attempt io (OnionAddr p) k) peerAddr))
                            (ci_ctx_err io) (ci_woken io) of
                       (_, _, Inl e) \<Rightarrow> (w', s\<lparr>ns_discovery := Some disc'\<rparr>, [], Inl ''signaling handshake'')
                     | (_, _, Inr r) \<Rightarrow> (w', s\<lparr>ns_discovery := Some disc'\<rparr>, [], Inr r))))
      | _ \<Rightarrow> (w, s, [], Inl ''node not ready (discovery/signaling not initialized)''))"

definition node_RTSize :: "node_sys \<Rightarrow> nat" where
  "node_RTSize s = (case ns_discovery s of Some m \<Rightarrow> RTSize m | None \<Rightarrow> 0)"

definition ConnectionInfo :: "node_sys \<Rightarrow> string \<Rightarrow> peer_conn option" where
  "ConnectionInfo s addr = (case ns_connector s of None \<Rightarrow> None | Some c \<Rightarrow> GetPeer c addr)"

definition ActiveConnections :: "node_sys \<Rightarrow> peer_conn list" where
  "ActiveConnections s = (case ns_connector s of None \<Rightarrow> [] | Some c \<Rightarrow> ActivePeers c)"

definition PeerCount :: "node_sys \<Rightarrow> int" where
  "PeerCount s = (case ns_connector s of Some c \<Rightarrow> wrap32 (int (length (ActivePeers c))) | None \<Rightarrow> 0)"

definition node_MaxPeers :: "node_sys \<Rightarrow> int" where
  "node_MaxPeers s = (case ns_connector s of Some c \<Rightarrow> maxPeers c | None \<Rightarrow> 0)"

record debug_peer =
  dp_Address :: string
  dp_OnionAddr :: string
  dp_LastSeen :: i64

record debug_connection =
  dc_Address :: string
  dc_State :: string
  dc_Error :: string

record debug_info =
  di_RTSize :: nat
  di_RTPeers :: "debug_peer list"
  di_Connections :: "debug_connection list"
  di_OnionAddr :: string

definition GetDebugInfo :: "node_sys \<Rightarrow> debug_info" where
  "GetDebugInfo s =
     (let ps = (case ns_discovery s of Some m \<Rightarrow> ListPeers m | None \<Rightarrow> [])
      in \<lparr>di_RTSize = length ps,
          di_RTPeers = map (\<lambda>p. \<lparr>dp_Address = Address p, dp_OnionAddr = OnionAddr p, dp_LastSeen = unix_millis (LastSeen p)\<rparr>) ps,
          di_Connections = map (\<lambda>pc. \<lparr>dc_Address = pc_Address pc, dc_State = conn_state_String (pc_State pc), dc_Error = ''''\<rparr>)
            (ActiveConnections s),
          di_OnionAddr = node_OnionAddr (ns_node s)\<rparr>)"

section \<open>Transfer slots\<close>

text \<open>The calls one after another; the interleavings of the counter are in \<open>Transfer_Slots\<close>.\<close>

definition ActiveTransfers :: "node_sys \<Rightarrow> int" where
  "ActiveTransfers s = (case ns_connector s of Some c \<Rightarrow> ns_activeXfers s | None \<Rightarrow> 0)"

definition MaxTransfers :: "node_sys \<Rightarrow> int" where
  "MaxTransfers s = (case ns_connector s of Some c \<Rightarrow> maxXfers c | None \<Rightarrow> 0)"

definition node_AcquireTransferSlot :: "node_sys \<Rightarrow> node_sys \<times> bool" where
  "node_AcquireTransferSlot s =
     (case ns_connector s of
        None \<Rightarrow> (s, True)
      | Some c \<Rightarrow> if ns_activeXfers s \<ge> maxXfers c then (s, False)
                  else (s\<lparr>ns_activeXfers := wrap32 (ns_activeXfers s + 1)\<rparr>, True))"

definition node_ReleaseTransferSlot :: "node_sys \<Rightarrow> node_sys" where
  "node_ReleaseTransferSlot s =
     (case ns_connector s of None \<Rightarrow> s | Some c \<Rightarrow> s\<lparr>ns_activeXfers := wrap32 (ns_activeXfers s + - 1)\<rparr>)"

section \<open>Adapters of the daemon\<close>

definition discoveryFinderAdapter ::
  "hashes \<Rightarrow> 'w network \<Rightarrow> 'w \<Rightarrow> manager \<Rightarrow> string \<Rightarrow> peer_info list \<Rightarrow> wait_end \<Rightarrow> 'w \<times> manager \<times> Connector.lookup_result res" where
  "discoveryFinderAdapter HF N w m addr found wend =
     (case FindPeer HF N w m addr found wend of
        (w', m', Inl e) \<Rightarrow> (w', m', Inl e)
      | (w', m', Inr info) \<Rightarrow> (w', m', Inr \<lparr>lr_Address = Address info, lr_OnionAddr = OnionAddr info\<rparr>))"

definition nodeResolver_GetPeer :: "node_sys \<Rightarrow> string \<Rightarrow> peer_conn option" where
  "nodeResolver_GetPeer s addr = ConnectionInfo s addr"

definition nodeConnectorLister_ActivePeers :: "node_sys \<Rightarrow> peer_conn list" where
  "nodeConnectorLister_ActivePeers s = ActiveConnections s"

definition nodeChatDispatcher_Send :: "node_sys \<Rightarrow> string \<Rightarrow> string \<Rightarrow> string \<Rightarrow> string res" where
  "nodeChatDispatcher_Send s svc toAddr t = node_SendMessage (ns_node s) toAddr t"

text \<open>The closures of \<open>Start\<close> that put the chat service and the file transfer behind the node.\<close>

definition wire_chat :: "(string \<Rightarrow> string \<Rightarrow> 'm res) \<Rightarrow> ('m \<Rightarrow> string) \<Rightarrow> node_sys \<Rightarrow> node_sys" where
  "wire_chat send mid s =
     s\<lparr>ns_node := (ns_node s)\<lparr>sendMsg := Some (\<lambda>addr t. case send addr t of Inl e \<Rightarrow> Inl e | Inr m \<Rightarrow> Inr (mid m))\<rparr>\<rparr>"

definition wire_files ::
  "(string \<Rightarrow> string \<Rightarrow> 'x res) \<Rightarrow> ('x \<Rightarrow> string) \<Rightarrow> (string \<Rightarrow> string \<Rightarrow> unit res) \<Rightarrow> (string \<Rightarrow> string \<Rightarrow> unit res) \<Rightarrow> node_sys \<Rightarrow> node_sys" where
  "wire_files offer xid acc rej s =
     s\<lparr>ns_node := (ns_node s)\<lparr>sendFile := Some (\<lambda>addr p. case offer addr p of Inl e \<Rightarrow> Inl e | Inr x \<Rightarrow> Inr (xid x)),
         acceptFile := Some acc, rejectFile := Some rej\<rparr>\<rparr>"

section \<open>A connect is authenticated\<close>

lemma request_loop_success: "request_loop att ce wk ks err = (n, ws, Inr r) \<Longrightarrow> \<exists>k. att k = Inr r"
  by (induction att ce wk ks err arbitrary: n ws rule: request_loop.induct)
    (auto simp: Let_def split: sum.splits attempt_error.splits if_splits prod.splits)

lemma Connect_success:
  assumes "Connect L HF E X now io c a = (c', evs, Inr pc)"
  shows "GetPeer c' a = Some pc \<and> connected pc"
proof (cases "live_entry c a")
  case None
  with assms have "connect_new L HF E X now io c a = (c', evs, Inr pc)" by (simp add: Connect_def)
  then obtain c2 pc2 ev2 r2 pc3 where p: "c' = put_peer c2 a pc3" "connected pc3 \<longleftrightarrow> r2 = Inr ()"
    "\<And>e. r2 = Inl e \<Longrightarrow> Inr pc = (Inl e :: peer_conn res)" "r2 = Inr () \<Longrightarrow> (Inr pc :: peer_conn res) = Inr pc3"
    by (rule connect_new_parts) blast
  then have "r2 = Inr ()" by (cases r2) auto
  with p show ?thesis by (simp add: GetPeer_def put_peer_def update_conv')
next
  case (Some e)
  with assms show ?thesis by (auto simp: Connect_def GetPeer_def live_entry_def split: option.splits if_splits)
qed

lemma attempt_proves:
  assumes "snd (attemptHandshake HF E cl io target) = Inr r"
  shows "PeerAddr r = target \<and> (\<exists>sig nonce. proves HF E (PeerPubKey r) sig target nonce)"
proof -
  obtain ms where "attemptHandshake HF E cl io target = (ms, Inr r)" using assms by (metis prod.collapse)
  then show ?thesis by (rule attempt_success) (auto simp: ValidateConnResponse_ok)
qed


text \<open>A node over the connector of the demonstration.\<close>

definition demo_sys :: node_sys where
  "demo_sys = SetConnector (SetSignaling (node_SetDiscovery (new_node_sys demo_hashes (demo_kp 1)) (NewManager None None))
     demo_client) (demo_connector 1)"

definition demo_connect_io :: connect_io where
  "demo_connect_io = \<lparr>ci_now = 0, ci_flow = demo_flow demo_got, ci_found = [], ci_wait = TimedOut,
     ci_attempt = (\<lambda>_ _. fl_hs (demo_flow demo_got)), ci_ctx_err = (\<lambda>_. False), ci_woken = (\<lambda>_. False)\<rparr>"


end
