(* ===== verification/Event_Stream.thy ===== *)
theory Event_Stream
  imports Event_Bus Go_Strconv
begin

text \<open>
  The event stream of the gRPC API (\<open>src/internal/api/events.go\<close>): a client's subscription to every event
  type of the bus, merged by the forwarders of \<open>SubscribeAll\<close> into one channel and sent as messages. The JSON
  encoding of payloads is a parameter that may fail; the outcome of each send is part of the step.
\<close>

section \<open>Messages\<close>

definition event_number :: "event_type \<Rightarrow> int" where
  "event_number t = (case t of
     EventTorBootstrap \<Rightarrow> 0 | EventTorReady \<Rightarrow> 1 | EventPeerDiscovered \<Rightarrow> 2 | EventConnectionReq \<Rightarrow> 3 | EventConnectionState \<Rightarrow> 4
   | EventChatMessage \<Rightarrow> 5 | EventFileOffer \<Rightarrow> 6 | EventFileProgress \<Rightarrow> 7 | EventPeerOnline \<Rightarrow> 8 | EventError \<Rightarrow> 9)"

definition eventTypeNames :: "event_type \<Rightarrow> string" where
  "eventTypeNames t = (case t of
     EventTorBootstrap \<Rightarrow> ''tor_bootstrap'' | EventTorReady \<Rightarrow> ''tor_ready'' | EventPeerDiscovered \<Rightarrow> ''peer_discovered''
   | EventConnectionReq \<Rightarrow> ''connection_request'' | EventConnectionState \<Rightarrow> ''connection_state''
   | EventChatMessage \<Rightarrow> ''chat_message'' | EventFileOffer \<Rightarrow> ''file_offer'' | EventFileProgress \<Rightarrow> ''file_progress''
   | EventPeerOnline \<Rightarrow> ''peer_online'' | EventError \<Rightarrow> ''error'')"

record daemon_event =
  de_Type :: string
  de_Payload :: string

definition eventToProto :: "('p \<Rightarrow> string res) \<Rightarrow> 'p event \<Rightarrow> daemon_event res" where
  "eventToProto marshal e =
     (let n = eventTypeNames (ev_Type e); name = (if n = '''' then ''unknown_'' @ FormatInt (event_number (ev_Type e)) else n)
      in case marshal (ev_Payload e) of
           Inl er \<Rightarrow> Inl ''marshalling event payload''
         | Inr payload \<Rightarrow> Inr \<lparr>de_Type = name, de_Payload = payload\<rparr>)"

text \<open>What the loop meets, in order: the end of the context, or an event with the outcome of its send. The result is
  what was sent and how the loop ended; \<open>None\<close> while it still waits.\<close>

datatype 'p arrival = Cancelled | Arrived "'p event" "unit res"

fun forwardToStream :: "('p \<Rightarrow> string res) \<Rightarrow> 'p arrival list \<Rightarrow> daemon_event list \<times> string option" where
  "forwardToStream marshal [] = ([], None)"
| "forwardToStream marshal (Cancelled # as) = ([], Some ''context canceled'')"
| "forwardToStream marshal (Arrived e sent # as) =
     (case eventToProto marshal e of
        Inl er \<Rightarrow> forwardToStream marshal as
      | Inr msg \<Rightarrow>
          (case sent of
             Inl er \<Rightarrow> ([], Some er)
           | Inr _ \<Rightarrow> (case forwardToStream marshal as of (out, r) \<Rightarrow> (msg # out, r))))"

section \<open>The stream beside the bus\<close>

text \<open>A stream: the bus, the merged channel, the subscription and the forwarder of each type, and what the loop has
  met. The log has what was published since the stream was opened.\<close>

record 'p event_stream =
  es_bus :: "'p event_bus"
  es_merged :: nat
  es_src :: "event_type \<Rightarrow> nat"
  es_fwd :: "event_type \<Rightarrow> 'p forwarder"
  es_met :: "'p arrival list"
  es_log :: "'p event list"

definition streamEvents :: "'p event_bus \<Rightarrow> 'p event_stream" where
  "streamEvents b =
     (case SubscribeAll b of (b', merged, chs) \<Rightarrow>
        \<lparr>es_bus = b', es_merged = merged, es_src = (\<lambda>t. the (map_of (zip allEventTypes chs) t)), es_fwd = (\<lambda>_. FwIdle),
         es_met = [], es_log = []\<rparr>)"

text \<open>Steps: anyone publishes, another subscriber comes or receives, a forwarder runs, the loop takes an event or
  sees the context end.\<close>

inductive es_step :: "'p event_stream \<Rightarrow> 'p event_stream \<Rightarrow> bool" where
  es_publish: "es_step s (s\<lparr>es_bus := Publish (es_bus s) e, es_log := es_log s @ [e]\<rparr>)"
| es_subscribe: "es_step s (s\<lparr>es_bus := fst (Subscribe (es_bus s) t)\<rparr>)"
| es_other: "ch \<noteq> es_merged s \<Longrightarrow> ch \<notin> range (es_src s) \<Longrightarrow> bus_recv (es_bus s) ch = Some (b, e) \<Longrightarrow> es_step s (s\<lparr>es_bus := b\<rparr>)"
| es_forward: "forward_step cd (es_bus s) (es_src s t) (es_merged s) (es_fwd s t) = (b, f) \<Longrightarrow>
     es_step s (s\<lparr>es_bus := b, es_fwd := (es_fwd s)(t := f)\<rparr>)"
| es_take: "bus_recv (es_bus s) (es_merged s) = Some (b, e) \<Longrightarrow> es_step s (s\<lparr>es_bus := b, es_met := es_met s @ [Arrived e sent]\<rparr>)"
| es_cancel: "es_step s (s\<lparr>es_met := es_met s @ [Cancelled]\<rparr>)"

inductive es_reach :: "'p event_bus \<Rightarrow> 'p event_stream \<Rightarrow> bool" for b where
  es_open: "es_reach b (streamEvents b)"
| es_next: "es_reach b s \<Longrightarrow> es_step s s' \<Longrightarrow> es_reach b s'"

section \<open>Wiring\<close>

lemma eventTypeNames_inj: "inj eventTypeNames"
  by (rule injI) (auto simp: eventTypeNames_def split: event_type.splits)

lemma eventTypeNames_nonempty [simp]: "eventTypeNames t \<noteq> ''''"
  by (cases t) (simp_all add: eventTypeNames_def)

lemma eventToProto_type: "eventToProto marshal e = Inr m \<Longrightarrow> de_Type m = eventTypeNames (ev_Type e)"
  by (auto simp: eventToProto_def Let_def split: sum.splits)

text \<open>The channels of the stream: the merged one belongs to no type, each source is subscribed to its type.\<close>

definition wired :: "'p event_stream \<Rightarrow> bool" where
  "wired s \<longleftrightarrow> subs_ok (es_bus s) \<and> es_merged s < next_chan (es_bus s) \<and>
     (\<forall>t. es_merged s \<notin> set (subs (es_bus s) t) \<and> es_src s t \<in> set (subs (es_bus s) t))"

lemma subscribe_all:
  fixes b :: "'p event_bus"
  defines "f \<equiv> \<lambda>(b :: 'p event_bus, chs) t. case Subscribe b t of (b', ch) \<Rightarrow> (b', chs @ [ch])"
  assumes "subs_ok b0" "foldl f (b0, cs) ts = (b', chs)"
  shows "subs_ok b' \<and> next_chan b0 \<le> next_chan b' \<and> (\<forall>t. set (subs b0 t) \<subseteq> set (subs b' t)) \<and>
    (\<forall>t. \<forall>ch \<in> set (subs b' t). ch < next_chan b0 \<longrightarrow> ch \<in> set (subs b0 t)) \<and>
    (\<exists>new. chs = cs @ new \<and> length new = length ts \<and> (\<forall>i < length ts. next_chan b0 \<le> new ! i \<and> new ! i \<in> set (subs b' (ts ! i)))) \<and>
    (\<forall>ch. buffers b0 ch = [] \<longrightarrow> buffers b' ch = []) \<and> (\<forall>ch. next_chan b0 \<le> ch \<and> ch < next_chan b' \<longrightarrow> buffers b' ch = [])"
  using assms(2,3)
proof (induction ts arbitrary: b0 cs)
  case (Cons t ts)
  let ?b1 = "fst (Subscribe b0 t)"
  have ok: "subs_ok ?b1" by (rule subs_ok_Subscribe[OF Cons.prems(1)])
  have run: "foldl f (?b1, cs @ [next_chan b0]) ts = (b', chs)" using Cons.prems(2) by (simp add: f_def Subscribe_def)
  have one: "next_chan ?b1 = Suc (next_chan b0)" "subs ?b1 = (subs b0)(t := subs b0 t @ [next_chan b0])"
    "buffers ?b1 = (buffers b0)(next_chan b0 := [])"
    by (simp_all add: Subscribe_def)
  note IH = Cons.IH[OF ok run]
  from IH obtain new where new: "chs = (cs @ [next_chan b0]) @ new" "length new = length ts"
    "\<forall>i < length ts. Suc (next_chan b0) \<le> new ! i \<and> new ! i \<in> set (subs b' (ts ! i))" unfolding one(1) by blast
  have "next_chan b0 \<in> set (subs b' t)" using IH one(2) by fastforce
  then have "\<forall>i < length (t # ts). next_chan b0 \<le> (next_chan b0 # new) ! i \<and> (next_chan b0 # new) ! i \<in> set (subs b' ((t # ts) ! i))"
    using new(3) by (auto simp: nth_Cons split: nat.splits)
  then have "\<exists>new. chs = cs @ new \<and> length new = length (t # ts) \<and>
      (\<forall>i < length (t # ts). next_chan b0 \<le> new ! i \<and> new ! i \<in> set (subs b' ((t # ts) ! i)))"
    using new by (intro exI[of _ "next_chan b0 # new"]) simp
  moreover have "set (subs b0 t') \<subseteq> set (subs b' t')" for t'
  proof -
    have "set (subs b0 t') \<subseteq> set (subs ?b1 t')" by (auto simp: one(2))
    then show ?thesis using IH by blast
  qed
  moreover have "ch \<in> set (subs b0 t')" if "ch \<in> set (subs b' t')" "ch < next_chan b0" for t' ch
  proof -
    have "ch \<in> set (subs ?b1 t')" using IH that one(1) by auto
    then show ?thesis using that(2) by (auto simp: one(2) split: if_splits)
  qed
  moreover have "buffers b' ch = []" if "buffers b0 ch = []" for ch
    using IH that by (auto simp: one(3))
  moreover have "buffers b' ch = []" if "next_chan b0 \<le> ch" "ch < next_chan b'" for ch
  proof (cases "ch = next_chan b0")
    case True
    then show ?thesis using IH by (auto simp: one(3))
  next
    case False
    then show ?thesis using IH that by (auto simp: one(1))
  qed
  ultimately show ?case using IH one(1) by auto
qed auto

lemma zip_lookup:
  "distinct ks \<Longrightarrow> length vs = length ks \<Longrightarrow> i < length ks \<Longrightarrow> map_of (zip ks vs) (ks ! i) = Some (vs ! i)"
  by (simp add: map_of_zip_nth)

lemma type_index: obtains i where "i < length allEventTypes" "allEventTypes ! i = t"
proof -
  have "t \<in> set allEventTypes" by (cases t) (simp_all add: allEventTypes_def)
  then show thesis using that by (metis in_set_conv_nth)
qed

lemma streamEvents_wired:
  assumes "subs_ok b"
  shows "wired (streamEvents b)" "buffers (es_bus (streamEvents b)) (es_merged (streamEvents b)) = []"
    "buffers (es_bus (streamEvents b)) (es_src (streamEvents b) t) = []"
proof -
  define b0 where "b0 = b\<lparr>buffers := (buffers b)(next_chan b := []), next_chan := Suc (next_chan b)\<rparr>"
  obtain b' chs where run: "foldl (\<lambda>(b, chs) t. case Subscribe b t of (b', ch) \<Rightarrow> (b', chs @ [ch])) (b0, []) allEventTypes = (b', chs)"
    by fastforce
  have ok0: "subs_ok b0" using assms by (auto simp: subs_ok_def b0_def less_Suc_eq)
  note S = subscribe_all[OF ok0 run]
  have s: "es_bus (streamEvents b) = b'" "es_merged (streamEvents b) = next_chan b"
    "es_src (streamEvents b) = (\<lambda>t. the (map_of (zip allEventTypes chs) t))"
    using run by (simp_all add: streamEvents_def SubscribeAll_def b0_def Let_def)
  have fresh: "next_chan b \<notin> set (subs b0 t)" for t using assms by (auto simp: subs_ok_def b0_def)
  have len: "length chs = length allEventTypes" using S by force
  have src: "es_src (streamEvents b) t \<in> set (subs b' t) \<and> next_chan b0 \<le> es_src (streamEvents b) t" for t
  proof -
    obtain i where i: "i < length allEventTypes" "allEventTypes ! i = t" by (rule type_index)
    have "map_of (zip allEventTypes chs) t = Some (chs ! i)"
      using zip_lookup[of allEventTypes chs i] i len by (simp add: allEventTypes_def)
    then show ?thesis using S i by (auto simp: s(3))
  qed
  have "next_chan b < next_chan b0" by (simp add: b0_def)
  then have "next_chan b \<notin> set (subs b' t)" "next_chan b < next_chan b'" for t
    using S fresh[of t] by (blast, linarith)
  then show "wired (streamEvents b)" using S src unfolding wired_def s(1,2) by blast
  show "buffers (es_bus (streamEvents b)) (es_merged (streamEvents b)) = []" using S by (simp add: s b0_def)
  show "buffers (es_bus (streamEvents b)) (es_src (streamEvents b) t) = []"
    using S src[of t] unfolding s(1) subs_ok_def by blast
qed

lemma wired_distinct:
  "wired s \<Longrightarrow> es_src s t \<noteq> es_merged s" "wired s \<Longrightarrow> t \<noteq> t' \<Longrightarrow> es_src s t \<noteq> es_src s t'"
  unfolding wired_def subs_ok_def by (metis, metis disjoint_iff)

lemma wired_frame:
  "wired s \<Longrightarrow> subs b = subs (es_bus s) \<Longrightarrow> next_chan b = next_chan (es_bus s) \<Longrightarrow> es_merged s' = es_merged s \<Longrightarrow>
     es_src s' = es_src s \<Longrightarrow> es_bus s' = b \<Longrightarrow> wired s'"
  by (auto simp: wired_def intro: subs_ok_frame)

section \<open>Order\<close>

text \<open>The events the loop has taken, and those of one type on their way to it.\<close>

definition taken :: "'p arrival list \<Rightarrow> 'p event list" where
  "taken as = concat (map (\<lambda>a. case a of Cancelled \<Rightarrow> [] | Arrived e _ \<Rightarrow> [e]) as)"

lemma taken_simps [simp]: "taken [] = []" "taken (as @ bs) = taken as @ taken bs" "taken [Cancelled] = []" "taken [Arrived e r] = [e]"
  "taken (Cancelled # as) = taken as" "taken (Arrived e r # as) = e # taken as"
  by (simp_all add: taken_def)

definition of_type :: "event_type \<Rightarrow> 'p event list \<Rightarrow> 'p event list" where
  "of_type t es = filter (\<lambda>e. ev_Type e = t) es"

lemma of_type_simps [simp]: "of_type t [] = []" "of_type t (es @ es') = of_type t es @ of_type t es'"
  "of_type t (e # es) = (if ev_Type e = t then e # of_type t es else of_type t es)"
  by (simp_all add: of_type_def)

fun held :: "'p forwarder \<Rightarrow> 'p event list" where
  "held (FwHolding e) = [e]" | "held _ = []"

definition in_flight :: "'p event_stream \<Rightarrow> event_type \<Rightarrow> 'p event list" where
  "in_flight s t = held (es_fwd s t) @ buffers (es_bus s) (es_src s t)"

definition flow :: "'p event_stream \<Rightarrow> event_type \<Rightarrow> 'p event list" where
  "flow s t = of_type t (taken (es_met s)) @ of_type t (buffers (es_bus s) (es_merged s)) @ in_flight s t"

definition ordered :: "'p event_stream \<Rightarrow> bool" where
  "ordered s \<longleftrightarrow> wired s \<and> (\<forall>t. subseq (flow s t) (of_type t (es_log s)) \<and> (\<forall>e \<in> set (in_flight s t). ev_Type e = t))"

lemma orderedI:
  assumes "wired s'" "\<And>t. subseq (flow s' t) (of_type t (es_log s'))" "\<And>t e. e \<in> set (in_flight s' t) \<Longrightarrow> ev_Type e = t"
  shows "ordered s'"
  using assms by (auto simp: ordered_def)

lemma ordered_open: "subs_ok b \<Longrightarrow> ordered (streamEvents b)"
proof -
  assume "subs_ok b"
  note w = streamEvents_wired[OF this]
  have "es_fwd (streamEvents b) t = FwIdle" "es_met (streamEvents b) = []" "es_log (streamEvents b) = []" for t
    by (simp_all add: streamEvents_def split: prod.splits)
  with w show ?thesis by (simp add: ordered_def flow_def in_flight_def)
qed

lemma ordered_publish:
  assumes "ordered s"
  shows "ordered (s\<lparr>es_bus := Publish (es_bus s) e, es_log := es_log s @ [e]\<rparr>)" (is "ordered ?s")
proof -
  have w: "wired s" using assms by (simp add: ordered_def)
  then have ok: "subs_ok (es_bus s)" by (simp add: wired_def)
  note eff = Publish_effect[OF ok]
  have m: "buffers (es_bus ?s) (es_merged ?s) = buffers (es_bus s) (es_merged s)" using w by (simp add: eff(3) wired_def)
  have mine: "es_src s t \<in> set (subs (es_bus s) (ev_Type e)) \<longleftrightarrow> ev_Type e = t" for t
    using w unfolding wired_def subs_ok_def by blast
  let ?in = "\<lambda>t. if ev_Type e = t \<and> length (buffers (es_bus s) (es_src s t)) < subscriberBuffer then [e] else []"
  have fl: "in_flight ?s t = in_flight s t @ ?in t" for t by (simp add: in_flight_def eff(3) mine)
  have "subseq (flow s t @ ?in t) (of_type t (es_log s) @ of_type t [e])" for t
    using assms by (intro list_emb_append_mono) (auto simp: ordered_def)
  moreover have "flow ?s t = flow s t @ ?in t" for t using m by (simp add: flow_def fl)
  moreover have "ev_Type e' = t" if "e' \<in> set (in_flight ?s t)" for e' t
    using assms that unfolding fl by (auto simp: ordered_def split: if_splits)
  moreover have "wired ?s" using wired_frame[OF w eff(1,2)] by simp
  ultimately show ?thesis by (simp add: ordered_def)
qed

lemma ordered_subscribe:
  assumes "ordered s"
  shows "ordered (s\<lparr>es_bus := fst (Subscribe (es_bus s) u)\<rparr>)" (is "ordered ?s")
proof -
  have w: "wired s" using assms by (simp add: ordered_def)
  then have lt: "es_merged s < next_chan (es_bus s)" "es_src s t < next_chan (es_bus s)" for t
    unfolding wired_def subs_ok_def by blast+
  have "buffers (es_bus ?s) ch = buffers (es_bus s) ch" if "ch < next_chan (es_bus s)" for ch
    using that by (simp add: Subscribe_def)
  then have "in_flight ?s t = in_flight s t" "flow ?s t = flow s t" for t
    using lt by (simp_all add: in_flight_def flow_def)
  moreover have "wired ?s" using w lt subs_ok_Subscribe[of "es_bus s" u] by (auto simp: wired_def Subscribe_def)
  ultimately show ?thesis using assms by (simp add: ordered_def)
qed

lemma ordered_other:
  assumes "ordered s" "ch \<noteq> es_merged s" "ch \<notin> range (es_src s)" "bus_recv (es_bus s) ch = Some (b, e)"
  shows "ordered (s\<lparr>es_bus := b\<rparr>)" (is "ordered ?s")
proof -
  have b: "subs b = subs (es_bus s)" "next_chan b = next_chan (es_bus s)" "c \<noteq> ch \<Longrightarrow> buffers b c = buffers (es_bus s) c" for c
    using assms(4) by (auto simp: bus_recv_def split: list.splits)
  have "es_src s t \<noteq> ch" for t using assms(3) by auto
  then have "in_flight ?s t = in_flight s t" "flow ?s t = flow s t" for t using b(3) assms(2) by (simp_all add: in_flight_def flow_def)
  moreover have "wired s" using assms(1) by (simp add: ordered_def)
  ultimately show ?thesis using assms(1) wired_frame[OF _ b(1,2), of ?s] by (simp add: ordered_def)
qed

lemma forward_held:
  "forward_step cd b src dst f = (b', f') \<Longrightarrow> src \<noteq> dst \<Longrightarrow> subseq (held f' @ buffers b' src) (held f @ buffers b src)"
  by (cases f) (auto simp: forward_step_def bus_recv_def split: if_splits option.splits list.splits)

lemma forward_flow:
  "forward_step cd b src dst f = (b', f') \<Longrightarrow> src \<noteq> dst \<Longrightarrow> \<forall>e \<in> set (held f). ev_Type e = t \<Longrightarrow>
     subseq (of_type t (buffers b' dst) @ held f' @ buffers b' src) (of_type t (buffers b dst) @ held f @ buffers b src)"
  by (cases f) (auto simp: forward_step_def bus_recv_def intro: list_emb_append_mono split: if_splits option.splits list.splits)

lemma ordered_forward:
  assumes "ordered s" "forward_step cd (es_bus s) (es_src s u) (es_merged s) (es_fwd s u) = (b, f)"
  shows "ordered (s\<lparr>es_bus := b, es_fwd := (es_fwd s)(u := f)\<rparr>)" (is "ordered ?s")
proof -
  have w: "wired s" using assms(1) by (simp add: ordered_def)
  note d = wired_distinct[OF w]
  have b: "subs b = subs (es_bus s)" "next_chan b = next_chan (es_bus s)"
    using assms(2) by (auto simp: forward_step_def bus_recv_def split: forwarder.splits if_splits option.splits list.splits)
  have ty: "\<forall>e \<in> set (in_flight s t). ev_Type e = t" for t using assms(1) by (simp add: ordered_def)
  have other: "in_flight ?s t = in_flight s t" if "t \<noteq> u" for t
    using assms(2) that d(1)[of t] d(2)[OF that]
    by (auto simp: in_flight_def forward_step_def bus_recv_def split: forwarder.splits if_splits option.splits list.splits)
  have "subseq (in_flight ?s u) (in_flight s u)"
    using forward_held[OF assms(2) d(1)] by (simp add: in_flight_def)
  then have sub: "set (in_flight ?s u) \<subseteq> set (in_flight s u)" by (auto dest: list_emb_set)
  have "subseq (flow ?s t) (flow s t)" for t
  proof (cases "t = u")
    case True
    have "\<forall>e \<in> set (held (es_fwd s u)). ev_Type e = u" using ty[of u] by (simp add: in_flight_def)
    from forward_flow[OF assms(2) d(1) this] show ?thesis unfolding True by (simp add: flow_def in_flight_def list_emb_append_mono)
  next
    case False
    have "of_type t (buffers b (es_merged s)) = of_type t (buffers (es_bus s) (es_merged s))"
      using assms(2) d(1)[of u] ty[of u] False
      by (auto simp: in_flight_def forward_step_def bus_recv_def split: forwarder.splits if_splits option.splits list.splits)
    then show ?thesis using other[OF False] by (simp add: flow_def)
  qed
  then have "subseq (flow ?s t) (of_type t (es_log ?s))" for t
    using assms(1) subseq_order.trans[of "flow ?s t" "flow s t"] by (simp add: ordered_def)
  moreover have "ev_Type e = t" if "e \<in> set (in_flight ?s t)" for e t
    using that other[of t] sub ty[of t] by (cases "t = u") auto
  moreover have "wired ?s" using wired_frame[OF w b] by simp
  ultimately show ?thesis by (intro orderedI)
qed

lemma ordered_take:
  assumes "ordered s" "bus_recv (es_bus s) (es_merged s) = Some (b, e)"
  shows "ordered (s\<lparr>es_bus := b, es_met := es_met s @ [Arrived e r]\<rparr>)" (is "ordered ?s")
proof -
  have w: "wired s" using assms(1) by (simp add: ordered_def)
  have b: "subs b = subs (es_bus s)" "next_chan b = next_chan (es_bus s)"
    "buffers (es_bus s) (es_merged s) = e # buffers b (es_merged s)" "c \<noteq> es_merged s \<Longrightarrow> buffers b c = buffers (es_bus s) c" for c
    using assms(2) by (auto simp: bus_recv_def split: list.splits)
  have "in_flight ?s t = in_flight s t" "flow ?s t = flow s t" for t
    using b(3,4) wired_distinct(1)[OF w, of t] by (simp_all add: in_flight_def flow_def)
  then show ?thesis using assms(1) wired_frame[OF w b(1,2), of ?s] by (simp add: ordered_def)
qed

lemma ordered_cancel: "ordered s \<Longrightarrow> ordered (s\<lparr>es_met := es_met s @ [Cancelled]\<rparr>)"
  by (simp add: ordered_def wired_def flow_def in_flight_def)

lemma ordered_step: "es_step s s' \<Longrightarrow> ordered s \<Longrightarrow> ordered s'"
  by (induction rule: es_step.induct)
    (blast intro: ordered_publish ordered_subscribe ordered_other ordered_forward ordered_take ordered_cancel)+

lemma ordered_reach: "es_reach b s \<Longrightarrow> subs_ok b \<Longrightarrow> ordered s"
  by (induction rule: es_reach.induct) (auto intro: ordered_open ordered_step)

lemma taken_ordered: "ordered s \<Longrightarrow> subseq (of_type t (taken (es_met s))) (of_type t (es_log s))"
  using prefix_imp_subseq[of "of_type t (taken (es_met s))" "flow s t"] subseq_order.trans[of _ "flow s t"]
  by (auto simp: flow_def ordered_def)

text \<open>The messages of a list of events, those that cannot be encoded left out.\<close>

definition messages :: "('p \<Rightarrow> string res) \<Rightarrow> 'p event list \<Rightarrow> daemon_event list" where
  "messages marshal es = List.map_filter (\<lambda>e. case eventToProto marshal e of Inl _ \<Rightarrow> None | Inr m \<Rightarrow> Some m) es"

lemma messages_simps [simp]: "messages marshal [] = []"
  "messages marshal (e # es) = (case eventToProto marshal e of Inl _ \<Rightarrow> messages marshal es | Inr m \<Rightarrow> m # messages marshal es)"
  by (auto simp: messages_def map_filter_simps split: sum.splits)

lemma messages_subseq: "subseq es es' \<Longrightarrow> subseq (messages marshal es) (messages marshal es')"
  by (induction rule: list_emb.induct) (auto split: sum.splits)

lemma sent_of_type:
  "subseq (filter (\<lambda>m. de_Type m = eventTypeNames t) (fst (forwardToStream marshal as))) (messages marshal (of_type t (taken as)))"
proof (induction marshal as rule: forwardToStream.induct)
  case (3 marshal e r as)
  show ?case
  proof (cases "eventToProto marshal e")
    case (Inl er)
    then show ?thesis using 3 by simp
  next
    case (Inr m)
    then have "de_Type m = eventTypeNames t \<longleftrightarrow> ev_Type e = t" using eventToProto_type injD[OF eventTypeNames_inj] by metis
    then show ?thesis using 3 Inr by (auto split: sum.splits prod.splits)
  qed
qed simp_all

text \<open>C40: A client that subscribes sees the events of each type in the order they were published. Under every
  interleaving of publishers, other subscribers, the ten forwarders, the sending loop and the end of the context,
  the messages sent under the name of a type are, in order and each at most once, messages of events of that type
  published since the stream was opened.\<close>

theorem stream_keeps_order:
  assumes "subs_ok b" and "es_reach b s"
  shows "subseq (filter (\<lambda>m. de_Type m = eventTypeNames t) (fst (forwardToStream marshal (es_met s))))
      (messages marshal (filter (\<lambda>e. ev_Type e = t) (es_log s)))"
  using subseq_order.trans[OF sent_of_type messages_subseq[OF taken_ordered[OF ordered_reach[OF assms(2,1)]]]]
  by (simp add: of_type_def)

text \<open>A run: two events of one type and one of another; the forwarders pass all on, and the loop sends two.\<close>

definition demo_ev :: "event_type \<Rightarrow> nat \<Rightarrow> nat event" where
  "demo_ev t n = \<lparr>ev_Type = t, ev_Payload = n\<rparr>"

definition demo_json :: "nat \<Rightarrow> string res" where
  "demo_json n = Inr (FormatInt (int n))"

definition es_run :: "nat event_stream \<Rightarrow> (nat event_stream \<Rightarrow> nat event_stream) list \<Rightarrow> nat event_stream" where
  "es_run s fs = foldl (\<lambda>s f. f s) s fs"

definition pub :: "nat event \<Rightarrow> nat event_stream \<Rightarrow> nat event_stream" where
  "pub e s = s\<lparr>es_bus := Publish (es_bus s) e, es_log := es_log s @ [e]\<rparr>"

definition fwd :: "event_type \<Rightarrow> nat event_stream \<Rightarrow> nat event_stream" where
  "fwd t s = (case forward_step False (es_bus s) (es_src s t) (es_merged s) (es_fwd s t) of
     (b, f) \<Rightarrow> s\<lparr>es_bus := b, es_fwd := (es_fwd s)(t := f)\<rparr>)"

definition tak :: "nat event_stream \<Rightarrow> nat event_stream" where
  "tak s = (case bus_recv (es_bus s) (es_merged s) of
     Some (b, e) \<Rightarrow> s\<lparr>es_bus := b, es_met := es_met s @ [Arrived e (Inr ())]\<rparr> | None \<Rightarrow> s)"

definition demo_es :: "nat event_stream" where
  "demo_es = es_run (streamEvents NewEventBus)
     [pub (demo_ev EventChatMessage 1), pub (demo_ev EventError 2), fwd EventError, fwd EventError, fwd EventChatMessage,
      fwd EventChatMessage, tak, tak]"

lemma es_run_reach:
  assumes "es_reach b s" "\<forall>f \<in> set fs. (\<exists>e. f = pub e) \<or> (\<exists>t. f = fwd t) \<or> f = tak"
  shows "es_reach b (es_run s fs)"
  using assms
proof (induction fs arbitrary: s)
  case (Cons f fs)
  have "es_step s (pub e s)" for e by (simp add: pub_def es_publish)
  moreover have "es_step s (fwd t s)" for t by (auto simp: fwd_def split: prod.splits intro: es_forward)
  moreover have "es_step s (tak s) \<or> tak s = s" by (auto simp: tak_def split: option.splits intro: es_take)
  ultimately have "es_reach b (f s)" using Cons.prems by (auto intro: es_next)
  then show ?case using Cons by (simp add: es_run_def)
qed (simp add: es_run_def)

lemma demo_es_reach: "es_reach NewEventBus demo_es"
  unfolding demo_es_def by (rule es_run_reach[OF es_open]) auto

lemma demo_streamed: "es_met demo_es = [Arrived (demo_ev EventError 2) (Inr ()), Arrived (demo_ev EventChatMessage 1) (Inr ())]"
  by (simp add: demo_es_def es_run_def pub_def fwd_def tak_def streamEvents_def SubscribeAll_def allEventTypes_def
      Subscribe_def NewEventBus_def Publish_def try_send_def forward_step_def bus_recv_def subscriberBuffer_def demo_ev_def)

theorem stream_keeps_order_witness:
  "filter (\<lambda>m. de_Type m = eventTypeNames EventChatMessage) (fst (forwardToStream demo_json (es_met demo_es))) =
     [\<lparr>de_Type = ''chat_message'', de_Payload = ''1''\<rparr>] \<and>
   subseq (filter (\<lambda>m. de_Type m = eventTypeNames EventChatMessage) (fst (forwardToStream demo_json (es_met demo_es))))
      (messages demo_json (filter (\<lambda>e. ev_Type e = EventChatMessage) (es_log demo_es)))"
proof
  show "filter (\<lambda>m. de_Type m = eventTypeNames EventChatMessage) (fst (forwardToStream demo_json (es_met demo_es))) =
     [\<lparr>de_Type = ''chat_message'', de_Payload = ''1''\<rparr>]"
    unfolding demo_streamed by code_simp
qed (rule stream_keeps_order[OF subs_ok_New demo_es_reach])

end
