(* ===== verification/Api_Server.thy ===== *)
theory Api_Server
  imports Node_System Api_Auth Event_Stream
begin

text \<open>
  The RPC handlers of the gRPC server (\<open>src/internal/api/server.go\<close>) over the node: identity and status,
  contacts with their file, connections, messages and files. The contacts file is part of the state, with what a
  failed write leaves behind as an argument; a handler that would block for ever is \<open>None\<close>.
\<close>

section \<open>Handlers\<close>

record api_sys =
  as_node :: node_sys
  as_file :: contacts_file

record status_response =
  st_TorState :: string
  st_OnionAddr :: string
  st_PeerCount :: int
  st_RtSize :: int

definition GetIdentity :: "api_sys \<Rightarrow> string \<times> bytes" where
  "GetIdentity a = (nd_address (ns_node (as_node a)), PublicKey (nd_keypair (ns_node (as_node a))))"

definition GetStatus :: "api_sys \<Rightarrow> status_response" where
  "GetStatus a = \<lparr>st_TorState = TorState (ns_node (as_node a)), st_OnionAddr = node_OnionAddr (ns_node (as_node a)),
     st_PeerCount = PeerCount (as_node a), st_RtSize = wrap32 (int (node_RTSize (as_node a)))\<rparr>"

record debug_response =
  dr_RtSize :: int
  dr_OnionAddr :: string
  dr_RtPeers :: "(string \<times> string \<times> i64) list"
  dr_Connections :: "(string \<times> string \<times> string) list"

definition api_GetDebugInfo :: "api_sys \<Rightarrow> debug_response" where
  "api_GetDebugInfo a =
     (let info = GetDebugInfo (as_node a)
      in \<lparr>dr_RtSize = wrap32 (int (di_RTSize info)), dr_OnionAddr = di_OnionAddr info,
          dr_RtPeers = map (\<lambda>p. (dp_Address p, dp_OnionAddr p, dp_LastSeen p)) (di_RTPeers info),
          dr_Connections = map (\<lambda>c. (dc_Address c, dc_State c, dc_Error c)) (di_Connections info)\<rparr>)"

definition ListContacts :: "api_sys \<Rightarrow> (string \<times> string) list" where
  "ListContacts a = (case ns_contacts (as_node a) of
     None \<Rightarrow> [] | Some cs \<Rightarrow> map (\<lambda>c. (ct_Address c, ct_Alias c)) (ct_List cs))"

text \<open>The call of \<open>Save\<close> in both contact handlers: a write that fails leaves \<open>left\<close> in the file.\<close>

definition save_contacts ::
  "unit res \<Rightarrow> unit res \<Rightarrow> contacts_file \<Rightarrow> contact_store \<Rightarrow> api_sys \<Rightarrow> api_sys \<times> unit rpc" where
  "save_contacts mk wr left cs a =
     (let a1 = a\<lparr>as_node := (as_node a)\<lparr>ns_contacts := Some cs\<rparr>\<rparr>
      in case ct_Save mk wr cs of
           Inr list \<Rightarrow> (a1\<lparr>as_file := Array list\<rparr>, Inr ())
         | Inl e \<Rightarrow> (if e = ''writing contacts file'' then a1\<lparr>as_file := left\<rparr> else a1, Inl (Internal, ''saving contacts'')))"

definition AddContact ::
  "time \<Rightarrow> unit res \<Rightarrow> unit res \<Rightarrow> contacts_file \<Rightarrow> api_sys \<Rightarrow> string \<Rightarrow> string \<Rightarrow> bytes \<Rightarrow> api_sys \<times> unit rpc" where
  "AddContact now mk wr left a addr alias pk =
     (case ns_contacts (as_node a) of
        None \<Rightarrow> (a, Inl (FailedPrecondition, ''contacts not initialized''))
      | Some cs \<Rightarrow>
          save_contacts mk wr left
            (ct_Add now cs \<lparr>ct_Address = addr, ct_Alias = alias, ct_PublicKey = pk, ct_OnionAddr = '''', ct_AddedAt = zero_time,
               ct_LastSeen = zero_time\<rparr>) a)"

definition RemoveContact ::
  "unit res \<Rightarrow> unit res \<Rightarrow> contacts_file \<Rightarrow> api_sys \<Rightarrow> string \<Rightarrow> api_sys \<times> unit rpc" where
  "RemoveContact mk wr left a addr =
     (case ns_contacts (as_node a) of
        None \<Rightarrow> (a, Inl (FailedPrecondition, ''contacts not initialized''))
      | Some cs \<Rightarrow> save_contacts mk wr left (fst (ct_Remove cs addr)) a)"

definition api_Connect ::
  "libp2p \<Rightarrow> hashes \<Rightarrow> ed25519 \<Rightarrow> kex \<Rightarrow> 'w network \<Rightarrow> connect_io \<Rightarrow> 'w \<Rightarrow> api_sys \<Rightarrow> string \<Rightarrow>
     'w \<times> api_sys \<times> state_event list \<times> (bool \<times> string) rpc" where
  "api_Connect L HF E X N io w a addr =
     (case node_Connect L HF E X N io w (as_node a) addr of
        (w', n', evs, Inl e) \<Rightarrow> (w', a\<lparr>as_node := n'\<rparr>, evs, Inr (False, e))
      | (w', n', evs, Inr _) \<Rightarrow> (w', a\<lparr>as_node := n'\<rparr>, evs, Inr (True, ''connected'')))"

definition with_node :: "api_sys \<Rightarrow> (node \<times> unit res) option \<Rightarrow> grpc_code \<Rightarrow> (api_sys \<times> unit rpc) option" where
  "with_node a r code = map_option (\<lambda>(n', x).
     (a\<lparr>as_node := (as_node a)\<lparr>ns_node := n'\<rparr>\<rparr>, case x of Inl e \<Rightarrow> Inl (code, e) | Inr _ \<Rightarrow> Inr ())) r"

definition api_AcceptConnection :: "api_sys \<Rightarrow> string \<Rightarrow> (api_sys \<times> unit rpc) option" where
  "api_AcceptConnection a addr = with_node a (AcceptConnection (ns_node (as_node a)) addr) NotFoundCode"

definition api_RejectConnection :: "api_sys \<Rightarrow> string \<Rightarrow> (api_sys \<times> unit rpc) option" where
  "api_RejectConnection a addr = with_node a (RejectConnection (ns_node (as_node a)) addr ''rejected by user'') NotFoundCode"

definition api_SendMessage :: "api_sys \<Rightarrow> string \<Rightarrow> string \<Rightarrow> string rpc" where
  "api_SendMessage a addr t = (case node_SendMessage (ns_node (as_node a)) addr t of
     Inl e \<Rightarrow> Inl (Internal, ''sending message: '' @ e) | Inr mid \<Rightarrow> Inr mid)"

text \<open>\<open>SendFile\<close>: the progress message sent at the end, if any, with the outcome of its send.\<close>

definition api_SendFile :: "unit rpc \<Rightarrow> api_sys \<Rightarrow> string \<Rightarrow> string \<Rightarrow> (string \<times> bool) option \<times> unit rpc" where
  "api_SendFile snt a addr path = (case SendFile (ns_node (as_node a)) addr path of
     Inl e \<Rightarrow> (None, Inl (Internal, ''sending file: '' @ e))
   | Inr tid \<Rightarrow> (Some (tid, True), snt))"

definition api_AcceptFile :: "api_sys \<Rightarrow> string \<Rightarrow> string \<Rightarrow> unit rpc" where
  "api_AcceptFile a tid path = (case node_AcceptFile (ns_node (as_node a)) tid path of
     Inl e \<Rightarrow> Inl (Internal, ''accepting file: '' @ e) | Inr _ \<Rightarrow> Inr ())"

definition api_RejectFile :: "api_sys \<Rightarrow> string \<Rightarrow> unit rpc" where
  "api_RejectFile a tid = (case node_RejectFile (ns_node (as_node a)) tid ''rejected by user'' of
     Inl e \<Rightarrow> Inl (Internal, ''rejecting file: '' @ e) | Inr _ \<Rightarrow> Inr ())"

definition api_AddNode ::
  "'w network \<Rightarrow> unit res \<Rightarrow> unit res \<Rightarrow> 'w \<Rightarrow> api_sys \<Rightarrow> string \<Rightarrow> 'w \<times> api_sys \<times> int rpc" where
  "api_AddNode N mk wr w a onion = (case node_AddNode N mk wr w (as_node a) onion of
     (w', n', Inl e) \<Rightarrow> (w', a\<lparr>as_node := n'\<rparr>, Inl (Internal, ''adding node: '' @ e))
   | (w', n', Inr k) \<Rightarrow> (w', a\<lparr>as_node := n'\<rparr>, Inr (wrap32 (int k))))"

section \<open>Contacts across restarts\<close>

text \<open>Loading the store when the daemon starts: an error leaves it empty, a \<open>null\<close> element crashes the daemon.\<close>

definition load_at_start :: "contacts_file \<Rightarrow> contact_store option" where
  "load_at_start f = (case ct_Load f NewStore of
     Inr cs \<Rightarrow> Some cs
   | Inl e \<Rightarrow> if e = ''panic: nil pointer dereference'' then None else Some NewStore)"

inductive contacts_reach :: "api_sys \<Rightarrow> bool" where
  cr_start: "load_at_start f = Some cs \<Longrightarrow> contacts_reach \<lparr>as_node = SetContacts n cs, as_file = f\<rparr>"
| cr_add: "contacts_reach a \<Longrightarrow> contacts_reach (fst (AddContact now mk wr left a addr alias pk))"
| cr_remove: "contacts_reach a \<Longrightarrow> contacts_reach (fst (RemoveContact mk wr left a addr))"

text \<open>The contact book in memory.\<close>

definition book_of :: "api_sys \<Rightarrow> contact_store" where
  "book_of a = (case ns_contacts (as_node a) of Some cs \<Rightarrow> cs | None \<Rightarrow> NewStore)"

definition book_ok :: "api_sys \<Rightarrow> bool" where
  "book_ok a \<longleftrightarrow> (\<exists>cs. ns_contacts (as_node a) = Some cs \<and> contacts_ok cs)"

lemma load_at_start_ok: "load_at_start f = Some cs \<Longrightarrow> contacts_ok cs"
  by (auto simp: load_at_start_def intro: contacts_ok_New contacts_ok_Load split: sum.splits if_splits)

lemma save_contacts_book:
  "save_contacts mk wr left cs a = (a', r) \<Longrightarrow> ns_contacts (as_node a') = Some cs"
  by (auto simp: save_contacts_def Let_def split: sum.splits if_splits)

lemma book_ok_reach: "contacts_reach a \<Longrightarrow> book_ok a"
proof (induction rule: contacts_reach.induct)
  case (cr_start f cs n)
  then show ?case by (simp add: book_ok_def SetContacts_def load_at_start_ok)
next
  case (cr_add a now mk wr left addr nick pk)
  then obtain cs where "ns_contacts (as_node a) = Some cs" "contacts_ok cs" by (auto simp: book_ok_def)
  then show ?case
    by (auto simp: AddContact_def book_ok_def save_contacts_book[OF surjective_pairing] intro: contacts_ok_Add)
next
  case (cr_remove a mk wr left addr)
  then obtain cs where "ns_contacts (as_node a) = Some cs" "contacts_ok cs" by (auto simp: book_ok_def)
  then show ?case
    by (auto simp: RemoveContact_def book_ok_def save_contacts_book[OF surjective_pairing] intro: contacts_ok_Remove)
qed

lemma save_contacts_durable:
  assumes "save_contacts mk wr left cs a = (a', Inr ())" "contacts_ok cs"
  shows "load_at_start (as_file a') = Some cs"
  using assms Save_then_Load[of cs mk wr _ NewStore]
  by (auto simp: save_contacts_def load_at_start_def Let_def split: sum.splits if_splits)

text \<open>C36: A contact change that the RPC reports as done survives a restart. In every state reached by starting the
  daemon and calling the contact RPCs, whatever the file held and whatever the disk does: a successful \<open>AddContact\<close> or
  \<open>RemoveContact\<close> changes exactly the contact it names, with the alias and key of the request, and a daemon that
  starts from the file then has exactly the contacts that are in memory.\<close>

theorem contact_change_durable:
  assumes "contacts_reach a"
  shows "(AddContact now mk wr left a addr nick pk = (a', Inr ()) \<longrightarrow>
      load_at_start (as_file a') = Some (book_of a') \<and>
      (\<exists>c. ct_Get (book_of a') addr = Some c \<and> ct_Address c = addr \<and> ct_Alias c = nick \<and> ct_PublicKey c = pk) \<and>
      (\<forall>b. b \<noteq> addr \<longrightarrow> ct_Get (book_of a') b = ct_Get (book_of a) b)) \<and>
    (RemoveContact mk wr left a addr = (a', Inr ()) \<longrightarrow>
      load_at_start (as_file a') = Some (book_of a') \<and>
      (\<forall>b. ct_Get (book_of a') b = (if b = addr then None else ct_Get (book_of a) b)))"
proof -
  obtain cs where cs: "ns_contacts (as_node a) = Some cs" "contacts_ok cs" using book_ok_reach[OF assms] by (auto simp: book_ok_def)
  let ?c = "\<lparr>ct_Address = addr, ct_Alias = nick, ct_PublicKey = pk, ct_OnionAddr = '''', ct_AddedAt = zero_time, ct_LastSeen = zero_time\<rparr>"
  have get: "ct_Get (ct_Add now cs ?c) b = (if b = addr then ct_Get (ct_Add now cs ?c) addr else ct_Get cs b)"
    "\<exists>c. ct_Get (ct_Add now cs ?c) addr = Some c \<and> ct_Address c = addr \<and> ct_Alias c = nick \<and> ct_PublicKey c = pk"
    "ct_Get (fst (ct_Remove cs addr)) b = (if b = addr then None else ct_Get cs b)" for b
    using contacts_ok_key[OF cs(2), of addr]
    by (auto simp: ct_Get_def ct_Add_def ct_Remove_def update_conv' delete_conv' split: option.splits)
  show ?thesis
  proof (intro conjI impI)
    assume "AddContact now mk wr left a addr nick pk = (a', Inr ())"
    then have run: "save_contacts mk wr left (ct_Add now cs ?c) a = (a', Inr ())" by (simp add: AddContact_def cs(1))
    have book: "book_of a' = ct_Add now cs ?c" "book_of a = cs" using save_contacts_book[OF run] cs(1) by (simp_all add: book_of_def)
    show "load_at_start (as_file a') = Some (book_of a')"
      unfolding book by (rule save_contacts_durable[OF run contacts_ok_Add[OF cs(2)]])
    show "\<exists>c. ct_Get (book_of a') addr = Some c \<and> ct_Address c = addr \<and> ct_Alias c = nick \<and> ct_PublicKey c = pk"
      unfolding book by (rule get(2))
    show "\<forall>b. b \<noteq> addr \<longrightarrow> ct_Get (book_of a') b = ct_Get (book_of a) b" unfolding book using get(1) by simp
  next
    assume "RemoveContact mk wr left a addr = (a', Inr ())"
    then have run: "save_contacts mk wr left (fst (ct_Remove cs addr)) a = (a', Inr ())" by (simp add: RemoveContact_def cs(1))
    have book: "book_of a' = fst (ct_Remove cs addr)" "book_of a = cs" using save_contacts_book[OF run] cs(1) by (simp_all add: book_of_def)
    show "load_at_start (as_file a') = Some (book_of a')"
      unfolding book by (rule save_contacts_durable[OF run contacts_ok_Remove[OF cs(2)]])
    show "\<forall>b. ct_Get (book_of a') b = (if b = addr then None else ct_Get (book_of a) b)" unfolding book using get(3) by simp
  qed
qed

text \<open>A contact change that the RPC reports as failed is in force all the same. When the file holds the contacts in
  memory and its directory cannot be created, \<open>AddContact\<close> and \<open>RemoveContact\<close> answer with an internal error; the
  contact is then trusted, respectively forgotten, until the daemon restarts, and the restart brings back the contacts from
  before the call.\<close>

theorem failed_contact_change_in_force:
  assumes "contacts_reach a" and "load_at_start (as_file a) = Some (book_of a)" and "mk = Inl e"
  shows "(\<exists>m. snd (AddContact now mk wr left a addr nick pk) = Inl (Internal, m)) \<and>
    ct_knows (book_of (fst (AddContact now mk wr left a addr nick pk))) addr \<and>
    load_at_start (as_file (fst (AddContact now mk wr left a addr nick pk))) = Some (book_of a) \<and>
    (\<exists>m. snd (RemoveContact mk wr left a addr) = Inl (Internal, m)) \<and>
    \<not> ct_knows (book_of (fst (RemoveContact mk wr left a addr))) addr \<and>
    load_at_start (as_file (fst (RemoveContact mk wr left a addr))) = Some (book_of a)"
proof -
  obtain cs where cs: "ns_contacts (as_node a) = Some cs" using book_ok_reach[OF assms(1)] by (auto simp: book_ok_def)
  have fail: "\<exists>m. snd (save_contacts mk wr left x a) = Inl (Internal, m)"
    "as_file (fst (save_contacts mk wr left x a)) = as_file a" "book_of (fst (save_contacts mk wr left x a)) = x" for x
    using assms(3) by (auto simp: save_contacts_def ct_Save_def Let_def book_of_def)
  show ?thesis using assms(2) by (simp add: AddContact_def RemoveContact_def cs fail book.knows_add book.knows_drop)
qed

section \<open>Status\<close>

lemma wrap32_small: "0 \<le> n \<Longrightarrow> n < 2 ^ 31 \<Longrightarrow> wrap32 n = n"
  by (rule wrap32_id) simp_all

text \<open>The numbers of the status are exact. The routing table of a reachable discovery manager is never larger than
  3200 peers and a connector reached by connects and disconnects has no more active peers than its limit, so the
  conversions to 32 bits lose nothing: the status reports the size of the table and the number of active
  connections, and the debug information lists as many peers as it reports.\<close>

theorem status_exact:
  assumes "ns_discovery (as_node a) = Some m" and "mg_reach HF N m out"
    and "ns_connector (as_node a) = Some (foldl (conn_step L HF E X) (NewConnector HF cf) ops)"
    and "cc_MaxPeers cf < 2 ^ 31"
  shows "st_RtSize (GetStatus a) = int (length (ListPeers m)) \<and> st_RtSize (GetStatus a) \<le> 3200 \<and>
    st_PeerCount (GetStatus a) = int (length (ActiveConnections (as_node a))) \<and>
    dr_RtSize (api_GetDebugInfo a) = int (length (dr_RtPeers (api_GetDebugInfo a))) \<and>
    dr_RtSize (api_GetDebugInfo a) = st_RtSize (GetStatus a)"
proof -
  have ok: "dht_ok m" using mg_reach_inv[OF assms(2)] by simp
  have size: "RTSize m = length (ListPeers m)" by (simp add: RTSize_def ListPeers_def Size_AllPeers split: option.splits)
  have "RTSize m \<le> NumBuckets * K"
    using ok Size_bound by (auto simp: RTSize_def dht_ok_def dest: dht_invD split: option.splits)
  then have small: "RTSize m \<le> 3200" by (simp add: NumBuckets_def IDLength_def K_def)
  let ?c = "foldl (conn_step L HF E X) (NewConnector HF cf) ops"
  have "limit_ok (NewConnector HF cf)" by (simp add: limit_ok_def NewConnector_def active_count_def ActivePeers_def)
  then have "limit_ok ?c" by (rule conn_steps_limit)
  then have "int (length (ActivePeers ?c)) < 2 ^ 31"
    using assms(4) conn_steps_max[of L HF E X "NewConnector HF cf" ops]
    by (simp add: limit_ok_def active_count_def NewConnector_def split: if_splits)
  then have peers: "wrap32 (int (length (ActivePeers ?c))) = int (length (ActivePeers ?c))" by (intro wrap32_small) simp_all
  have rt: "wrap32 (int (RTSize m)) = int (RTSize m)" using small by (intro wrap32_small) simp_all
  show ?thesis
    using rt small assms(1,3) size peers
    by (simp add: GetStatus_def node_RTSize_def PeerCount_def ActiveConnections_def api_GetDebugInfo_def GetDebugInfo_def Let_def)
qed

section \<open>Concrete runs\<close>

definition demo_api :: api_sys where
  "demo_api = \<lparr>as_node = SetContacts demo_sys NewStore, as_file = NoFile\<rparr>"

lemma demo_api_reach: "contacts_reach demo_api" "load_at_start (as_file demo_api) = Some (book_of demo_api)"
proof -
  have l: "load_at_start NoFile = Some NewStore" by (simp add: load_at_start_def ct_Load_def)
  then show "contacts_reach demo_api" unfolding demo_api_def by (rule cr_start)
  show "load_at_start (as_file demo_api) = Some (book_of demo_api)"
    using l by (simp add: demo_api_def book_of_def SetContacts_def)
qed

theorem contact_change_durable_witness:
  "\<exists>a'. AddContact 7 (Inr ()) (Inr ()) NoFile demo_api ''Eabc'' ''ann'' [1, 2] = (a', Inr ()) \<and>
     load_at_start (as_file a') = Some (book_of a') \<and> ct_knows (book_of a') ''Eabc''"
proof -
  obtain a' where run: "AddContact 7 (Inr ()) (Inr ()) NoFile demo_api ''Eabc'' ''ann'' [1, 2] = (a', Inr ())"
    by (simp add: AddContact_def demo_api_def SetContacts_def save_contacts_def ct_Save_def ct_Add_def NewStore_def Let_def
        json_time_ok_def go_time)
  from contact_change_durable[OF demo_api_reach(1), of 7 "Inr ()" "Inr ()" NoFile "''Eabc''" "''ann''" "[1, 2]" a'] run
  show ?thesis by (auto simp: ct_knows_def)
qed

theorem failed_contact_change_in_force_witness:
  "ct_knows (book_of (fst (AddContact 7 (Inl ''read-only file system'') (Inr ()) NoFile demo_api ''Eabc'' ''ann'' [1, 2]))) ''Eabc'' \<and>
   load_at_start (as_file (fst (AddContact 7 (Inl ''read-only file system'') (Inr ()) NoFile demo_api ''Eabc'' ''ann'' [1, 2]))) = Some []"
  using failed_contact_change_in_force[OF demo_api_reach refl, of 7 "''read-only file system''" "Inr ()" NoFile "''Eabc''" "''ann''" "[1, 2]"]
  by (simp add: book_of_def demo_api_def SetContacts_def NewStore_def)

theorem status_exact_witness:
  "st_RtSize (GetStatus demo_api) = 0 \<and> st_PeerCount (GetStatus demo_api) = int (length (ActiveConnections demo_sys))"
proof -
  have m: "ns_discovery (as_node demo_api) = Some (NewManager None None)"
    "ns_connector (as_node demo_api) = Some (foldl (conn_step demo_libp2p demo_hashes demo_ed25519 demo_kex) (demo_connector 1) [])"
    by (simp_all add: demo_api_def demo_sys_def SetContacts_def SetConnector_def SetSignaling_def node_SetDiscovery_def)
  have r: "mg_reach demo_hashes demo_net (NewManager None None) []" by (rule mg_new) simp
  from status_exact[OF m(1) r m(2)[unfolded demo_connector_def]] show ?thesis
    by (simp add: ListPeers_def NewManager_def demo_api_def ActiveConnections_def SetContacts_def)
qed

end
