(* ===== verification/Command_Line.thy ===== *)
theory Command_Line
  imports Filepath Api_Auth
begin

text \<open>
  The command line (\<open>src/main.go\<close>), the configuration it makes (\<open>src/internal/daemon/config.go\<close>) and what the
  daemon reads of it before it serves (\<open>listen\<close> and the admin key in \<open>src/internal/daemon/daemon.go\<close>). Flags are
  their values after parsing; the home directory is an argument, empty when it cannot be determined. Files and
  listeners are outcomes given as arguments.
\<close>

section \<open>Configuration\<close>

record config =
  DataDir :: string
  Passphrase :: string
  SocketPath :: string
  TCPAddr :: string
  AdminKey :: string
  DisableTor :: bool
  TorPath :: string
  DisableP2P :: bool
  P2PPort :: int
  RTMaxAge :: duration

definition DefaultConfig :: "string \<Rightarrow> config" where
  "DefaultConfig home =
     (let dataDir = Join home ''.ensemble''
      in \<lparr>DataDir = dataDir, Passphrase = '''', SocketPath = Join dataDir ''ensemble.sock'', TCPAddr = '''', AdminKey = '''',
          DisableTor = False, TorPath = '''', DisableP2P = False, P2PPort = 0, RTMaxAge = 0\<rparr>)"

text \<open>The flags of the daemon; the admin key defaults to the environment variable.\<close>

record flags =
  fl_data_dir :: string
  fl_api_addr :: string
  fl_api_socket :: string
  fl_admin_key :: string
  fl_tor_path :: string

definition daemon_config :: "string \<Rightarrow> flags \<Rightarrow> config" where
  "daemon_config home f =
     (let c0 = DefaultConfig home;
          c1 = (if fl_data_dir f \<noteq> '''' then c0\<lparr>DataDir := fl_data_dir f, SocketPath := Join (fl_data_dir f) ''ensemble.sock''\<rparr> else c0);
          c2 = (if fl_api_addr f \<noteq> '''' then c1\<lparr>TCPAddr := fl_api_addr f, SocketPath := ''''\<rparr> else c1);
          c3 = (if fl_api_socket f \<noteq> '''' then c2\<lparr>SocketPath := fl_api_socket f\<rparr> else c2);
          c4 = (if fl_admin_key f \<noteq> '''' then c3\<lparr>AdminKey := fl_admin_key f\<rparr> else c3)
      in if fl_tor_path f \<noteq> '''' then c4\<lparr>TorPath := fl_tor_path f\<rparr> else c4)"

text \<open>Where the client commands (\<open>attach\<close>, \<open>debug\<close>, \<open>add-node\<close>) dial.\<close>

definition client_target :: "string \<Rightarrow> string \<Rightarrow> string \<Rightarrow> string" where
  "client_target home addr socketPath =
     (if addr \<noteq> '''' then addr
      else if socketPath \<noteq> '''' then ''unix://'' @ socketPath
      else ''unix://'' @ Join (Join home ''.ensemble'') ''ensemble.sock'')"

datatype grpc_option = WithTLS | WithTLSInsecureSkipVerify

definition grpcTLSOptions :: "bool \<Rightarrow> bool \<Rightarrow> grpc_option list" where
  "grpcTLSOptions useTLS tlsInsecure =
     (if tlsInsecure then [WithTLSInsecureSkipVerify] else if useTLS then [WithTLS] else [])"

section \<open>The admin key\<close>

text \<open>\<open>keygen\<close>: the seed file written and the public key printed.\<close>

definition runKeygen :: "ed25519 \<Rightarrow> bytes res \<Rightarrow> unit res \<Rightarrow> (bytes \<times> string) res" where
  "runKeygen E rand_seed wr =
     (case Generate E rand_seed of
        Inl e \<Rightarrow> Inl ''generating keypair''
      | Inr kp \<Rightarrow> (case wr of Inl e \<Rightarrow> Inl ''writing key file'' | Inr _ \<Rightarrow> Inr (Seed kp, hex_encode (PublicKey kp))))"

definition loadAuthKey :: "ed25519 \<Rightarrow> bytes res \<Rightarrow> bytes res" where
  "loadAuthKey E file =
     (case file of
        Inl e \<Rightarrow> Inl ''reading seed file''
      | Inr seed \<Rightarrow> if length seed \<noteq> SeedSize then Inl ''invalid seed file'' else Inr (ed_new_key E seed))"

text \<open>The options of the gRPC server: the key its interceptors compare with, if any.\<close>

definition grpc_options :: "config \<Rightarrow> bytes option res" where
  "grpc_options c =
     (if AdminKey c = '''' then Inr None
      else (case hex_decode (AdminKey c) of
              None \<Rightarrow> Inl ''invalid admin key: must be 64 hex chars (32 bytes Ed25519 public key)''
            | Some adminPub \<Rightarrow>
                if length adminPub \<noteq> 32 then Inl ''invalid admin key: must be 64 hex chars (32 bytes Ed25519 public key)''
                else Inr (Some adminPub)))"

section \<open>Listeners\<close>

datatype endpoint = Tcp string | Unix string

definition configured :: "config \<Rightarrow> endpoint list" where
  "configured c = (if TCPAddr c \<noteq> '''' then [Tcp (TCPAddr c)] else []) @ (if SocketPath c \<noteq> '''' then [Unix (SocketPath c)] else [])"

text \<open>\<open>listen\<close>: the endpoints left open, and the listeners kept. \<open>nl\<close> is the outcome of opening each.\<close>

definition listen :: "(endpoint \<Rightarrow> unit res) \<Rightarrow> config \<Rightarrow> endpoint list \<times> endpoint list res" where
  "listen nl c =
     (case (if TCPAddr c \<noteq> '''' then (case nl (Tcp (TCPAddr c)) of Inl e \<Rightarrow> Inl ''listening on TCP'' | Inr _ \<Rightarrow> Inr [Tcp (TCPAddr c)])
            else Inr []) of
        Inl e \<Rightarrow> ([], Inl e)
      | Inr ls \<Rightarrow>
          (let finish = (\<lambda>ls. if ls = [] then ([], Inl ''no API listeners configured (set --api-addr or --api-socket)'') else (ls, Inr ls))
           in if SocketPath c = '''' then finish ls
              else (case nl (Unix (SocketPath c)) of
                      Inl e \<Rightarrow> (foldl (\<lambda>opened l. removeAll l opened) ls ls, Inl ''listening on socket'')
                    | Inr _ \<Rightarrow> finish (ls @ [Unix (SocketPath c)]))))"

section \<open>Properties\<close>

lemma Join_ne: "b \<noteq> '''' \<Longrightarrow> plain b \<Longrightarrow> Join a b \<noteq> ''''"
proof -
  assume b: "b \<noteq> ''''" "plain b"
  have join: "join_path (es @ [b]) \<noteq> ''''" for es using b(1) by (induction es rule: join_path.induct) (auto simp: neq_Nil_conv)
  have "clean_elems b = [b]"
    using b by (simp add: clean_elems_def split_path_plain plain_def clean_step_def)
  then show ?thesis
    using b join[of "clean_elems a"] by (auto simp: Join_def Clean_def path_of_def clean_elems_Join_plain)
qed

lemma plain_names: "plain ''ensemble.sock''" "plain ''.ensemble''"
  by (simp_all add: plain_def slash_def)

lemma daemon_config_configured: "configured (daemon_config home f) \<noteq> []"
  using Join_ne[of "''ensemble.sock''"] plain_names by (simp add: configured_def daemon_config_def DefaultConfig_def Let_def)

lemma listen_exact:
  "case listen nl c of
      (opened, Inr ls) \<Rightarrow> ls = configured c \<and> opened = ls \<and> ls \<noteq> [] \<and> list_all (\<lambda>ep. \<not> isl (nl ep)) ls
    | (opened, Inl e) \<Rightarrow> opened = [] \<and> (configured c = [] \<or> list_ex (\<lambda>ep. isl (nl ep)) (configured c))"
  by (auto simp: listen_def configured_def Let_def split: sum.splits if_splits)

text \<open>The listeners are all or none. \<open>listen\<close> succeeds exactly when something is configured and every configured
  endpoint opens; it then keeps exactly these, TCP first. When it fails, whatever it had opened is closed again. The
  command line always configures an endpoint, and without flags the client commands dial the socket the daemon
  listens on.\<close>

theorem listen_all_or_none:
  "(case listen nl c of
      (opened, Inr ls) \<Rightarrow> ls = configured c \<and> opened = ls \<and> ls \<noteq> [] \<and> list_all (\<lambda>ep. \<not> isl (nl ep)) ls
    | (opened, Inl e) \<Rightarrow> opened = [] \<and> (configured c = [] \<or> list_ex (\<lambda>ep. isl (nl ep)) (configured c))) \<and>
   configured (daemon_config home f) \<noteq> [] \<and>
   client_target home '''' '''' = ''unix://'' @ SocketPath (DefaultConfig home)"
  by (intro conjI listen_exact) (simp_all add: daemon_config_configured client_target_def DefaultConfig_def Let_def)

text \<open>C37: A generated admin key works end to end. The key pair that \<open>keygen\<close> makes, its public key given to the
  daemon by flag or environment and its seed file to the client: the daemon starts with that key as its only admin,
  the client loads the private key, and its calls are accepted while the clocks differ by less than five minutes
  less a second; the calls of a client with a seed file of another public key are refused.\<close>

theorem keygen_admin_works:
  assumes "ed25519_keys E" "ed25519_correct E" "signatures_nonempty E" and "length seed = 32"
    and "runKeygen E (Inr seed) (Inr ()) = Inr (file, pubHex)" and "fl_admin_key f = pubHex"
    and "0 \<le> t" "t < 2 ^ 62" and "\<bar>now - t\<bar> \<le> authFreshness - second"
  shows "\<exists>pk k. grpc_options (daemon_config home f) = Inr (Some pk) \<and> loadAuthKey E (Inr file) = Inr k \<and>
    verifyAuth E now (Some (received (GetRequestMetadata E t k))) pk = Inr () \<and>
    (\<forall>file' k'. loadAuthKey E (Inr file') = Inr k' \<longrightarrow> ed_public k' \<noteq> pk \<longrightarrow>
       (\<exists>e. verifyAuth E now (Some (received (GetRequestMetadata E t k'))) pk = Inl e))"
proof -
  let ?k = "ed_new_key E seed"
  have fk: "file = seed" "pubHex = hex_encode (ed_public ?k)"
    using assms(1,4,5) by (auto simp: runKeygen_def Generate_def Seed_def PublicKey_def ed25519_keys_def Let_def)
  have len: "length (ed_public ?k) = 32" using assms(1,4) by (auto simp: ed25519_keys_def ed_public_def)
  then have "pubHex \<noteq> ''''" using fk(2) by auto
  then have opts: "grpc_options (daemon_config home f) = Inr (Some (ed_public ?k))"
    using len assms(6) fk(2) by (simp add: grpc_options_def daemon_config_def Let_def)
  have load: "loadAuthKey E (Inr file) = Inr ?k" using assms(4) fk(1) by (simp add: loadAuthKey_def SeedSize_def)
  have "fresh now (t div second)" by (rule fresh_near[OF assms(7-9)])
  then have ok: "verifyAuth E now (Some (received (GetRequestMetadata E t ?k))) (ed_public ?k) = Inr ()"
    using assms(7,8) by (intro signed_token[OF assms(1-4)]) (simp_all add: second_def)
  have "\<exists>e. verifyAuth E now (Some (received (GetRequestMetadata E t k'))) (ed_public ?k) = Inl e" if "ed_public k' \<noteq> ed_public ?k" for k'
    using that by (simp add: verifyAuth_def received_headers Let_def)
  with opts load ok show ?thesis by blast
qed

theorem keygen_admin_works_witness:
  "\<exists>pk k. grpc_options (daemon_config ''/root'' \<lparr>fl_data_dir = '''', fl_api_addr = ''localhost:9090'', fl_api_socket = '''',
        fl_admin_key = hex_encode (ed_public (ed_new_key demo_ed25519 (replicate 32 7))), fl_tor_path = ''''\<rparr>) = Inr (Some pk) \<and>
     verifyAuth demo_ed25519 (1000 * second) (Some (received (GetRequestMetadata demo_ed25519 (1200 * second) k))) pk = Inr ()"
proof -
  have g: "runKeygen demo_ed25519 (Inr (replicate 32 7)) (Inr ()) =
      Inr (replicate 32 7, hex_encode (ed_public (ed_new_key demo_ed25519 (replicate 32 7))))"
    using demo_auth(1) by (simp add: runKeygen_def Generate_def Seed_def PublicKey_def ed25519_keys_def Let_def)
  from keygen_admin_works[OF demo_auth _ g, of "\<lparr>fl_data_dir = '''', fl_api_addr = ''localhost:9090'', fl_api_socket = '''',
        fl_admin_key = hex_encode (ed_public (ed_new_key demo_ed25519 (replicate 32 7))), fl_tor_path = ''''\<rparr>"
      "1200 * second" "1000 * second" "''/root''"]
  show ?thesis by (simp add: authFreshness_def go_time) blast
qed

end
