(* ===== verification/Daemon_Start.thy ===== *)
theory Daemon_Start
  imports Register_Service Access_Control Api_Server Command_Line Keystore
begin

text \<open>
  The daemon (\<open>src/internal/daemon/daemon.go\<close>): identity, start-up, the goroutine that waits for Tor, the wiring of
  discovery, signaling and connector, and the service lookup handed to chat and file transfer. \<open>Start\<close> and the
  goroutine run side by side, so each is a program counter and every statement that touches shared fields is a
  step of its own; the RPC clients that register and end services are steps too. The discovery manager is shared
  by pointer between the node and the registry: it is kept in the registry once wired there, and copied to the node.
\<close>

section \<open>Identity\<close>

definition loadOrGenerateIdentity ::
  "kex \<Rightarrow> argon \<Rightarrow> ed25519 \<Rightarrow> ks_io \<Rightarrow> disk \<Rightarrow> config \<Rightarrow> keystore option \<times> disk \<times> keypair res" where
  "loadOrGenerateIdentity X A E io dk c =
     (case NewKeystore io dk (DataDir c) (Passphrase c) of
        (dk1, Inl e) \<Rightarrow> (None, dk1, Inl ''opening keystore'')
      | (dk1, Inr ks) \<Rightarrow>
          (case Keystore.GetOrGenerate X A E io ks dk1 NodeService of
             (ks', dk2, Inl e) \<Rightarrow> (Some ks', dk2, Inl ''loading node identity'')
           | (ks', dk2, Inr kp) \<Rightarrow> (Some ks', dk2, Inr kp)))"

section \<open>State\<close>

datatype start_pc = STor | SOptions | SApi | SListen | SServing | SFailed string

datatype tor_pc =
    TOff | TWaiting | TCreate | TAttach | TRegister | TListener service | TPublish service | TWire service | TDone

text \<open>\<open>dm_api\<close> is the API server once created, with whether the registry is attached to it; \<open>dm_sessions\<close> are
  the services registered over the API.\<close>

record 'k daemon =
  dm_cfg :: config
  dm_sys :: node_sys
  dm_engine :: "'k engine"
  dm_registry :: "(manager, 'k) registry option"
  dm_api :: "bool option"
  dm_grpc :: "bytes option option"
  dm_listeners :: "endpoint list"
  dm_sig :: "server option"
  dm_sessions :: "string list"
  dm_start :: start_pc
  dm_tor :: tor_pc

text \<open>\<open>Start\<close> up to \<open>startTor\<close>: the node with its contacts, and the host unless it is disabled or fails.\<close>

definition Start_node :: "hashes \<Rightarrow> keypair \<Rightarrow> contacts_file \<Rightarrow> bool \<Rightarrow> config \<Rightarrow> node_sys option" where
  "Start_node HF kp f host_ok c =
     (case load_at_start f of
        None \<Rightarrow> None
      | Some cs \<Rightarrow>
          (let s = SetContacts (new_node_sys HF kp) cs in Some (if \<not> DisableP2P c \<and> host_ok then SetHost s else s)))"

definition daemon_init :: "config \<Rightarrow> node_sys \<Rightarrow> 'k engine \<Rightarrow> 'k daemon" where
  "daemon_init c s e =
     \<lparr>dm_cfg = c, dm_sys = s, dm_engine = e, dm_registry = None, dm_api = None, dm_grpc = None, dm_listeners = [], dm_sig = None,
      dm_sessions = [], dm_start = STor, dm_tor = TOff\<rparr>"

section \<open>Start\<close>

definition set_node :: "(node \<Rightarrow> node) \<Rightarrow> 'k daemon \<Rightarrow> 'k daemon" where
  "set_node f d = d\<lparr>dm_sys := (dm_sys d)\<lparr>ns_node := f (ns_node (dm_sys d))\<rparr>\<rparr>"

definition startTor :: "unit res \<Rightarrow> 'k daemon \<Rightarrow> 'k daemon" where
  "startTor up d =
     (case up of
        Inl e \<Rightarrow> set_node (\<lambda>n. SetTorState (SetTorState n ''bootstrapping'') ''disabled'') d
      | Inr _ \<Rightarrow> set_node (\<lambda>n. SetTorState n ''bootstrapping'') d\<lparr>dm_tor := TWaiting\<rparr>)"

definition start_tor_step :: "unit res \<Rightarrow> 'k daemon \<Rightarrow> 'k daemon" where
  "start_tor_step up d = (if DisableTor (dm_cfg d) then d else startTor up d)\<lparr>dm_start := SOptions\<rparr>"

definition start_options :: "'k daemon \<Rightarrow> 'k daemon" where
  "start_options d =
     (case grpc_options (dm_cfg d) of
        Inl e \<Rightarrow> d\<lparr>dm_start := SFailed e\<rparr>
      | Inr o' \<Rightarrow> d\<lparr>dm_grpc := Some o', dm_start := SApi\<rparr>)"

definition start_api :: "'k daemon \<Rightarrow> 'k daemon" where
  "start_api d = d\<lparr>dm_api := Some False, dm_start := SListen\<rparr>"

definition start_listen :: "(endpoint \<Rightarrow> unit res) \<Rightarrow> 'k daemon \<Rightarrow> 'k daemon" where
  "start_listen nl d =
     (case snd (listen nl (dm_cfg d)) of
        Inl e \<Rightarrow> d\<lparr>dm_start := SFailed (''starting listener: '' @ e)\<rparr>
      | Inr ls \<Rightarrow> d\<lparr>dm_listeners := ls, dm_start := SServing\<rparr>)"

section \<open>The goroutine that waits for Tor\<close>

definition node_manifest :: manifest where
  "node_manifest = \<lparr>Description = ''primary chat + filetransfer service'', acl = ACLContacts, Allowlist = []\<rparr>"

definition tor_create :: "'k daemon \<Rightarrow> 'k daemon" where
  "tor_create d = d\<lparr>dm_registry := Some (registry_New (dm_engine d)), dm_tor := TAttach\<rparr>"

definition tor_attach :: "'k daemon \<Rightarrow> 'k daemon" where
  "tor_attach d = (if dm_api d \<noteq> None then d\<lparr>dm_api := Some True\<rparr> else d)\<lparr>dm_tor := TRegister\<rparr>"

definition publish_ready :: "string \<Rightarrow> node \<Rightarrow> node" where
  "publish_ready p n = n\<lparr>nd_bus := Publish (nd_bus n) \<lparr>ev_Type = EventTorReady, ev_Payload = p\<rparr>\<rparr>"

definition tor_register :: "(manager, 'k) reg_env \<Rightarrow> (manager, 'k) registry \<Rightarrow> 'k daemon \<Rightarrow> 'k daemon" where
  "tor_register env r d =
     (case Register env r NodeService node_manifest (Some [ChatHandler, FileHandler]) of
        (r', Inl e) \<Rightarrow> set_node (\<lambda>n. publish_ready '''' (SetTorState n ''ready'')) d\<lparr>dm_registry := Some r', dm_tor := TDone\<rparr>
      | (r', Inr svc) \<Rightarrow> d\<lparr>dm_registry := Some r', dm_tor := TListener svc\<rparr>)"

definition tor_listener :: "(manager, 'k) registry \<Rightarrow> service \<Rightarrow> 'k daemon \<Rightarrow> 'k daemon" where
  "tor_listener r svc d =
     (if onions (te r) NodeService = None
      then set_node (\<lambda>n. publish_ready '''' (SetTorState n ''ready'')) d\<lparr>dm_tor := TDone\<rparr>
      else d\<lparr>dm_tor := TPublish svc\<rparr>)"

definition tor_publish :: "service \<Rightarrow> 'k daemon \<Rightarrow> 'k daemon" where
  "tor_publish svc d =
     set_node (\<lambda>n. publish_ready (svc_OnionAddr svc) (SetTorState (SetOnionAddr n (svc_OnionAddr svc)) ''ready'')) d\<lparr>dm_tor := TWire svc\<rparr>"

section \<open>Wiring\<close>

record wire_io =
  wi_dialer :: "unit res"
  wi_rt_file :: file_read
  wi_now :: time
  wi_mkdir :: "unit res"
  wi_write :: "unit res"
  wi_addrs :: "string list"

text \<open>Discovery: the loaded routing table, the DHT, mDNS and the manager with its first eviction; and what is saved of the
  table, when anything was evicted.\<close>

definition wire_discovery ::
  "hashes \<Rightarrow> wire_io \<Rightarrow> config \<Rightarrow> keypair \<Rightarrow> string \<Rightarrow> string \<Rightarrow> manager \<times> peer_info list res option" where
  "wire_discovery HF io c kp addr onion =
     (let localID = NodeIDFromPublicKey HF (PublicKey kp);
          t0 = NewRoutingTable localID;
          t1 = (case rt_Load t0 (wi_rt_file io) of Inl e \<Rightarrow> t0 | Inr t \<Rightarrow> t);
          d = NewDHTDiscovery t1 \<lparr>ID = localID, Address = addr, OnionAddr = onion, LastSeen = zero_time, Failures = 0\<rparr>;
          m0 = NewManager (Some d) (Some \<lparr>md_localAddr = addr, md_onionAddr = onion\<rparr>);
          m1 = SetRTPath m0 (Join (DataDir c) ''routing_table.json'');
          m2 = (if RTMaxAge c > 0 then SetRTMaxAge m1 (RTMaxAge c) else m1)
      in case EvictStale (wi_now io) m2 of
           (m3, n) \<Rightarrow> (m3, if n > 0 then map_option (\<lambda>d. rt_Save (wi_mkdir io) (wi_write io) (rt d)) (mg_dht m3) else None))"

text \<open>The hook that binds a registered service to the signaling server.\<close>

definition daemon_hook :: "string list \<Rightarrow> server option \<Rightarrow> string \<Rightarrow> service \<Rightarrow> server option \<times> unit res" where
  "daemon_hook addrs sv nodeName svc =
     (case sv of
        None \<Rightarrow> (None, Inr ())
      | Some s \<Rightarrow> if Name svc = nodeName then (sv, Inr ())
                  else (case bind_registered s True addrs svc of (s', r) \<Rightarrow> (Some s', r)))"

definition local_addrs :: "node_sys \<Rightarrow> string list \<Rightarrow> string list" where
  "local_addrs s addrs = (if ns_host s then addrs else [])"

definition connector_of :: "hashes \<Rightarrow> keypair \<Rightarrow> connector" where
  "connector_of HF kp = NewConnector HF \<lparr>cc_Keypair = kp, cc_Host = True,
     cc_NATCfg = \<lparr>DirectTimeout = 0, HolePunchTimeout = 0, RelayTimeout = 0\<rparr>, cc_MaxPeers = 0, cc_MaxXfers = 0\<rparr>"

definition wireSubsystems ::
  "hashes \<Rightarrow> (manager, 'k) reg_env \<Rightarrow> wire_io \<Rightarrow> (manager, 'k) registry \<Rightarrow> service \<Rightarrow> 'k daemon \<Rightarrow> 'k daemon" where
  "wireSubsystems HF env io r svc d =
     (case wi_dialer io of
        Inl e \<Rightarrow> d
      | Inr _ \<Rightarrow>
          (let sys = dm_sys d; kp = nd_keypair (ns_node sys); addr = nd_address (ns_node sys);
               addrs = local_addrs sys (wi_addrs io);
               cs = (case ns_contacts sys of Some cs \<Rightarrow> cs | None \<Rightarrow> NewStore);
               m = fst (wire_discovery HF io (dm_cfg d) kp addr (svc_OnionAddr svc));
               r1 = SetDiscovery env r (Some m);
               sys1 = node_SetDiscovery sys (the (disc r1));
               d1 = d\<lparr>dm_registry := Some r1, dm_sys := sys1\<rparr>
           in case AddService (SetEnvelopeHandler NewServer True) (node_config (Name svc) kp addr cs True addrs) of
                (_, Inl e) \<Rightarrow> d1
              | (sv, Inr _) \<Rightarrow>
                  (case server_Start sv of
                     (_, Inl e) \<Rightarrow> d1
                   | (sv', Inr _) \<Rightarrow>
                       (let sys2 = SetSignaling sys1 \<lparr>cl_keypair = kp, cl_address = addr\<rparr>;
                            sys3 = (if ns_host sys2 then SetConnector sys2 (connector_of HF kp) else sys2);
                            r2 = SetOnUnregister (SetOnRegister r1 (Some (\<lambda>s. snd (daemon_hook addrs (Some sv') (Name svc) s)))) True
                        in d1\<lparr>dm_registry := Some r2, dm_sys := sys3, dm_sig := Some sv'\<rparr>))))"

definition tor_wire where
  "tor_wire HF env io r svc d = (wireSubsystems HF env io r svc d)\<lparr>dm_tor := TDone\<rparr>"

section \<open>Services registered over the API\<close>

text \<open>The registry the API server dispatches against.\<close>

definition api_registry :: "'k daemon \<Rightarrow> (manager, 'k) registry option" where
  "api_registry d = (if dm_api d = Some True then dm_registry d else None)"

definition share_manager :: "(manager, 'k) registry \<Rightarrow> 'k daemon \<Rightarrow> 'k daemon" where
  "share_manager r d = (case disc r of
     None \<Rightarrow> d\<lparr>dm_registry := Some r\<rparr>
   | Some m \<Rightarrow> d\<lparr>dm_registry := Some r, dm_sys := node_SetDiscovery (dm_sys d) m\<rparr>)"

text \<open>A stream that is opened: the hook the registry calls is that of the signaling server as it is now.\<close>

definition rpc_open ::
  "(manager, 'k) reg_env \<Rightarrow> string list \<Rightarrow> recv \<Rightarrow> bool \<Rightarrow> 'k daemon \<Rightarrow> 'k daemon \<times> (string \<times> (manager, 'k) reg_sys) rpc" where
  "rpc_open env addrs first ok d =
     (case api_registry d of
        None \<Rightarrow> (d, snd (snd (RegisterService_open env None first ok)))
      | Some r \<Rightarrow>
          (let hook = (\<lambda>s. daemon_hook (local_addrs (dm_sys d) addrs) (dm_sig d) NodeService s);
               r0 = (if onRegister r = None then r else r\<lparr>onRegister := Some (\<lambda>s. snd (hook s))\<rparr>)
           in case RegisterService_open env (Some r0) first ok of
                (reg, _, Inl e) \<Rightarrow> (share_manager (the reg) d, Inl e)
              | (reg, _, Inr (name, y)) \<Rightarrow>
                  (share_manager (the reg) d\<lparr>dm_sessions := name # dm_sessions d,
                     dm_sig := (case Get (the reg) name of None \<Rightarrow> dm_sig d | Some s \<Rightarrow> fst (hook s))\<rparr>, Inr (name, y))))"

definition rpc_close :: "(manager, 'k) reg_env \<Rightarrow> string \<Rightarrow> (manager, 'k) registry \<Rightarrow> 'k daemon \<Rightarrow> 'k daemon" where
  "rpc_close env name r d =
     share_manager (fst (Unregister env r name)) d\<lparr>dm_sessions := remove1 name (dm_sessions d),
       dm_sig := (if name = NodeService then dm_sig d else map_option (\<lambda>s. fst (RemoveService s name)) (dm_sig d))\<rparr>"

section \<open>The daemon's steps\<close>

definition env_ok :: "hashes \<Rightarrow> keypair \<Rightarrow> (manager, 'k) reg_env \<Rightarrow> bool" where
  "env_ok HF kp env \<longleftrightarrow> H env = HF \<and> reg_env.GetOrGenerate env NodeService = Inr kp"

text \<open>A client's manifest names the service; Tor gives it an onion that is not in use.\<close>

definition first_fresh :: "(manager, 'k) reg_env \<Rightarrow> 'k daemon \<Rightarrow> recv \<Rightarrow> bool" where
  "first_fresh env d first \<longleftrightarrow> (\<forall>m r. first = RMsg (CManifest (Some m)) \<longrightarrow> dm_registry d = Some r \<longrightarrow> fresh_onion env r (pm_Name m))"

inductive daemon_step :: "hashes \<Rightarrow> keypair \<Rightarrow> 'k daemon \<Rightarrow> 'k daemon \<Rightarrow> bool" for HF kp where
  d_tor: "dm_start d = STor \<Longrightarrow> daemon_step HF kp d (start_tor_step up d)"
| d_options: "dm_start d = SOptions \<Longrightarrow> daemon_step HF kp d (start_options d)"
| d_api: "dm_start d = SApi \<Longrightarrow> daemon_step HF kp d (start_api d)"
| d_listen: "dm_start d = SListen \<Longrightarrow> daemon_step HF kp d (start_listen nl d)"
| d_ready: "dm_tor d = TWaiting \<Longrightarrow> daemon_step HF kp d (d\<lparr>dm_tor := TCreate\<rparr>)"
| d_create: "dm_tor d = TCreate \<Longrightarrow> daemon_step HF kp d (tor_create d)"
| d_attach: "dm_tor d = TAttach \<Longrightarrow> daemon_step HF kp d (tor_attach d)"
| d_register: "dm_tor d = TRegister \<Longrightarrow> dm_registry d = Some r \<Longrightarrow> env_ok HF kp env \<Longrightarrow> fresh_onion env r NodeService \<Longrightarrow>
    daemon_step HF kp d (tor_register env r d)"
| d_onion: "dm_tor d = TListener svc \<Longrightarrow> dm_registry d = Some r \<Longrightarrow> daemon_step HF kp d (tor_listener r svc d)"
| d_publish: "dm_tor d = TPublish svc \<Longrightarrow> daemon_step HF kp d (tor_publish svc d)"
| d_wire: "dm_tor d = TWire svc \<Longrightarrow> dm_registry d = Some r \<Longrightarrow> daemon_step HF kp d (tor_wire HF env io r svc d)"
| d_open: "dm_start d = SServing \<Longrightarrow> env_ok HF kp env \<Longrightarrow> first_fresh env d first \<Longrightarrow> rpc_open env addrs first ok d = (d', res) \<Longrightarrow>
    daemon_step HF kp d d'"
| d_close: "name \<in> set (dm_sessions d) \<Longrightarrow> dm_registry d = Some r \<Longrightarrow> daemon_step HF kp d (rpc_close env name r d)"

inductive daemon_reach :: "hashes \<Rightarrow> keypair \<Rightarrow> config \<Rightarrow> 'k daemon \<Rightarrow> bool" for HF kp c where
  dr_init: "Start_node HF kp f host_ok c = Some s \<Longrightarrow> daemon_reach HF kp c (daemon_init c s e)"
| dr_step: "daemon_reach HF kp c d \<Longrightarrow> daemon_step HF kp d d' \<Longrightarrow> daemon_reach HF kp c d'"

section \<open>Lookups and demultiplexing\<close>

definition daemonServiceLookup_Get :: "'k daemon \<Rightarrow> string \<Rightarrow> service option" where
  "daemonServiceLookup_Get d name = (case dm_registry d of None \<Rightarrow> None | Some r \<Rightarrow> Get r name)"

text \<open>The envelope handler of the signaling server: DHT requests are answered, anything else is dropped; the connection
  is closed in either case.\<close>

definition demux_envelope :: "time \<Rightarrow> dht \<Rightarrow> msg_type \<Rightarrow> dht_request option \<Rightarrow> dht \<times> peer_record list option \<times> bool" where
  "demux_envelope now d t req =
     (if t = DHT_FIND_NODE \<or> t = DHT_PUT_RECORD
      then (case HandleEnvelope now d req of (d', out) \<Rightarrow> (d', out, True))
      else (d, None, True))"

section \<open>What the registry keeps\<close>

lemma fresh_onion_frame: "te r' = te r \<Longrightarrow> byOnion r' = byOnion r \<Longrightarrow> fresh_onion env r' name = fresh_onion env r name"
  by (simp add: fresh_onion_def LookupByOnion_def)

lemma open_registry:
  assumes "reg_inv r" and "\<forall>m. first = RMsg (CManifest (Some m)) \<longrightarrow> fresh_onion env r (pm_Name m)"
    and "RegisterService_open env (Some r) first ok = (reg, msgs, res)"
  obtains r' where "reg = Some r'" "reg_inv r'"
    "\<And>e. res = Inl e \<Longrightarrow> Get r' = Get r"
    "\<And>name y. res = Inr (name, y) \<Longrightarrow> Get r name = None \<and> (\<exists>svc. Get r' = (Get r)(name \<mapsto> svc))"
proof (cases "\<exists>m. first = RMsg (CManifest (Some m)) \<and> validateManifest (H env) m = Inr ()")
  case False
  have "reg = Some r \<and> (\<exists>e. res = Inl e)"
  proof (cases first)
    case (RMsg cm)
    then show ?thesis
    proof (cases cm)
      case (CManifest mo)
      with RMsg False assms(3) show ?thesis
        by (cases mo) (auto simp: RegisterService_open_def split: sum.splits)
    qed (use RMsg assms(3) in \<open>auto simp: RegisterService_open_def\<close>)
  qed (use assms(3) in \<open>auto simp: RegisterService_open_def\<close>)
  then show thesis using assms(1) by (intro that[of r]) auto
next
  case True
  then obtain m where m: "first = RMsg (CManifest (Some m))" "validateManifest (H env) m = Inr ()" by blast
  have fr: "fresh_onion env r (pm_Name m)" using assms(2) m(1) by blast
  obtain r' rr where reg: "Register env r (pm_Name m) (proto_to_manifest m) (Some [ChatHandler, ConnectionHandler]) = (r', rr)" by fastforce
  have inv: "reg_inv r'" using reg_inv_Register[OF assms(1) fr] reg by (metis fst_conv)
  note out = Register_outcome[OF assms(1) fr reg]
  show thesis
  proof (cases rr)
    case (Inl e)
    with m reg assms(3) out inv show thesis
      by (intro that[of r']) (auto simp: RegisterService_open_def)
  next
    case (Inr svc)
    obtain s b where snd: "rs_send (new_stream\<lparr>rs_alive := ok\<rparr>) (SRegistered (svc_Address svc) (svc_OnionAddr svc)) = (s, b)" by fastforce
    have get: "Get r' = (Get r)(pm_Name m \<mapsto> svc)" "Get r (pm_Name m) = None" using out Inr by (auto simp: Registry_Props.entered_def)
    show thesis
    proof (cases b)
      case True
      with m reg assms(3) Inr snd get inv show thesis by (intro that[of r']) (auto simp: RegisterService_open_def)
    next
      case False
      obtain r2 u where un: "Unregister env r' (pm_Name m) = (r2, u)" by fastforce
      from Unregister_outcome[OF un] get have "Get r2 = Get r" by auto
      moreover have "reg_inv r2" using reg_inv_Unregister[OF inv] un by (metis fst_conv)
      ultimately show thesis using False m reg assms(3) Inr snd un by (intro that[of r2]) (auto simp: RegisterService_open_def)
    qed
  qed
qed

lemma wire_registry_frame [simp]:
  "Get (SetDiscovery env r m) = Get r" "Get (SetOnRegister r cb) = Get r" "Get (SetOnUnregister r b) = Get r"
  "reg_inv (SetDiscovery env r m) = reg_inv r" "reg_inv (SetOnRegister r cb) = reg_inv r" "reg_inv (SetOnUnregister r b) = reg_inv r"
  by (simp_all add: SetDiscovery_def SetOnRegister_def SetOnUnregister_def cong: reg_inv_frame)

section \<open>Invariant\<close>

fun svc_of :: "tor_pc \<Rightarrow> service option" where
  "svc_of (TListener s) = Some s" | "svc_of (TPublish s) = Some s" | "svc_of (TWire s) = Some s" | "svc_of _ = None"

definition before_registry :: "tor_pc \<Rightarrow> bool" where
  "before_registry p \<longleftrightarrow> p = TOff \<or> p = TWaiting \<or> p = TCreate"

text \<open>The registry has the node's own service, under the node's identity, and no client owns its name.\<close>

definition node_holds :: "hashes \<Rightarrow> keypair \<Rightarrow> 'k daemon \<Rightarrow> service \<Rightarrow> bool" where
  "node_holds HF kp d svc \<longleftrightarrow> daemonServiceLookup_Get d NodeService = Some svc \<and> svc_Identity svc = kp \<and>
     svc_Address svc = DeriveAddress HF (PublicKey kp) \<and> NodeService \<notin> set (dm_sessions d)"

definition serving_ok :: "config \<Rightarrow> 'k daemon \<Rightarrow> bool" where
  "serving_ok c d \<longleftrightarrow> dm_cfg d = c \<and> (\<forall>o'. dm_grpc d = Some o' \<longrightarrow> grpc_options c = Inr o') \<and>
     (dm_start d = SApi \<or> dm_start d = SListen \<or> dm_start d = SServing \<longrightarrow> dm_grpc d \<noteq> None) \<and>
     (dm_start d = SServing \<longrightarrow> dm_listeners d = configured c \<and> configured c \<noteq> [])"

definition sessions_ok :: "'k daemon \<Rightarrow> bool" where
  "sessions_ok d \<longleftrightarrow> distinct (dm_sessions d) \<and> (dm_registry d = None \<longrightarrow> dm_sessions d = []) \<and>
     (\<forall>r. dm_registry d = Some r \<longrightarrow> (\<forall>n \<in> set (dm_sessions d). Get r n \<noteq> None))"

definition registry_ok :: "hashes \<Rightarrow> keypair \<Rightarrow> 'k daemon \<Rightarrow> bool" where
  "registry_ok HF kp d \<longleftrightarrow> sessions_ok d \<and>
     (\<forall>r. dm_registry d = Some r \<longrightarrow> reg_inv r) \<and>
     (dm_registry d = None \<longleftrightarrow> before_registry (dm_tor d)) \<and>
     (torState (ns_node (dm_sys d)) = ''ready'' \<longrightarrow> dm_registry d \<noteq> None) \<and>
     (\<forall>svc. svc_of (dm_tor d) = Some svc \<longrightarrow> node_holds HF kp d svc) \<and>
     (onionAddr (ns_node (dm_sys d)) \<noteq> '''' \<longrightarrow>
        (\<exists>svc. node_holds HF kp d svc \<and> svc_OnionAddr svc = onionAddr (ns_node (dm_sys d)))) \<and>
     nd_address (ns_node (dm_sys d)) = DeriveAddress HF (PublicKey kp)"

lemma node_field_simps [simp]:
  "dm_sys (set_node f d) = (dm_sys d)\<lparr>ns_node := f (ns_node (dm_sys d))\<rparr>" "dm_registry (set_node f d) = dm_registry d"
  "dm_sessions (set_node f d) = dm_sessions d" "dm_tor (set_node f d) = dm_tor d" "dm_start (set_node f d) = dm_start d"
  "dm_grpc (set_node f d) = dm_grpc d" "dm_listeners (set_node f d) = dm_listeners d" "dm_cfg (set_node f d) = dm_cfg d"
  "dm_api (set_node f d) = dm_api d" "dm_sig (set_node f d) = dm_sig d" "dm_engine (set_node f d) = dm_engine d"
  by (simp_all add: set_node_def)

lemma node_state_simps [simp]:
  "torState (SetTorState n x) = x" "onionAddr (SetTorState n x) = onionAddr n" "nd_address (SetTorState n x) = nd_address n"
  "torState (SetOnionAddr n a) = torState n" "onionAddr (SetOnionAddr n a) = a" "nd_address (SetOnionAddr n a) = nd_address n"
  "torState (publish_ready p n) = torState n" "onionAddr (publish_ready p n) = onionAddr n" "nd_address (publish_ready p n) = nd_address n"
  by (simp_all add: SetTorState_def SetOnionAddr_def publish_ready_def)

lemma node_holds_frame:
  "dm_registry d' = dm_registry d \<Longrightarrow> dm_sessions d' = dm_sessions d \<Longrightarrow> node_holds HF kp d' svc = node_holds HF kp d svc"
  by (simp add: node_holds_def daemonServiceLookup_Get_def)

lemma serving_step:
  assumes "serving_ok c d" "daemon_step HF kp d d'"
  shows "serving_ok c d'"
  using assms(2)
proof cases
  case (d_tor up)
  then show ?thesis using assms(1) by (auto simp: serving_ok_def start_tor_step_def startTor_def split: sum.splits)
next
  case d_options
  then show ?thesis using assms(1) by (auto simp: serving_ok_def start_options_def split: sum.splits)
next
  case d_api
  then show ?thesis using assms(1) by (auto simp: serving_ok_def start_api_def)
next
  case (d_listen nl)
  have "snd (listen nl c) = Inr ls \<Longrightarrow> ls = configured c \<and> ls \<noteq> []" for ls
    using listen_exact[where nl = nl and c = c] by (auto split: prod.splits)
  then show ?thesis using assms(1) d_listen by (auto simp: serving_ok_def start_listen_def split: sum.splits)
next
  case (d_wire svc r env io)
  then show ?thesis using assms(1)
    by (auto simp: serving_ok_def tor_wire_def wireSubsystems_def Let_def split: sum.splits prod.splits)
next
  case (d_open env first addrs ok res)
  then show ?thesis using assms(1)
    by (auto simp: serving_ok_def rpc_open_def share_manager_def Let_def split: option.splits sum.splits prod.splits)
qed (use assms(1) in \<open>auto simp: serving_ok_def tor_create_def tor_attach_def tor_register_def tor_listener_def tor_publish_def
      rpc_close_def share_manager_def split: sum.splits prod.splits option.splits\<close>)

text \<open>Steps that leave the registry and the sessions alone.\<close>

lemma registry_ok_frame:
  assumes "registry_ok HF kp d" "dm_registry d' = dm_registry d" "dm_sessions d' = dm_sessions d"
    and "before_registry (dm_tor d') = before_registry (dm_tor d)" "\<forall>svc. svc_of (dm_tor d') = Some svc \<longrightarrow> svc_of (dm_tor d) = Some svc"
    and "torState (ns_node (dm_sys d')) = ''ready'' \<longrightarrow> torState (ns_node (dm_sys d)) = ''ready'' \<or> dm_registry d \<noteq> None"
    and "onionAddr (ns_node (dm_sys d')) = onionAddr (ns_node (dm_sys d)) \<or>
       (\<exists>svc. svc_of (dm_tor d) = Some svc \<and> onionAddr (ns_node (dm_sys d')) = svc_OnionAddr svc)"
    and "nd_address (ns_node (dm_sys d')) = nd_address (ns_node (dm_sys d))"
  shows "registry_ok HF kp d'"
proof -
  have same: "node_holds HF kp d' svc = node_holds HF kp d svc" for svc using assms(2,3) by (rule node_holds_frame)
  have sess: "sessions_ok d' = sessions_ok d" using assms(2,3) by (simp add: sessions_ok_def)
  have "\<exists>svc. node_holds HF kp d' svc \<and> svc_OnionAddr svc = onionAddr (ns_node (dm_sys d'))" if "onionAddr (ns_node (dm_sys d')) \<noteq> ''''"
    using that assms(1,7) unfolding same registry_ok_def by auto
  moreover have "node_holds HF kp d' svc" if "svc_of (dm_tor d') = Some svc" for svc
    using that assms(1,5) unfolding same registry_ok_def by blast
  moreover have "torState (ns_node (dm_sys d')) = ''ready'' \<longrightarrow> dm_registry d' \<noteq> None"
    using assms(1,2,6) unfolding registry_ok_def by metis
  ultimately show ?thesis using assms(1,2,4,8) sess unfolding registry_ok_def by (intro conjI allI impI) (blast | simp)+
qed

text \<open>A registry that changed in a way that keeps the node's service.\<close>

lemma registry_ok_change:
  assumes "registry_ok HF kp d" "dm_registry d = Some r" "dm_registry d' = Some r'" "reg_inv r'" "dm_tor d' = dm_tor d \<or> dm_tor d' = TDone"
    and "\<And>svc. node_holds HF kp d svc \<Longrightarrow> node_holds HF kp d' svc" "ns_node (dm_sys d') = ns_node (dm_sys d)" "sessions_ok d'"
  shows "registry_ok HF kp d'"
proof -
  have "\<not> before_registry (dm_tor d)" using assms(1,2) by (auto simp: registry_ok_def)
  then have "\<not> before_registry (dm_tor d')" using assms(5) by (auto simp: before_registry_def)
  moreover have "node_holds HF kp d' svc" if "svc_of (dm_tor d') = Some svc" for svc
    using that assms(1,5,6) by (auto simp: registry_ok_def)
  moreover have "\<exists>svc. node_holds HF kp d' svc \<and> svc_OnionAddr svc = onionAddr (ns_node (dm_sys d))" if "onionAddr (ns_node (dm_sys d)) \<noteq> ''''"
    using that assms(1,6) unfolding registry_ok_def by blast
  ultimately show ?thesis using assms(1,3,4,7,8) by (simp add: registry_ok_def)
qed

lemma share_frame:
  "dm_registry (share_manager r d) = Some r" "dm_tor (share_manager r d) = dm_tor d" "dm_sessions (share_manager r d) = dm_sessions d"
  "ns_node (dm_sys (share_manager r d)) = ns_node (dm_sys d)" "dm_start (share_manager r d) = dm_start d"
  "dm_grpc (share_manager r d) = dm_grpc d" "dm_listeners (share_manager r d) = dm_listeners d" "dm_cfg (share_manager r d) = dm_cfg d"
  "dm_api (share_manager r d) = dm_api d"
  by (simp_all add: share_manager_def node_SetDiscovery_def split: option.split)

lemma registry_ok_open:
  assumes "registry_ok HF kp d" "first_fresh env d first" "rpc_open env addrs first ok d = (d', res)"
  shows "registry_ok HF kp d'"
proof (cases "api_registry d")
  case None
  then show ?thesis using assms by (simp add: rpc_open_def)
next
  case (Some r)
  then have r: "dm_registry d = Some r" by (simp add: api_registry_def split: if_splits)
  define r0 where "r0 = (if onRegister r = None then r else r\<lparr>onRegister :=
    Some (\<lambda>s. snd (daemon_hook (local_addrs (dm_sys d) addrs) (dm_sig d) NodeService s))\<rparr>)"
  have same: "byName r0 = byName r" "byOnion r0 = byOnion r" "te r0 = te r" by (simp_all add: r0_def)
  have "reg_inv r" using assms(1) r by (simp add: registry_ok_def)
  then have r0: "Get r0 = Get r" "reg_inv r0" "fresh_onion env r0 = fresh_onion env r"
    using reg_inv_frame[OF same] fresh_onion_frame[OF same(3,2)] same(1) by (auto simp: fun_eq_iff Get_def)
  obtain reg msgs res' where op: "RegisterService_open env (Some r0) first ok = (reg, msgs, res')" by (metis prod_cases3)
  have "\<forall>m. first = RMsg (CManifest (Some m)) \<longrightarrow> fresh_onion env r0 (pm_Name m)"
    using assms(2) r by (simp add: first_fresh_def r0(3))
  then obtain r' where r': "reg = Some r'" "reg_inv r'" "\<And>e. res' = Inl e \<Longrightarrow> Get r' = Get r"
    "\<And>name y. res' = Inr (name, y) \<Longrightarrow> Get r name = None \<and> (\<exists>svc. Get r' = (Get r)(name \<mapsto> svc))"
    using open_registry[OF r0(2) _ op] unfolding r0(1) by metis
  have d': "dm_registry d' = Some r' \<and> dm_tor d' = dm_tor d \<and> ns_node (dm_sys d') = ns_node (dm_sys d) \<and>
    dm_sessions d' = (case res' of Inl e \<Rightarrow> dm_sessions d | Inr (name, y) \<Rightarrow> name # dm_sessions d)"
  proof (cases res')
    case (Inl e)
    then have "d' = share_manager r' d" using assms(3) Some op r'(1) by (simp add: rpc_open_def r0_def[symmetric] Let_def)
    then show ?thesis using Inl by (simp add: share_frame)
  next
    case (Inr ny)
    obtain name y where ny: "ny = (name, y)" by fastforce
    have "\<exists>g. d' = share_manager r' d\<lparr>dm_sessions := name # dm_sessions d, dm_sig := g\<rparr>"
      using assms(3) Some op r'(1) Inr ny by (auto simp: rpc_open_def r0_def[symmetric] Let_def)
    then show ?thesis using Inr ny by (auto simp: share_frame)
  qed
  have "node_holds HF kp d' svc" if "node_holds HF kp d svc" for svc
    using that r r'(3,4) d' by (cases res') (fastforce simp: node_holds_def daemonServiceLookup_Get_def)+
  moreover have "sessions_ok d'"
  proof -
    have s: "distinct (dm_sessions d)" "\<forall>n \<in> set (dm_sessions d). Get r n \<noteq> None" using assms(1) r by (auto simp: registry_ok_def sessions_ok_def)
    show ?thesis using s r'(3,4) d' by (cases res') (fastforce simp: sessions_ok_def)+
  qed
  ultimately show ?thesis using d' by (intro registry_ok_change[OF assms(1) r _ r'(2)]) auto
qed

lemma registry_ok_close:
  assumes "registry_ok HF kp d" "name \<in> set (dm_sessions d)" "dm_registry d = Some r"
  shows "registry_ok HF kp (rpc_close env name r d)" (is "registry_ok HF kp ?d")
proof -
  obtain r' u where un: "Unregister env r name = (r', u)" by fastforce
  have d': "dm_registry ?d = Some r'" "dm_tor ?d = dm_tor d" "ns_node (dm_sys ?d) = ns_node (dm_sys d)" "dm_sessions ?d = remove1 name (dm_sessions d)"
    by (simp_all add: rpc_close_def share_frame un)
  have s: "distinct (dm_sessions d)" "\<forall>n \<in> set (dm_sessions d). Get r n \<noteq> None" using assms(1,3) by (auto simp: registry_ok_def sessions_ok_def)
  note out = Unregister_outcome[OF un]
  have sok: "sessions_ok ?d" using s d'(1,4) assms(2) out by (auto simp: sessions_ok_def split: option.splits)
  have inv: "reg_inv r'" using reg_inv_Unregister[of r env name] assms(1,3) un by (simp add: registry_ok_def)
  have "node_holds HF kp ?d svc" if h: "node_holds HF kp d svc" for svc
  proof -
    have "name \<noteq> NodeService" using assms(2) h by (auto simp: node_holds_def)
    then have "Get r' NodeService = Get r NodeService" using out by (auto split: option.splits)
    then show ?thesis using h d'(1,4) assms(3) notin_set_remove1 by (auto simp: node_holds_def daemonServiceLookup_Get_def)
  qed
  then show ?thesis using d'(2,3) sok by (intro registry_ok_change[OF assms(1,3) d'(1) inv]) auto
qed

lemma registry_ok_register:
  assumes "registry_ok HF kp d" "dm_tor d = TRegister" "dm_registry d = Some r" "env_ok HF kp env" "fresh_onion env r NodeService"
  shows "registry_ok HF kp (tor_register env r d)" (is "registry_ok HF kp ?d")
proof -
  have inv: "reg_inv r" using assms(1,3) by (simp add: registry_ok_def)
  obtain r' res where reg: "Register env r NodeService node_manifest (Some [ChatHandler, FileHandler]) = (r', res)" by fastforce
  have inv': "reg_inv r'" using reg_inv_Register[OF inv assms(5)] reg by (metis fst_conv)
  note out = Register_outcome[OF inv assms(5) reg]
  have sess: "distinct (dm_sessions d)" "\<forall>n \<in> set (dm_sessions d). Get r n \<noteq> None" using assms(1,3) by (auto simp: registry_ok_def sessions_ok_def)
  have "sessions_ok ?d"
    using sess out reg by (cases res) (auto simp: sessions_ok_def tor_register_def Registry_Props.entered_def)
  note sess = sess this
  show ?thesis
  proof (cases res)
    case (Inl e)
    then have "node_holds HF kp ?d svc = node_holds HF kp d svc" for svc
      using out reg assms(3) by (simp add: tor_register_def node_holds_def daemonServiceLookup_Get_def)
    then show ?thesis using assms(1,3) inv' reg Inl sess(3) by (auto simp: registry_ok_def tor_register_def before_registry_def)
  next
    case (Inr svc)
    have "NodeService \<notin> set (dm_sessions d)" using sess(2) out Inr by auto
    then have holds: "node_holds HF kp ?d svc"
      using out reg Inr assms(4) by (auto simp: tor_register_def node_holds_def daemonServiceLookup_Get_def Registry_Props.entered_def env_ok_def)
    have "\<not> node_holds HF kp d s" for s using out Inr assms(3) by (auto simp: node_holds_def daemonServiceLookup_Get_def)
    then show ?thesis using assms(1,3) inv' reg Inr holds sess(3) by (auto simp: registry_ok_def tor_register_def before_registry_def)
  qed
qed

lemma wire_frame:
  "\<exists>r'. dm_registry (tor_wire HF env io r svc d) = (if isl (wi_dialer io) then dm_registry d else Some r') \<and> Get r' = Get r \<and> reg_inv r' = reg_inv r"
  "dm_tor (tor_wire HF env io r svc d) = TDone" "dm_sessions (tor_wire HF env io r svc d) = dm_sessions d"
  "ns_node (dm_sys (tor_wire HF env io r svc d)) = ns_node (dm_sys d)"
  by (auto simp: tor_wire_def wireSubsystems_def Let_def node_SetDiscovery_def SetSignaling_def SetConnector_def isl_def
      split: sum.splits prod.splits)

lemma registry_ok_wire:
  assumes "registry_ok HF kp d" "dm_registry d = Some r"
  shows "registry_ok HF kp (tor_wire HF env io r svc d)" (is "registry_ok HF kp ?d")
proof -
  obtain r' where r': "dm_registry ?d = Some r'" "Get r' = Get r" "reg_inv r'"
    using wire_frame(1)[of HF env io r svc d] assms by (auto simp: registry_ok_def split: if_splits)
  moreover have "node_holds HF kp ?d s" if "node_holds HF kp d s" for s
    using that r' assms(2) by (simp add: node_holds_def daemonServiceLookup_Get_def wire_frame(3))
  moreover have "sessions_ok ?d" using assms r' by (simp add: registry_ok_def sessions_ok_def wire_frame(3))
  ultimately show ?thesis by (intro registry_ok_change[OF assms]) (auto simp: wire_frame)
qed

definition boot_ok :: "'k daemon \<Rightarrow> bool" where
  "boot_ok d \<longleftrightarrow> (dm_start d = STor \<longrightarrow> dm_tor d = TOff)"

lemma boot_step: "daemon_step HF kp d d' \<Longrightarrow> boot_ok d \<Longrightarrow> boot_ok d'"
  by (induction rule: daemon_step.induct)
    (auto simp: boot_ok_def start_tor_step_def start_options_def start_api_def start_listen_def rpc_open_def rpc_close_def share_frame Let_def
      tor_create_def tor_attach_def tor_register_def tor_listener_def tor_publish_def tor_wire_def wireSubsystems_def
      split: sum.splits option.splits prod.splits)

lemma registry_step:
  assumes "registry_ok HF kp d" "daemon_step HF kp d d'" "boot_ok d"
  shows "registry_ok HF kp d'"
  using assms(2)
proof cases
  case (d_tor up)
  then have "dm_tor d = TOff" using assms(3) by (simp add: boot_ok_def)
  then show ?thesis using d_tor
    by (intro registry_ok_frame[OF assms(1)]) (auto simp: start_tor_step_def startTor_def before_registry_def split: sum.splits)
next
  case d_options
  then show ?thesis by (intro registry_ok_frame[OF assms(1)]) (auto simp: start_options_def split: sum.splits)
next
  case d_api
  then show ?thesis by (intro registry_ok_frame[OF assms(1)]) (auto simp: start_api_def)
next
  case (d_listen nl)
  then show ?thesis by (intro registry_ok_frame[OF assms(1)]) (auto simp: start_listen_def split: sum.splits)
next
  case d_ready
  then show ?thesis by (intro registry_ok_frame[OF assms(1)]) (auto simp: before_registry_def)
next
  case d_create
  then have none: "dm_registry d = None" using assms(1) by (auto simp: registry_ok_def before_registry_def)
  have "reg_inv (registry_New e :: (manager, 'a) registry)" for e by (simp add: reg_inv_def registry_New_def Get_def LookupByOnion_def)
  moreover have "\<not> node_holds HF kp d s" for s using none by (simp add: node_holds_def daemonServiceLookup_Get_def)
  ultimately show ?thesis using d_create assms(1) none
    by (auto simp: registry_ok_def tor_create_def before_registry_def sessions_ok_def)
next
  case d_attach
  then show ?thesis by (intro registry_ok_frame[OF assms(1)]) (auto simp: tor_attach_def before_registry_def)
next
  case (d_register r env)
  then show ?thesis using registry_ok_register[OF assms(1)] by blast
next
  case (d_onion svc r)
  then show ?thesis by (intro registry_ok_frame[OF assms(1)]) (auto simp: tor_listener_def before_registry_def)
next
  case (d_publish svc)
  then have "dm_registry d \<noteq> None" using assms(1) by (auto simp: registry_ok_def before_registry_def)
  then show ?thesis using d_publish by (intro registry_ok_frame[OF assms(1)]) (auto simp: tor_publish_def before_registry_def)
next
  case (d_wire svc r env io)
  then show ?thesis using registry_ok_wire[OF assms(1)] by blast
next
  case (d_open env first addrs ok res)
  then show ?thesis using registry_ok_open[OF assms(1)] by blast
next
  case (d_close name r env)
  then show ?thesis using registry_ok_close[OF assms(1)] by blast
qed

lemma daemon_inv_init:
  assumes "Start_node HF kp f host_ok c = Some s"
  shows "serving_ok c (daemon_init c s e) \<and> registry_ok HF kp (daemon_init c s e) \<and> boot_ok (daemon_init c s e)"
proof -
  have "nd_address (ns_node s) = DeriveAddress HF (PublicKey kp)" "torState (ns_node s) = ''disabled''" "onionAddr (ns_node s) = ''''"
    using assms by (auto simp: Start_node_def new_node_sys_def node_New_def SetContacts_def SetHost_def Let_def split: option.splits if_splits)
  then show ?thesis by (simp add: serving_ok_def registry_ok_def boot_ok_def daemon_init_def before_registry_def sessions_ok_def)
qed

lemma daemon_reach_inv: "daemon_reach HF kp c d \<Longrightarrow> serving_ok c d \<and> registry_ok HF kp d \<and> boot_ok d"
proof (induction rule: daemon_reach.induct)
  case (dr_init f host_ok s e)
  then show ?case by (rule daemon_inv_init)
next
  case (dr_step d d')
  then show ?case using serving_step registry_step boot_step by blast
qed

section \<open>Properties\<close>

text \<open>C35: The daemon comes up consistently. Under every interleaving of \<open>Start\<close>, the goroutine that waits for Tor and
  clients that register and end services, whatever fails: the API is served only on exactly the configured listeners
  and, when an admin key is configured, only behind an interceptor for that key; Tor is reported ready only when
  the registry exists; and once the node has an onion address, the lookup given to chat and file transfer finds the
  node's service with that onion, the node's identity and the node's address, and keeps finding it whatever clients do.\<close>

theorem startup_consistent:
  assumes "daemon_reach HF kp c d"
  shows "(dm_start d = SServing \<longrightarrow> dm_listeners d = configured c \<and>
      (\<exists>o'. dm_grpc d = Some o' \<and> grpc_options c = Inr o' \<and>
        (AdminKey c \<noteq> '''' \<longrightarrow> (\<exists>pk. o' = Some pk \<and> hex_decode (AdminKey c) = Some pk \<and> length pk = 32)))) \<and>
    (TorState (ns_node (dm_sys d)) = ''ready'' \<longrightarrow> dm_registry d \<noteq> None) \<and>
    (node_OnionAddr (ns_node (dm_sys d)) \<noteq> '''' \<longrightarrow>
      (\<exists>svc. daemonServiceLookup_Get d NodeService = Some svc \<and> svc_OnionAddr svc = node_OnionAddr (ns_node (dm_sys d)) \<and>
         svc_Identity svc = kp \<and> svc_Address svc = nd_address (ns_node (dm_sys d))))"
proof -
  have s: "serving_ok c d" and r: "registry_ok HF kp d" using daemon_reach_inv[OF assms] by auto
  have "dm_start d = SServing \<longrightarrow> dm_listeners d = configured c \<and>
      (\<exists>o'. dm_grpc d = Some o' \<and> grpc_options c = Inr o' \<and>
        (AdminKey c \<noteq> '''' \<longrightarrow> (\<exists>pk. o' = Some pk \<and> hex_decode (AdminKey c) = Some pk \<and> length pk = 32)))"
    using s by (auto simp: serving_ok_def grpc_options_def split: option.splits if_splits)
  moreover have "TorState (ns_node (dm_sys d)) = ''ready'' \<longrightarrow> dm_registry d \<noteq> None" using r unfolding registry_ok_def TorState_def by blast
  moreover have "node_OnionAddr (ns_node (dm_sys d)) \<noteq> '''' \<longrightarrow>
      (\<exists>svc. daemonServiceLookup_Get d NodeService = Some svc \<and> svc_OnionAddr svc = node_OnionAddr (ns_node (dm_sys d)) \<and>
         svc_Identity svc = kp \<and> svc_Address svc = nd_address (ns_node (dm_sys d)))"
    using r unfolding registry_ok_def node_holds_def node_OnionAddr_def by auto
  ultimately show ?thesis by blast
qed

text \<open>Past the point where the registry would be attached, with an API server that was not there then.\<close>

definition missed :: "'k daemon \<Rightarrow> bool" where
  "missed d \<longleftrightarrow> \<not> before_registry (dm_tor d) \<and> dm_tor d \<noteq> TAttach \<and> dm_api d \<noteq> Some True \<and> boot_ok d"

lemma missed_step: "daemon_step HF kp d d' \<Longrightarrow> missed d \<Longrightarrow> missed d'"
proof (induction rule: daemon_step.induct)
  case (d_wire d svc r env io)
  then show ?case
    by (auto simp: missed_def before_registry_def boot_ok_def tor_wire_def wireSubsystems_def Let_def split: sum.splits prod.splits)
next
  case (d_open d env first addrs ok d' res)
  then show ?case by (auto simp: missed_def rpc_open_def api_registry_def)
qed (auto simp: missed_def before_registry_def boot_ok_def start_tor_step_def start_options_def start_api_def start_listen_def
      rpc_close_def share_frame tor_create_def tor_attach_def tor_register_def tor_listener_def tor_publish_def
      split: sum.splits prod.splits)

text \<open>The API server can miss the registry for ever. When Tor is ready before \<open>Start\<close> has created the API server, the
  goroutine finds no server to attach the registry to, and no later step attaches it: in every state after that,
  although the daemon serves and reports Tor as ready, \<open>RegisterService\<close> answers that no registry is configured.\<close>

theorem registry_never_attached:
  assumes "daemon_reach HF kp c d" and "dm_tor d = TRegister" and "dm_api d = None" and "(daemon_step HF kp)\<^sup>*\<^sup>* d d'"
  shows "rpc_open env addrs first ok d' = (d', Inl (Unimplemented, ''service registry not configured on this daemon''))"
proof -
  have "missed d" using assms(2,3) daemon_reach_inv[OF assms(1)] by (simp add: missed_def before_registry_def)
  with assms(4) have "missed d'" by (induction rule: rtranclp_induct) (auto intro: missed_step)
  then show ?thesis by (simp add: rpc_open_def api_registry_def missed_def RegisterService_open_def)
qed

text \<open>Nothing is wired: no onion address, no discovery, no signaling.\<close>

definition unwired :: "'k daemon \<Rightarrow> bool" where
  "unwired d \<longleftrightarrow> onionAddr (ns_node (dm_sys d)) = '''' \<and> dm_sig d = None \<and> ns_discovery (dm_sys d) = None \<and> ns_client (dm_sys d) = None \<and>
     ns_connector (dm_sys d) = None \<and> (\<forall>r. dm_registry d = Some r \<longrightarrow> disc r = None \<and> onRegister r = None)"

definition before_wiring :: "tor_pc \<Rightarrow> bool" where
  "before_wiring p \<longleftrightarrow> (\<forall>s. p \<noteq> TWire s) \<and> p \<noteq> TDone"

lemma Register_plain:
  "Register env r name m hs = (r', res) \<Longrightarrow> disc r = None \<Longrightarrow> onRegister r = None \<Longrightarrow> disc r' = None \<and> onRegister r' = None"
  by (auto simp: Register_def Let_def register_insert_def register_advertise_def register_hook_def rollback_onion_def
      split: if_splits sum.splits prod.splits)

lemma Unregister_plain:
  "Unregister env r name = (r', res) \<Longrightarrow> disc r = None \<Longrightarrow> onRegister r = None \<Longrightarrow> disc r' = None \<and> onRegister r' = None"
  by (auto simp: Unregister_def Let_def rollback_onion_def drop_service_def split: if_splits option.splits sum.splits prod.splits)

lemma open_plain:
  assumes "RegisterService_open env (Some r) first ok = (Some r', msgs, res)" "disc r = None" "onRegister r = None"
  shows "disc r' = None \<and> onRegister r' = None"
proof -
  have "r' = r \<or> (\<exists>m x. Register env r (pm_Name m) (proto_to_manifest m) (Some [ChatHandler, ConnectionHandler]) = (r', x)) \<or>
    (\<exists>m r1 x. Register env r (pm_Name m) (proto_to_manifest m) (Some [ChatHandler, ConnectionHandler]) = (r1, x) \<and>
       r' = fst (Unregister env r1 (pm_Name m)))"
    using assms(1)
    by (auto simp: RegisterService_open_def split: recv.splits client_msg.splits option.splits sum.splits prod.splits bool.splits) blast+
  then show ?thesis using assms(2,3) Register_plain Unregister_plain by (metis prod.collapse)
qed

lemma unwired_share: "unwired d \<Longrightarrow> disc r = None \<Longrightarrow> onRegister r = None \<Longrightarrow> unwired (share_manager r d)"
  by (simp add: unwired_def share_manager_def)

lemma unwired_open:
  assumes "unwired d" "rpc_open env addrs first ok d = (d', res)"
  shows "unwired d' \<and> dm_tor d' = dm_tor d"
proof (cases "api_registry d")
  case None
  then show ?thesis using assms by (simp add: rpc_open_def)
next
  case (Some r)
  then have r: "disc r = None" "onRegister r = None" using assms(1) by (auto simp: api_registry_def unwired_def split: if_splits)
  obtain reg msgs res' where op: "RegisterService_open env (Some r) first ok = (reg, msgs, res')" by (metis prod_cases3)
  then obtain r' where r': "reg = Some r'"
    by (auto simp: RegisterService_open_def split: recv.splits client_msg.splits option.splits sum.splits prod.splits bool.splits)
  note plain = open_plain[OF op[unfolded r'] r]
  have sg: "dm_sig d = None" using assms(1) by (simp add: unwired_def)
  have "\<exists>ss. d' = share_manager r' d\<lparr>dm_sessions := ss, dm_sig := None\<rparr>"
  proof (cases res')
    case (Inl e)
    then have "d' = share_manager r' d" using assms(2) Some op r r' by (simp add: rpc_open_def Let_def)
    moreover have "dm_sig (share_manager r' d) = None" using sg plain by (simp add: share_manager_def)
    ultimately show ?thesis by (metis daemon.surjective daemon.update_convs(8,9))
  next
    case (Inr ny)
    then show ?thesis using assms(2) Some op r r' sg
      by (cases ny) (auto simp: rpc_open_def Let_def daemon_hook_def split: option.splits)
  qed
  then show ?thesis using assms(1) plain by (auto simp: unwired_def share_manager_def)
qed

lemma unwired_close:
  assumes "unwired d" "dm_registry d = Some r"
  shows "unwired (rpc_close env name r d) \<and> dm_tor (rpc_close env name r d) = dm_tor d"
proof -
  obtain r' u where un: "Unregister env r name = (r', u)" by fastforce
  have "disc r' = None \<and> onRegister r' = None" using Unregister_plain[OF un] assms by (simp add: unwired_def)
  then show ?thesis using assms by (simp add: rpc_close_def un unwired_def share_manager_def)
qed

text \<open>Before the wiring, and after a registration of the node that failed, every step keeps it so.\<close>

lemma unwired_step:
  assumes "daemon_step HF kp d d'" "unwired d" "boot_ok d" "\<forall>s. dm_tor d \<noteq> TWire s"
  shows "(unwired d' \<or> (\<exists>s. dm_tor d' = TWire s)) \<and> (dm_tor d = TDone \<longrightarrow> dm_tor d' = TDone)"
  using assms(1)
proof cases
  case (d_register r env)
  obtain r' res where reg: "Register env r NodeService node_manifest (Some [ChatHandler, FileHandler]) = (r', res)" by fastforce
  have "disc r' = None \<and> onRegister r' = None" using Register_plain[OF reg] assms(2) d_register by (simp add: unwired_def)
  then show ?thesis using d_register reg assms(2) by (cases res) (auto simp: unwired_def tor_register_def)
next
  case (d_open env first addrs ok res)
  then show ?thesis using unwired_open[OF assms(2)] by auto
next
  case (d_close name r env)
  then show ?thesis using unwired_close[OF assms(2)] by auto
qed (use assms(2-4) in \<open>auto simp: unwired_def boot_ok_def tor_publish_def start_tor_step_def startTor_def start_options_def start_api_def start_listen_def tor_create_def
      tor_attach_def tor_listener_def registry_New_def split: sum.splits\<close>)

lemma after_wiring_step: "daemon_step HF kp d d' \<Longrightarrow> boot_ok d \<Longrightarrow> \<not> before_wiring (dm_tor d) \<Longrightarrow> \<not> before_wiring (dm_tor d')"
  by (induction rule: daemon_step.induct)
    (auto simp: before_wiring_def boot_ok_def start_tor_step_def start_options_def start_api_def start_listen_def tor_wire_def rpc_open_def
      rpc_close_def share_frame Let_def split: sum.splits option.splits prod.splits)

lemma before_wiring_unwired: "daemon_reach HF kp c d \<Longrightarrow> before_wiring (dm_tor d) \<Longrightarrow> unwired d"
proof (induction rule: daemon_reach.induct)
  case (dr_init f host_ok s e)
  then show ?case
    by (auto simp: daemon_init_def unwired_def Start_node_def new_node_sys_def node_New_def SetContacts_def SetHost_def Let_def
        split: option.splits if_splits)
next
  case (dr_step d d')
  have boot: "boot_ok d" using daemon_reach_inv[OF dr_step.hyps(1)] by blast
  show ?case
  proof (cases "before_wiring (dm_tor d)")
    case True
    then show ?thesis using unwired_step[OF dr_step.hyps(2) _ boot] dr_step by (auto simp: before_wiring_def)
  next
    case False
    then show ?thesis using after_wiring_step[OF dr_step.hyps(2) boot] dr_step.prems by blast
  qed
qed

text \<open>The name of the node's own service is not reserved. A client that registers a service under the name \<open>node\<close>
  after the registry is attached and before the daemon registers its own keeps the daemon out of it: the daemon's own
  registration fails, it reports Tor as ready all the same, and in every later state, even when the client has
  gone, the node has no onion address, nothing is wired and every connect is refused as not ready.\<close>

theorem node_name_taken:
  assumes "daemon_reach HF kp c d" and "dm_tor d = TRegister" and "NodeService \<in> set (dm_sessions d)" and "dm_registry d = Some r"
    and "(daemon_step HF kp)\<^sup>*\<^sup>* (tor_register env r d) d'"
  shows "TorState (ns_node (dm_sys (tor_register env r d))) = ''ready'' \<and> dm_tor d' = TDone \<and>
    node_OnionAddr (ns_node (dm_sys d')) = '''' \<and> dm_sig d' = None \<and>
    snd (snd (snd (node_Connect L HF E X N io w (dm_sys d') a))) = Inl ''node not ready (discovery/signaling not initialized)''"
proof -
  have un: "unwired d" using before_wiring_unwired[OF assms(1)] assms(2) by (simp add: before_wiring_def)
  have inv: "registry_ok HF kp d" "boot_ok d" using daemon_reach_inv[OF assms(1)] by auto
  then have "Get r NodeService \<noteq> None" using assms(3,4) by (simp add: registry_ok_def sessions_ok_def)
  then have reg: "tor_register env r d = set_node (\<lambda>n. publish_ready '''' (SetTorState n ''ready'')) d\<lparr>dm_registry := Some r, dm_tor := TDone\<rparr>"
    by (simp add: tor_register_def Register_def Get_def)
  have "unwired (tor_register env r d)" "dm_tor (tor_register env r d) = TDone" "boot_ok (tor_register env r d)"
    using un inv(2) assms(2,4) unfolding reg by (auto simp: unwired_def boot_ok_def)
  then have start: "unwired (tor_register env r d) \<and> dm_tor (tor_register env r d) = TDone \<and> boot_ok (tor_register env r d)" by blast
  from assms(5) have "unwired d' \<and> dm_tor d' = TDone \<and> boot_ok d'"
  proof (induction rule: rtranclp_induct)
    case (step x y)
    then show ?case using unwired_step[OF step.hyps(2)] boot_step[OF step.hyps(2)] by auto
  qed (rule start)
  then show ?thesis by (simp add: reg TorState_def node_OnionAddr_def unwired_def node_Connect_def)
qed

section \<open>Concrete runs\<close>

definition demo_cfg :: config where
  "demo_cfg = daemon_config ''/root'' \<lparr>fl_data_dir = '''', fl_api_addr = ''localhost:9090'', fl_api_socket = '''', fl_admin_key = '''',
     fl_tor_path = ''''\<rparr>"

definition demo_node_sys :: node_sys where
  "demo_node_sys = SetHost (SetContacts (new_node_sys demo_hashes (demo_kp 1)) NewStore)"

definition demo_d0 :: "nat daemon" where
  "demo_d0 = daemon_init demo_cfg demo_node_sys demo_engine"

definition demo_denv :: "(manager, nat) reg_env" where
  "demo_denv = \<lparr>H = demo_hashes, GetOrGenerate = (\<lambda>_. Inr (demo_kp 1)), te_listen = demo_listen 3, te_saved = Inr (), te_closed = Inr (),
     disc_add = mg_AddLocalIdentity demo_hashes 0, disc_remove = mg_RemoveLocalIdentity\<rparr>"

text \<open>Tor started; the daemon serving with the registry attached; and the registry made before the API server.\<close>

definition demo_tor :: "nat daemon" where "demo_tor = start_tor_step (Inr ()) demo_d0"

definition demo_up :: "nat daemon" where
  "demo_up = start_listen (\<lambda>_. Inr ()) (start_api (start_options demo_tor))"

definition demo_attached :: "nat daemon" where "demo_attached = tor_attach (tor_create (demo_up\<lparr>dm_tor := TCreate\<rparr>))"

definition demo_early :: "nat daemon" where "demo_early = tor_attach (tor_create (demo_tor\<lparr>dm_tor := TCreate\<rparr>))"

lemma demo_cfg_fields: "DisableTor demo_cfg = False" "AdminKey demo_cfg = ''''" "configured demo_cfg = [Tcp ''localhost:9090'']" "DisableP2P demo_cfg = False"
  "listen (\<lambda>_. Inr ()) demo_cfg = ([Tcp ''localhost:9090''], Inr [Tcp ''localhost:9090''])"
  by (simp_all add: demo_cfg_def daemon_config_def DefaultConfig_def configured_def listen_def Let_def)

lemma demo_d0_reach: "daemon_reach demo_hashes (demo_kp 1) demo_cfg demo_d0"
  unfolding demo_d0_def
  by (rule dr_init[of _ _ NoFile True])
    (simp add: Start_node_def load_at_start_def ct_Load_def demo_node_sys_def demo_cfg_fields)

lemma demo_tor_fields: "dm_start demo_tor = SOptions" "dm_tor demo_tor = TWaiting" "dm_api demo_tor = None" "dm_cfg demo_tor = demo_cfg"
  "dm_engine demo_tor = demo_engine" "dm_registry demo_tor = None" "dm_sessions demo_tor = []" "dm_sig demo_tor = None"
  by (simp_all add: demo_tor_def start_tor_step_def startTor_def demo_d0_def daemon_init_def demo_cfg_fields)

lemma demo_tor_reach: "daemon_reach demo_hashes (demo_kp 1) demo_cfg demo_tor"
  unfolding demo_tor_def by (rule dr_step[OF demo_d0_reach], rule d_tor) (simp add: demo_d0_def daemon_init_def)

lemma demo_early_reach:
  "daemon_reach demo_hashes (demo_kp 1) demo_cfg demo_early" "dm_tor demo_early = TRegister" "dm_api demo_early = None" "dm_start demo_early = SOptions"
proof -
  have "daemon_reach demo_hashes (demo_kp 1) demo_cfg (demo_tor\<lparr>dm_tor := TCreate\<rparr>)"
    by (rule dr_step[OF demo_tor_reach], rule d_ready) (simp add: demo_tor_fields)
  then have "daemon_reach demo_hashes (demo_kp 1) demo_cfg (tor_create (demo_tor\<lparr>dm_tor := TCreate\<rparr>))"
    by (rule dr_step) (rule d_create, simp)
  then show "daemon_reach demo_hashes (demo_kp 1) demo_cfg demo_early"
    unfolding demo_early_def by (rule dr_step) (rule d_attach, simp add: tor_create_def)
  show "dm_tor demo_early = TRegister" "dm_api demo_early = None" "dm_start demo_early = SOptions"
    by (simp_all add: demo_early_def tor_attach_def tor_create_def demo_tor_fields)
qed

lemma demo_up_fields: "dm_start demo_up = SServing" "dm_tor demo_up = TWaiting" "dm_api demo_up = Some False" "dm_cfg demo_up = demo_cfg"
  "dm_engine demo_up = demo_engine" "dm_registry demo_up = None" "dm_sessions demo_up = []" "dm_sig demo_up = None"
  by (simp_all add: demo_up_def start_listen_def start_api_def start_options_def grpc_options_def demo_tor_fields demo_cfg_fields)

lemma demo_up_reach: "daemon_reach demo_hashes (demo_kp 1) demo_cfg demo_up"
proof -
  have "daemon_reach demo_hashes (demo_kp 1) demo_cfg (start_options demo_tor)"
    by (rule dr_step[OF demo_tor_reach], rule d_options) (simp add: demo_tor_fields)
  then have "daemon_reach demo_hashes (demo_kp 1) demo_cfg (start_api (start_options demo_tor))"
    by (rule dr_step) (rule d_api, simp add: start_options_def grpc_options_def demo_tor_fields demo_cfg_fields)
  then show ?thesis unfolding demo_up_def by (rule dr_step) (rule d_listen, simp add: start_api_def)
qed

lemma demo_attached_reach:
  "daemon_reach demo_hashes (demo_kp 1) demo_cfg demo_attached" "dm_tor demo_attached = TRegister" "dm_api demo_attached = Some True"
  "dm_start demo_attached = SServing" "dm_registry demo_attached = Some (registry_New demo_engine)" "dm_sessions demo_attached = []"
  "dm_sig demo_attached = None"
proof -
  have "daemon_reach demo_hashes (demo_kp 1) demo_cfg (demo_up\<lparr>dm_tor := TCreate\<rparr>)"
    by (rule dr_step[OF demo_up_reach], rule d_ready) (simp add: demo_up_fields)
  then have "daemon_reach demo_hashes (demo_kp 1) demo_cfg (tor_create (demo_up\<lparr>dm_tor := TCreate\<rparr>))"
    by (rule dr_step) (rule d_create, simp)
  then show "daemon_reach demo_hashes (demo_kp 1) demo_cfg demo_attached"
    unfolding demo_attached_def by (rule dr_step) (rule d_attach, simp add: tor_create_def)
  show "dm_tor demo_attached = TRegister" "dm_api demo_attached = Some True"
    "dm_start demo_attached = SServing" "dm_registry demo_attached = Some (registry_New demo_engine)" "dm_sessions demo_attached = []"
    "dm_sig demo_attached = None"
    by (simp_all add: demo_attached_def tor_attach_def tor_create_def demo_up_fields)
qed

lemma demo_env_ok: "env_ok demo_hashes (demo_kp 1) demo_denv" "fresh_onion demo_denv (registry_New demo_engine) n"
  by (simp_all add: env_ok_def demo_denv_def fresh_onion_def registry_New_def LookupByOnion_def)

lemma demo_node_registers:
  "\<exists>r svc. Register demo_denv (registry_New demo_engine) NodeService m hs = (r, Inr svc) \<and> onions (te r) NodeService \<noteq> None \<and>
     svc_OnionAddr svc = ''aaa.onion''"
  by (simp add: Register_def demo_denv_def registry_New_def demo_engine_def AddOnion_def add_prepare_def add_commit_def demo_listen_def
      register_insert_def register_advertise_def register_hook_def new_service_def onion_host_def NodeService_def Let_def numeral_eq_Suc)

theorem startup_consistent_witness:
  "\<exists>d :: nat daemon. daemon_reach demo_hashes (demo_kp 1) demo_cfg d \<and> dm_start d = SServing \<and>
     node_OnionAddr (ns_node (dm_sys d)) = ''aaa.onion'' \<and>
     (\<exists>svc. daemonServiceLookup_Get d NodeService = Some svc \<and> svc_OnionAddr svc = ''aaa.onion'' \<and> svc_Identity svc = demo_kp 1)"
proof -
  obtain r svc where reg: "Register demo_denv (registry_New demo_engine) NodeService node_manifest (Some [ChatHandler, FileHandler]) = (r, Inr svc)"
    and on: "onions (te r) NodeService \<noteq> None" "svc_OnionAddr svc = ''aaa.onion''" using demo_node_registers by blast
  let ?d1 = "tor_register demo_denv (registry_New demo_engine) demo_attached"
  let ?d2 = "tor_listener r svc ?d1" let ?d3 = "tor_publish svc ?d2"
  have d1: "dm_tor ?d1 = TListener svc" "dm_registry ?d1 = Some r" by (simp_all add: tor_register_def reg)
  have d2: "dm_tor ?d2 = TPublish svc" using on(1) by (simp add: tor_listener_def)
  have "daemon_reach demo_hashes (demo_kp 1) demo_cfg ?d1"
    by (rule dr_step[OF demo_attached_reach(1)], rule d_register) (simp_all add: demo_attached_reach demo_env_ok)
  then have "daemon_reach demo_hashes (demo_kp 1) demo_cfg ?d2" by (rule dr_step) (rule d_onion[OF d1])
  then have reach: "daemon_reach demo_hashes (demo_kp 1) demo_cfg ?d3" by (rule dr_step) (rule d_publish[OF d2])
  have f: "dm_start ?d3 = SServing" "node_OnionAddr (ns_node (dm_sys ?d3)) = ''aaa.onion''"
    using on by (simp_all add: tor_publish_def tor_listener_def tor_register_def reg demo_attached_reach node_OnionAddr_def)
  from startup_consistent[OF reach] f show ?thesis by (intro exI[of _ ?d3]) (auto simp: reach)
qed

theorem registry_never_attached_witness:
  "\<exists>d' :: nat daemon. dm_start d' = SServing \<and>
     (\<exists>m. snd (rpc_open demo_denv [] REOF True d') = Inl (Unimplemented, m))"
proof -
  let ?d1 = "start_options demo_early" let ?d2 = "start_api ?d1" let ?d3 = "start_listen (\<lambda>_. Inr ()) ?d2"
  have cfg: "dm_cfg demo_early = demo_cfg" by (simp add: demo_early_def tor_attach_def tor_create_def demo_tor_fields)
  have 1: "dm_start ?d1 = SApi" by (simp add: start_options_def cfg grpc_options_def demo_cfg_fields)
  have "dm_cfg ?d2 = demo_cfg" by (simp add: start_api_def start_options_def cfg grpc_options_def demo_cfg_fields)
  then have 3: "dm_start ?d3 = SServing" by (simp add: start_listen_def demo_cfg_fields)
  have "daemon_step demo_hashes (demo_kp 1) demo_early ?d1" by (rule d_options[OF demo_early_reach(4)])
  moreover have "daemon_step demo_hashes (demo_kp 1) ?d1 ?d2" by (rule d_api[OF 1])
  moreover have "daemon_step demo_hashes (demo_kp 1) ?d2 ?d3" by (rule d_listen) (simp add: start_api_def)
  ultimately have "(daemon_step demo_hashes (demo_kp 1))\<^sup>*\<^sup>* demo_early ?d3" by (meson r_into_rtranclp rtranclp_trans)
  from registry_never_attached[OF demo_early_reach(1-3) this, of demo_denv "[]" REOF True] 3
  show ?thesis by (intro exI[of _ ?d3]) simp
qed

text \<open>A client that registers the name of the node.\<close>

definition demo_claim :: recv where
  "demo_claim = RMsg (CManifest (Some \<lparr>pm_Name = ''node'', pm_Description = '''', pm_Acl = 0, pm_Allowlist = []\<rparr>))"

lemma demo_claimed:
  "\<exists>d' res. rpc_open demo_denv [] demo_claim True demo_attached = (d', res) \<and> dm_tor d' = TRegister \<and> NodeService \<in> set (dm_sessions d') \<and>
     (\<exists>r. dm_registry d' = Some r)"
proof -
  obtain r svc where "Register demo_denv (registry_New demo_engine) NodeService
      (proto_to_manifest \<lparr>pm_Name = ''node'', pm_Description = '''', pm_Acl = 0, pm_Allowlist = []\<rparr>) (Some [ChatHandler, ConnectionHandler]) = (r, Inr svc)"
    using demo_node_registers by blast
  then show ?thesis
    by (simp add: rpc_open_def api_registry_def demo_attached_reach RegisterService_open_def demo_claim_def validateManifest_def
        rs_send_def new_stream_def registry_New_def NodeService_def share_frame)
qed

theorem node_name_taken_witness:
  "\<exists>d' :: nat daemon. daemon_reach demo_hashes (demo_kp 1) demo_cfg d' \<and> dm_start d' = SServing \<and>
     TorState (ns_node (dm_sys d')) = ''ready'' \<and> node_OnionAddr (ns_node (dm_sys d')) = ''''"
proof -
  obtain d' res r where o': "rpc_open demo_denv [] demo_claim True demo_attached = (d', res)" and d': "dm_tor d' = TRegister"
    "NodeService \<in> set (dm_sessions d')" "dm_registry d' = Some r" using demo_claimed by blast
  have "first_fresh demo_denv demo_attached demo_claim" by (simp add: first_fresh_def demo_attached_reach demo_env_ok)
  from d_open[OF demo_attached_reach(4) demo_env_ok(1) this o'] have reach: "daemon_reach demo_hashes (demo_kp 1) demo_cfg d'"
    by (rule dr_step[OF demo_attached_reach(1)])
  have "reg_inv r" "Get r NodeService \<noteq> None"
    using daemon_reach_inv[OF reach] d' by (auto simp: registry_ok_def sessions_ok_def)
  then have fr: "fresh_onion demo_denv r NodeService"
    by (auto simp: fresh_onion_def engine_OnionAddr_def AddOnion_def add_prepare_def split: sum.splits dest!: reg_invD(3))
  have start: "dm_start d' = SServing"
    using o' by (auto simp: rpc_open_def share_frame demo_attached_reach Let_def split: option.splits sum.splits prod.splits)
  have "daemon_reach demo_hashes (demo_kp 1) demo_cfg (tor_register demo_denv r d')"
    by (rule dr_step[OF reach], rule d_register) (use d' fr demo_env_ok in auto)
  moreover have "dm_start (tor_register demo_denv r d') = SServing" using start by (simp add: tor_register_def split: prod.splits sum.splits)
  ultimately show ?thesis
    using node_name_taken[OF reach d' rtranclp.rtrancl_refl, where env = demo_denv and L = demo_libp2p and E = demo_ed25519 and X = demo_kex
        and N = demo_net and io = demo_connect_io and w = "()" and a = "''E''"]
    by (intro exI[of _ "tor_register demo_denv r d'"]) blast
qed

end
