(* ===== verification/Spec2Isabelle.thy ===== *)
theory Spec2Isabelle
  imports Routing_Props Dht_Props File_Transfer_Props Registry_Props Signaling_Lifecycle Keystore Connector_Props Transfer_Slots Chat Access_Control
    Discovery_Manager Presence File_Offers Daemon_Start
begin

text \<open>
  A verification development of the ensemble peer-to-peer daemon (\<open>src/\<close>).
\<close>

end
